(* ===== verification/Duck_Prelude.thy ===== *)
theory Duck_Prelude
  imports Complex_Main "HOL-Library.Word" "HOL-Library.Monad_Syntax"
begin

unbundle bit_operations_syntax

text \<open>
  Shared vocabulary of the development: the fixed-width integer types of the C++ sources,
  checked array accesses, the C library routines the sources use (\<open>memcpy\<close>, \<open>assert\<close>, the
  decimal conversions of \<open>printf\<close> and \<open>scanf\<close>), counted loops with early failure, and the
  generic lemmas about them that the component theories use.

  A computation that may run into undefined behaviour (an index outside its array, a failed
  \<open>assert\<close>) or that may not return is a value of an option type: \<^term>\<open>None\<close> is the failure,
  and a theorem that an operation is \<^term>\<open>Some x\<close> says that no access of it is out of range,
  that no assertion fails and that it returns.
\<close>

section \<open>Machine integers\<close>

type_synonym u8 = "8 word"
type_synonym u16 = "16 word"
type_synonym u32 = "32 word"
type_synonym u64 = "64 word"
type_synonym u128 = "128 word"

named_theorems opt_simps \<open>rewrite rules for checked accesses that are in range\<close>

section \<open>Checked arrays\<close>

definition rd :: "'a list \<Rightarrow> nat \<Rightarrow> 'a option" where
  "rd xs i = (if i < length xs then Some (xs ! i) else None)"

definition wr :: "'a list \<Rightarrow> nat \<Rightarrow> 'a \<Rightarrow> 'a list option" where
  "wr xs i v = (if i < length xs then Some (xs[i := v]) else None)"

text \<open>Reading \<open>n\<close> consecutive cells from offset \<open>off\<close>, and overwriting the cells from \<open>off\<close>
  on with \<open>ys\<close>: the two halves of \<open>memcpy\<close> and \<open>memmove\<close>.\<close>

definition rd_range :: "'a list \<Rightarrow> nat \<Rightarrow> nat \<Rightarrow> 'a list option" where
  "rd_range xs off n = (if off + n \<le> length xs then Some (take n (drop off xs)) else None)"

definition blit :: "'a list \<Rightarrow> nat \<Rightarrow> 'a list \<Rightarrow> 'a list" where
  "blit xs off ys = take off xs @ ys @ drop (off + length ys) xs"

definition wr_range :: "'a list \<Rightarrow> nat \<Rightarrow> 'a list \<Rightarrow> 'a list option" where
  "wr_range xs off ys =
     (if off + length ys \<le> length xs then Some (blit xs off ys) else None)"

definition c_assert :: "bool \<Rightarrow> unit option" where
  "c_assert b = (if b then Some () else None)"

text \<open>An index computed in signed arithmetic.\<close>

definition rd_int :: "'a list \<Rightarrow> int \<Rightarrow> 'a option" where
  "rd_int xs i = (if 0 \<le> i then rd xs (nat i) else None)"

lemma rd_in [opt_simps]: "i < length xs \<Longrightarrow> rd xs i = Some (xs ! i)"
  by (simp add: rd_def)

lemma wr_in [opt_simps]: "i < length xs \<Longrightarrow> wr xs i v = Some (xs[i := v])"
  by (simp add: wr_def)

lemma rd_range_in [opt_simps]:
  "off + n \<le> length xs \<Longrightarrow> rd_range xs off n = Some (take n (drop off xs))"
  by (simp add: rd_range_def)

lemma wr_range_in [opt_simps]:
  "off + length ys \<le> length xs \<Longrightarrow> wr_range xs off ys = Some (blit xs off ys)"
  by (simp add: wr_range_def)

lemma c_assert_True [opt_simps]: "b \<Longrightarrow> c_assert b = Some ()"
  by (simp add: c_assert_def)

lemma c_assert_False [simp]: "c_assert False = None"
  by (simp add: c_assert_def)

lemma rd_SomeD: "rd xs i = Some x \<Longrightarrow> i < length xs \<and> x = xs ! i"
  by (auto simp: rd_def split: if_splits)

lemma wr_SomeD: "wr xs i v = Some ys \<Longrightarrow> i < length xs \<and> ys = xs[i := v]"
  by (auto simp: wr_def split: if_splits)

lemma c_assert_Some_iff [simp]: "c_assert b = Some u \<longleftrightarrow> b"
  by (simp add: c_assert_def)

lemma length_blit [simp]: "off + length ys \<le> length xs \<Longrightarrow> length (blit xs off ys) = length xs"
  by (simp add: blit_def)

lemma nth_blit:
  assumes "off + length ys \<le> length xs" "i < length xs"
  shows "blit xs off ys ! i = (if off \<le> i \<and> i < off + length ys then ys ! (i - off) else xs ! i)"
  using assms by (auto simp: blit_def nth_append)

lemma blit_Nil [simp]: "blit xs off [] = xs"
  by (simp add: blit_def)

lemma take_drop_blit_same [simp]:
  "off + length ys \<le> length xs \<Longrightarrow> take (length ys) (drop off (blit xs off ys)) = ys"
  by (simp add: blit_def)

lemma take_blit_before [simp]: "n \<le> off \<Longrightarrow> off \<le> length xs \<Longrightarrow> take n (blit xs off ys) = take n xs"
  by (simp add: blit_def)

lemma slice_conv_map_nth:
  "off + n \<le> length xs \<Longrightarrow> take n (drop off xs) = map (\<lambda>i. xs ! (off + i)) [0..<n]"
  by (auto intro: nth_equalityI)

section \<open>Counted loops that may fail\<close>

text \<open>\<open>for_opt f xs s\<close> runs the loop body \<open>f\<close> on the loop values \<open>xs\<close> in order and stops at the
  first failure.\<close>

primrec for_opt :: "('a \<Rightarrow> 's \<Rightarrow> 's option) \<Rightarrow> 'a list \<Rightarrow> 's \<Rightarrow> 's option" where
  "for_opt f [] s = Some s"
| "for_opt f (x # xs) s = f x s \<bind> for_opt f xs"

lemma for_opt_append: "for_opt f (xs @ ys) s = for_opt f xs s \<bind> for_opt f ys"
  by (induction xs arbitrary: s) (auto simp: bind_eq_None_conv split: bind_splits)

lemma for_opt_total:
  assumes "\<And>x s. x \<in> set xs \<Longrightarrow> f x s = Some (g x s)"
  shows "for_opt f xs s = Some (fold g xs s)"
  using assms by (induction xs arbitrary: s) auto

text \<open>The invariant rule: every iteration succeeds and re-establishes \<open>P\<close>, indexed by the number
  of iterations done.\<close>

lemma for_opt_upt_inv:
  assumes "P a s" and "a \<le> b"
    and step: "\<And>i s. a \<le> i \<Longrightarrow> i < b \<Longrightarrow> P i s \<Longrightarrow> \<exists>s'. f i s = Some s' \<and> P (Suc i) s'"
  shows "\<exists>s'. for_opt f [a..<b] s = Some s' \<and> P b s'"
  using assms(2,1) step
proof (induction "b - a" arbitrary: a s)
  case 0
  then show ?case by simp
next
  case (Suc n)
  then have ab: "a < b" by simp
  with Suc.prems obtain s1 where s1: "f a s = Some s1" "P (Suc a) s1" by blast
  have "\<exists>s'. for_opt f [Suc a..<b] s1 = Some s' \<and> P b s'"
    using Suc.hyps(1)[of "Suc a" s1] Suc.hyps(2) Suc.prems(3) s1(2) ab by simp
  with s1(1) ab show ?case by (simp add: upt_conv_Cons)
qed

lemma for_opt_downto_inv:
  assumes "P n s"
    and step: "\<And>i s. i < n \<Longrightarrow> P (Suc i) s \<Longrightarrow> \<exists>s'. f i s = Some s' \<and> P i s'"
  shows "\<exists>s'. for_opt f (rev [0..<n]) s = Some s' \<and> P 0 s'"
  using assms
proof (induction n arbitrary: s)
  case 0
  then show ?case by simp
next
  case (Suc n)
  then obtain s1 where s1: "f n s = Some s1" "P n s1" by blast
  with Suc.IH[OF s1(2)] Suc.prems(2) show ?case by (simp add: less_SucI)
qed

section \<open>Decimal text\<close>

type_synonym bytes = "u8 list"

definition bytes_of_string :: "string \<Rightarrow> bytes" where
  "bytes_of_string s = map of_char s"

lemma length_bytes_of_string [simp]: "length (bytes_of_string s) = length s"
  by (simp add: bytes_of_string_def)

lemma bytes_of_string_append [simp]:
  "bytes_of_string (s @ t) = bytes_of_string s @ bytes_of_string t"
  by (simp add: bytes_of_string_def)

text \<open>The decimal digits of a number, most significant first, as \<open>printf\<close> writes them for \<open>%d\<close>
  and \<open>%lu\<close>.\<close>

fun dec_digits :: "nat \<Rightarrow> nat list" where
  "dec_digits n = (if n < 10 then [n] else dec_digits (n div 10) @ [n mod 10])"

declare dec_digits.simps [simp del]

definition dec_nat :: "nat \<Rightarrow> string" where
  "dec_nat n = map (\<lambda>d. char_of (48 + d)) (dec_digits n)"

definition dec_value :: "nat list \<Rightarrow> nat" where
  "dec_value ds = foldl (\<lambda>a d. 10 * a + d) 0 ds"

lemma dec_value_snoc [simp]: "dec_value (ds @ [d]) = 10 * dec_value ds + d"
  by (simp add: dec_value_def)

lemma dec_value_Nil [simp]: "dec_value [] = 0"
  by (simp add: dec_value_def)

lemma dec_digits_lt_10: "d \<in> set (dec_digits n) \<Longrightarrow> d < 10"
proof (induction n arbitrary: d rule: dec_digits.induct)
  case (1 n)
  then show ?case by (subst (asm) (2) dec_digits.simps) (auto split: if_splits)
qed

lemma dec_digits_not_Nil [simp]: "dec_digits n \<noteq> []"
  by (subst dec_digits.simps) simp

lemma dec_value_dec_digits [simp]: "dec_value (dec_digits n) = n"
proof (induction n rule: dec_digits.induct)
  case (1 n)
  then show ?case by (subst dec_digits.simps) (simp add: dec_value_def)
qed

lemma length_dec_digits_le: "n < 10 ^ k \<Longrightarrow> 0 < k \<Longrightarrow> length (dec_digits n) \<le> k"
proof (induction n arbitrary: k rule: dec_digits.induct)
  case (1 n)
  show ?case
  proof (cases "n < 10")
    case True
    with 1 show ?thesis by (simp add: dec_digits.simps [of n])
  next
    case False
    have "0 < k - 1" using 1(2) False by (cases "k - 1") (auto simp: le_Suc_eq)
    with 1(3) obtain m where k: "k = Suc m" and "0 < m" by (cases k) auto
    then have "n div 10 < 10 ^ m" using 1 by (simp add: less_mult_imp_div_less mult.commute)
    with False 1 k \<open>0 < m\<close> show ?thesis by (simp add: dec_digits.simps [of n])
  qed
qed

lemma length_dec_nat_le: "n < 10 ^ k \<Longrightarrow> 0 < k \<Longrightarrow> length (dec_nat n) \<le> k"
  by (simp add: dec_nat_def length_dec_digits_le)

section \<open>Words\<close>

lemma unat_of_nat_lt: "n < 2 ^ LENGTH('a) \<Longrightarrow> unat (of_nat n :: 'a::len word) = n"
  by (simp add: unat_of_nat take_bit_nat_eq_self)

lemma unat_ucast_fits:
  "unat w < 2 ^ LENGTH('b) \<Longrightarrow> unat (ucast w :: 'b::len word) = unat (w :: 'a::len word)"
  by (simp add: unsigned_ucast_eq take_bit_nat_eq_self)

lemma unat_ucast_up:
  "LENGTH('a) \<le> LENGTH('b) \<Longrightarrow> unat (ucast w :: 'b::len word) = unat (w :: 'a::len word)"
  by (rule unat_ucast_fits) (rule order_less_le_trans[OF unsigned_less], simp)

text \<open>Word arithmetic that does not wrap around.\<close>

lemma unat_add_fits:
  "unat x + unat y < 2 ^ LENGTH('a) \<Longrightarrow> unat (x + y :: 'a::len word) = unat x + unat y"
  using unat_add_lem by blast

lemma unat_mult_fits:
  "unat x * unat y < 2 ^ LENGTH('a) \<Longrightarrow> unat (x * y :: 'a::len word) = unat x * unat y"
  using unat_mult_lem by blast

lemma unat_minus_fits:
  "unat y \<le> unat x \<Longrightarrow> unat (x - y :: 'a::len word) = unat x - unat y"
  by (simp add: unat_sub word_le_nat_alt)

section \<open>Byte order\<close>

text \<open>The machine is little-endian: a 16-bit or 32-bit field of a packed structure is read from its
  bytes with the low one first.\<close>

definition le16 :: "u8 \<Rightarrow> u8 \<Rightarrow> u16" where
  "le16 lo hi = ucast lo OR push_bit 8 (ucast hi)"

definition le32 :: "u8 \<Rightarrow> u8 \<Rightarrow> u8 \<Rightarrow> u8 \<Rightarrow> u32" where
  "le32 a b c d = ucast a OR push_bit 8 (ucast b) OR push_bit 16 (ucast c) OR push_bit 24 (ucast d)"

definition bytes16 :: "u16 \<Rightarrow> bytes" where
  "bytes16 x = [ucast x, ucast (drop_bit 8 x)]"

definition bytes32 :: "u32 \<Rightarrow> bytes" where
  "bytes32 x = [ucast x, ucast (drop_bit 8 x), ucast (drop_bit 16 x), ucast (drop_bit 24 x)]"

lemma bit_u8_ge: "8 \<le> n \<Longrightarrow> \<not> bit (a :: u8) n"
  using bit_imp_le_length[of a n] by auto

lemma bytes16_le16 [simp]: "bytes16 (le16 a b) = [a, b]"
  by (auto simp: bytes16_def le16_def bit_simps bit_u8_ge intro!: bit_word_eqI)

lemma bytes32_le32 [simp]: "bytes32 (le32 a b c d) = [a, b, c, d]"
  by (auto simp: bytes32_def le32_def bit_simps bit_u8_ge intro!: bit_word_eqI)

lemma le16_bytes16: "le16 (bytes16 x ! 0) (bytes16 x ! 1) = x"
  by (auto simp: bytes16_def le16_def bit_simps bit_u8_ge intro!: bit_word_eqI)

lemma le32_bytes32: "le32 (bytes32 x ! 0) (bytes32 x ! 1) (bytes32 x ! 2) (bytes32 x ! 3) = x"
proof (rule bit_word_eqI)
  fix n assume "n < LENGTH(32)"
  then consider "n < 8" | "8 \<le> n" "n < 16" | "16 \<le> n" "n < 24" | "24 \<le> n" "n < 32" by force
  then show "bit (le32 (bytes32 x ! 0) (bytes32 x ! 1) (bytes32 x ! 2) (bytes32 x ! 3)) n = bit x n"
    by cases (simp_all add: bytes32_def le32_def bit_simps, linarith+)
qed

lemma length_bytes16 [simp]: "length (bytes16 x) = 2" by (simp add: bytes16_def)
lemma length_bytes32 [simp]: "length (bytes32 x) = 4" by (simp add: bytes32_def)

lemma le16_inject: "le16 a b = le16 c d \<longleftrightarrow> a = c \<and> b = d"
  by (metis bytes16_le16 list.inject)

text \<open>Fields of a packed structure inside a byte buffer.\<close>

definition get16 :: "bytes \<Rightarrow> nat \<Rightarrow> u16 option" where
  "get16 b off = do { x \<leftarrow> rd b off; y \<leftarrow> rd b (off + 1); Some (le16 x y) }"

definition get32 :: "bytes \<Rightarrow> nat \<Rightarrow> u32 option" where
  "get32 b off = do { x \<leftarrow> rd b off; y \<leftarrow> rd b (off + 1); z \<leftarrow> rd b (off + 2); w \<leftarrow> rd b (off + 3);
     Some (le32 x y z w) }"

definition put16 :: "bytes \<Rightarrow> nat \<Rightarrow> u16 \<Rightarrow> bytes option" where
  "put16 b off x = wr_range b off (bytes16 x)"

definition put32 :: "bytes \<Rightarrow> nat \<Rightarrow> u32 \<Rightarrow> bytes option" where
  "put32 b off x = wr_range b off (bytes32 x)"

lemma get16_in [opt_simps]: "off + 2 \<le> length b \<Longrightarrow> get16 b off = Some (le16 (b ! off) (b ! (off + 1)))"
  by (simp add: get16_def rd_def)

lemma get32_in [opt_simps]: "off + 4 \<le> length b \<Longrightarrow>
    get32 b off = Some (le32 (b ! off) (b ! (off + 1)) (b ! (off + 2)) (b ! (off + 3)))"
  by (simp add: get32_def rd_def)

lemma put16_in [opt_simps]: "off + 2 \<le> length b \<Longrightarrow> put16 b off x = Some (blit b off (bytes16 x))"
  by (simp add: put16_def wr_range_def)

lemma put32_in [opt_simps]: "off + 4 \<le> length b \<Longrightarrow> put32 b off x = Some (blit b off (bytes32 x))"
  by (simp add: put32_def wr_range_def)

text \<open>Sixty-four bits, low half first.\<close>

definition bytes64 :: "u64 \<Rightarrow> bytes" where
  "bytes64 x = bytes32 (ucast x) @ bytes32 (ucast (drop_bit 32 x))"

definition get64 :: "bytes \<Rightarrow> nat \<Rightarrow> u64 option" where
  "get64 b off = do { lo \<leftarrow> get32 b off; hi \<leftarrow> get32 b (off + 4); Some (ucast lo OR push_bit 32 (ucast hi)) }"

lemma length_bytes64 [simp]: "length (bytes64 x) = 8" by (simp add: bytes64_def)

lemma get32_bytes32: "get32 (pre @ bytes32 x @ post) (length pre) = Some x"
  using le32_bytes32[of x] by (simp add: get32_in nth_append bytes32_def)

lemma get64_bytes64: "get64 (pre @ bytes64 x @ post) (length pre) = Some x"
proof -
  have "get32 (pre @ bytes32 (ucast x) @ (bytes32 (ucast (drop_bit 32 x)) @ post)) (length pre) = Some (ucast x)" by (rule get32_bytes32)
  moreover have "get32 ((pre @ bytes32 (ucast x)) @ bytes32 (ucast (drop_bit 32 x)) @ post) (length (pre @ bytes32 (ucast x))) =
    Some (ucast (drop_bit 32 x))" by (rule get32_bytes32)
  moreover have "ucast (ucast x :: u32) OR push_bit 32 (ucast (ucast (drop_bit 32 x) :: u32)) = x"
    by (rule bit_word_eqI) (auto simp: bit_simps)
  ultimately show ?thesis by (simp add: get64_def bytes64_def)
qed

lemma get64_in: "off + 8 \<le> length b \<Longrightarrow> \<exists>x. get64 b off = Some x"
  by (simp add: get64_def get32_in)

section \<open>Tables\<close>

text \<open>Inserting into the first \<open>cnt\<close> entries by moving the tail up.\<close>

lemma table_insert:
  assumes "l \<le> cnt" "cnt < length tab"
  shows "take (cnt + 1) ((blit tab (l + 1) (take (cnt - l) (drop l tab)))[l := e]) =
    take l tab @ e # drop l (take cnt tab)"
  using assms by (auto simp: blit_def list_update_append drop_take Suc_diff_le take_Suc_conv_app_nth)

lemma table_insert_set:
  assumes "l \<le> cnt" "cnt < length tab"
  shows "set (take (cnt + 1) ((blit tab (l + 1) (take (cnt - l) (drop l tab)))[l := e])) \<subseteq>
    insert e (set (take cnt tab))"
proof -
  have "set (take l tab) \<subseteq> set (take cnt tab)" by (rule set_take_subset_set_take) (rule assms(1))
  then show ?thesis unfolding table_insert[OF assms] by (auto dest: in_set_dropD)
qed

section \<open>Operations that return\<close>

text \<open>An operation on a state returns a value and a state with a property; it does not fault.\<close>

definition returns :: "('s \<Rightarrow> bool) \<Rightarrow> ('r \<times> 's) option \<Rightarrow> bool" where
  "returns P m \<longleftrightarrow> (case m of None \<Rightarrow> False | Some (r, s) \<Rightarrow> P s)"

lemma returns_Some [simp]: "returns P (Some (r, s)) = P s"
  by (simp add: returns_def)

lemma returns_Some_pair: "P (snd x) \<Longrightarrow> returns P (Some x)"
  by (cases x) simp

lemma returnsE:
  assumes "returns P m"
  obtains r s where "m = Some (r, s)" "P s"
  using assms by (auto simp: returns_def split: option.splits)

lemma returns_bind:
  assumes "returns P m" "\<And>r s. m = Some (r, s) \<Longrightarrow> P s \<Longrightarrow> returns Q (f (r, s))"
  shows "returns Q (m \<bind> f)"
  using assms by (auto elim!: returnsE)

text \<open>A step relation as a function on events: a sequence of events never faults when a single one
  does not, and keeps the invariant.\<close>

locale safe_steps =
  fixes inv :: "'s \<Rightarrow> bool" and step :: "'e \<Rightarrow> 's \<Rightarrow> 's option" and ok :: "'e \<Rightarrow> bool"
  assumes step_safe: "inv s \<Longrightarrow> ok e \<Longrightarrow> \<exists>s'. step e s = Some s' \<and> inv s'"
begin

lemma steps_safe: "inv s \<Longrightarrow> \<forall>e \<in> set es. ok e \<Longrightarrow> \<exists>s'. for_opt step es s = Some s' \<and> inv s'"
proof (induction es arbitrary: s)
  case (Cons e es)
  then obtain s1 where "step e s = Some s1" "inv s1" using step_safe[of s e] by auto
  then show ?case using Cons by simp
qed simp

end

end
