(* ===== verification/Solver_Hash.thy ===== *)
theory Solver_Hash
  imports Duck_Prelude
begin

text \<open>
  The chained hash table of \<open>kern/solver_faster.cpp\<close> (\<open>struct Hash\<close>). The table keeps one entry
  per digit position: the key is the running prefix sum, the value the digit index. Buckets are
  linked lists threaded through the array \<open>next\<close>, with 0 as the end marker, so a slot number is
  one more than the position of the entry in insertion order.

  The abstract view of a table is the list of its entries in insertion order (\<open>hash_wf h es\<close>).
  Insertion appends to it, and a query visits the entries with the given key from the newest to
  the oldest; both never leave their arrays, and the query loop always ends.
\<close>

section \<open>The table and its operations\<close>

definition N :: nat where "N = 256"
definition MAX_BATCH_SIZE :: nat where "MAX_BATCH_SIZE = 400"
definition HASH_SIZE :: nat where "HASH_SIZE = 1024"

record Hash =
  h_first :: "u16 list"
  h_next :: "u16 list"
  h_values :: "u16 list"
  h_keys :: "u64 list"
  h_cnt :: u32

text \<open>The static tables start zeroed.\<close>

definition zero_Hash :: Hash where
  "zero_Hash = \<lparr>h_first = replicate HASH_SIZE 0,
     h_next = replicate (N + MAX_BATCH_SIZE + 5) 0,
     h_values = replicate (N + MAX_BATCH_SIZE + 5) 0,
     h_keys = replicate (N + MAX_BATCH_SIZE + 5) 0, h_cnt = 0\<rparr>"

definition hash_clear :: "Hash \<Rightarrow> Hash" where
  "hash_clear h = h\<lparr>h_cnt := 0, h_first := replicate (length (h_first h)) 0\<rparr>"

definition bucket :: "u64 \<Rightarrow> u32" where
  "bucket key = ucast (key AND (of_nat HASH_SIZE - 1))"

definition hash_insert :: "u64 \<Rightarrow> u32 \<Rightarrow> Hash \<Rightarrow> Hash option" where
  "hash_insert key value h = (
     let idx = unat (bucket key); cnt = h_cnt h + 1 in do {
       head \<leftarrow> rd (h_first h) idx;
       nx \<leftarrow> wr (h_next h) (unat cnt) head;
       ks \<leftarrow> wr (h_keys h) (unat cnt) key;
       vs \<leftarrow> wr (h_values h) (unat cnt) (ucast value);
       fs \<leftarrow> wr (h_first h) idx (ucast cnt);
       Some (h\<lparr>h_cnt := cnt, h_next := nx, h_keys := ks, h_values := vs, h_first := fs\<rparr>)
     })"

text \<open>The loop of \<open>query_all\<close>: \<open>report\<close> stands for the call of \<open>report_digits\<close> on the entry's
  value, and \<open>r\<close> for the reporter state it changes.\<close>

partial_function (option) query_loop ::
    "Hash \<Rightarrow> (u32 \<Rightarrow> 'r \<Rightarrow> 'r option) \<Rightarrow> u64 \<Rightarrow> u32 \<Rightarrow> u32 \<Rightarrow> 'r \<Rightarrow> 'r option" where
  "query_loop h report key q_idx i r =
     (if i = 0 then Some r
      else do {
        k \<leftarrow> rd (h_keys h) (unat i);
        r' \<leftarrow> (if k \<noteq> key then Some r
              else do {
                v \<leftarrow> rd (h_values h) (unat i);
                if q_idx - ucast v > of_nat N then Some r
                else report (ucast v) r
              });
        nx \<leftarrow> rd (h_next h) (unat i);
        query_loop h report key q_idx (ucast nx) r'
      })"

definition query_all ::
    "Hash \<Rightarrow> (u32 \<Rightarrow> 'r \<Rightarrow> 'r option) \<Rightarrow> u64 \<Rightarrow> u32 \<Rightarrow> 'r \<Rightarrow> 'r option" where
  "query_all h report key q_idx r = do {
     i \<leftarrow> rd (h_first h) (unat (bucket key));
     query_loop h report key q_idx (ucast i) r
   }"

section \<open>Well-formed tables\<close>

primrec chain :: "u16 list \<Rightarrow> nat \<Rightarrow> nat list \<Rightarrow> bool" where
  "chain nx i [] \<longleftrightarrow> i = 0"
| "chain nx i (k # ks) \<longleftrightarrow> i = k \<and> 0 < k \<and> k < length nx \<and> chain nx (unat (nx ! k)) ks"

text \<open>Slots of the entries of \<open>es\<close> that belong to bucket \<open>b\<close>, newest first.\<close>

definition slots :: "(u64 \<times> nat) list \<Rightarrow> nat \<Rightarrow> nat list" where
  "slots es b = rev (map Suc (filter (\<lambda>k. unat (bucket (fst (es ! k))) = b) [0..<length es]))"

definition hash_wf :: "Hash \<Rightarrow> (u64 \<times> nat) list \<Rightarrow> bool" where
  "hash_wf h es \<longleftrightarrow>
     length (h_first h) = HASH_SIZE \<and>
     length (h_next h) = N + MAX_BATCH_SIZE + 5 \<and>
     length (h_keys h) = N + MAX_BATCH_SIZE + 5 \<and>
     length (h_values h) = N + MAX_BATCH_SIZE + 5 \<and>
     unat (h_cnt h) = length es \<and> length es < N + MAX_BATCH_SIZE + 5 \<and>
     (\<forall>k < length es. h_keys h ! Suc k = fst (es ! k) \<and> unat (h_values h ! Suc k) = snd (es ! k)) \<and>
     (\<forall>b < HASH_SIZE. chain (h_next h) (unat (h_first h ! b)) (slots es b))"

lemma bucket_lt: "unat (bucket key) < HASH_SIZE"
proof -
  have "key AND 1023 \<le> 1023" by (rule word_and_le1)
  then have "unat (key AND 1023) \<le> 1023" by (simp add: word_le_nat_alt)
  then show ?thesis
    by (simp add: bucket_def HASH_SIZE_def unat_ucast_fits)
qed

lemma chain_update:
  "j \<notin> set ks \<Longrightarrow> chain (nx[j := v]) i ks = chain nx i ks"
  by (induction ks arbitrary: i) auto

lemma slots_append:
  "slots (es @ [(key, v)]) b =
     (if unat (bucket key) = b then Suc (length es) # slots es b else slots es b)"
proof -
  have "filter (\<lambda>k. unat (bucket (fst ((es @ [(key, v)]) ! k))) = b) [0..<length es] =
        filter (\<lambda>k. unat (bucket (fst (es ! k))) = b) [0..<length es]"
    by (rule filter_cong) (auto simp: nth_append)
  then show ?thesis by (simp add: slots_def)
qed

lemma slots_bound: "k \<in> set (slots es b) \<Longrightarrow> 0 < k \<and> k \<le> length es"
  by (auto simp: slots_def)

lemma hash_wf_clear:
  assumes "hash_wf h es"
  shows "hash_wf (hash_clear h) []"
  using assms by (simp add: hash_wf_def hash_clear_def slots_def)

lemma hash_wf_zero: "hash_wf zero_Hash []"
  by (simp add: hash_wf_def zero_Hash_def slots_def N_def MAX_BATCH_SIZE_def HASH_SIZE_def)

section \<open>Insertion\<close>

lemma hash_insert_wf:
  assumes wf: "hash_wf h es" and room: "length es < N + MAX_BATCH_SIZE + 4"
    and v: "unat value < 2 ^ 16"
  obtains h' where "hash_insert key value h = Some h'"
    and "hash_wf h' (es @ [(key, unat value)])"
proof -
  let ?n = "length es" and ?b = "unat (bucket key)"
  note lens = wf[unfolded hash_wf_def]
  have b: "?b < HASH_SIZE" by (rule bucket_lt)
  have cnt: "unat (h_cnt h + 1) = Suc ?n"
    using lens room by (simp add: unat_word_ariths N_def MAX_BATCH_SIZE_def)
  have ucnt: "unat (ucast (h_cnt h + 1) :: u16) = Suc ?n"
    using cnt room by (simp add: unat_ucast_fits N_def MAX_BATCH_SIZE_def)
  have uval: "unat (ucast value :: u16) = unat value"
    using v by (simp add: unat_ucast_fits)
  define h' where "h' = h\<lparr>h_cnt := h_cnt h + 1, h_next := (h_next h)[Suc ?n := h_first h ! ?b],
      h_keys := (h_keys h)[Suc ?n := key], h_values := (h_values h)[Suc ?n := ucast value],
      h_first := (h_first h)[?b := ucast (h_cnt h + 1)]\<rparr>"
  have ins: "hash_insert key value h = Some h'"
    using lens room b by (simp add: hash_insert_def Let_def cnt opt_simps h'_def)
  have ch: "chain (h_next h') (unat (h_first h' ! b)) (slots (es @ [(key, unat value)]) b)"
    if "b < HASH_SIZE" for b
  proof -
    have old: "chain (h_next h) (unat (h_first h ! b)) (slots es b)"
      using lens that by blast
    have "Suc ?n \<notin> set (slots es b)" using slots_bound by fastforce
    with old have old': "chain (h_next h') (unat (h_first h ! b)) (slots es b)"
      by (simp add: h'_def chain_update)
    show ?thesis
    proof (cases "?b = b")
      case True
      with old' lens b room ucnt show ?thesis
        by (simp add: slots_append h'_def)
    next
      case False
      with old' show ?thesis by (simp add: slots_append h'_def)
    qed
  qed
  have "hash_wf h' (es @ [(key, unat value)])"
    unfolding hash_wf_def using lens room ch
    by (auto simp: h'_def cnt nth_append nth_list_update uval less_Suc_eq)
  with ins that show ?thesis by blast
qed

section \<open>Queries\<close>

text \<open>The values a query passes to \<open>report\<close>, in call order.\<close>

definition hits :: "(u64 \<times> nat) list \<Rightarrow> u64 \<Rightarrow> u32 \<Rightarrow> nat list" where
  "hits es key q_idx =
     map snd (filter (\<lambda>(k, v). k = key \<and> \<not> q_idx - of_nat v > of_nat N) (rev es))"

lemma query_loop_chain:
  assumes wf: "hash_wf h es"
    and "chain (h_next h) (unat i) ks" and "set ks \<subseteq> {0<..length es}"
  shows "query_loop h report key q_idx i r =
     for_opt report
       (map (\<lambda>k. of_nat (snd (es ! (k - 1))))
         (filter (\<lambda>k. fst (es ! (k - 1)) = key
            \<and> \<not> q_idx - of_nat (snd (es ! (k - 1))) > of_nat N) ks)) r"
  using assms(2,3)
proof (induction ks arbitrary: i r)
  case Nil
  then have "i = 0" by (simp add: unat_eq_0)
  then show ?case by (simp add: query_loop.simps)
next
  case (Cons k ks)
  from Cons.prems have k: "unat i = k" "0 < k" "k \<le> length es" "k < length (h_next h)"
    and rest: "chain (h_next h) (unat (ucast (h_next h ! k) :: u32)) ks" "set ks \<subseteq> {0<..length es}"
    by (auto simp: unat_ucast_up)
  have i0: "i \<noteq> 0" using k by (auto simp: unat_eq_0)
  have ent: "h_keys h ! k = fst (es ! (k - 1))" "unat (h_values h ! k) = snd (es ! (k - 1))"
    using wf k unfolding hash_wf_def by (auto dest: spec[of _ "k - 1"])
  have val: "(ucast (h_values h ! k) :: u32) = of_nat (snd (es ! (k - 1)))"
    unfolding ent(2)[symmetric] by simp
  have acc: "rd (h_keys h) k = Some (h_keys h ! k)" "rd (h_values h) k = Some (h_values h ! k)"
    "rd (h_next h) k = Some (h_next h ! k)"
    using wf k unfolding hash_wf_def by (auto simp: opt_simps)
  note IH = Cons.IH[OF rest]
  show ?case
    by (subst query_loop.simps)
      (simp add: i0 k(1) acc ent(1) val IH split: if_splits)
qed

lemma slots_hits:
  "map (\<lambda>k. snd (es ! (k - 1)))
     (filter (\<lambda>k. fst (es ! (k - 1)) = key \<and> P (snd (es ! (k - 1))))
        (slots es (unat (bucket key)))) =
   map snd (filter (\<lambda>(k, v). k = key \<and> P v) (rev es))"
proof (induction es rule: rev_induct)
  case Nil
  then show ?case by (simp add: slots_def)
next
  case (snoc e es)
  obtain k v where e: "e = (k, v)" by (cases e)
  let ?b = "unat (bucket key)"
  have cong: "map (\<lambda>j. snd ((es @ [e]) ! (j - 1)))
      (filter (\<lambda>j. fst ((es @ [e]) ! (j - 1)) = key \<and> P (snd ((es @ [e]) ! (j - 1)))) (slots es ?b)) =
    map (\<lambda>j. snd (es ! (j - 1)))
      (filter (\<lambda>j. fst (es ! (j - 1)) = key \<and> P (snd (es ! (j - 1)))) (slots es ?b))"
  proof -
    have "(es @ [e]) ! (j - 1) = es ! (j - 1)" if "j \<in> set (slots es ?b)" for j
      using slots_bound[OF that] by (auto simp: nth_append)
    then show ?thesis by (intro map_cong filter_cong) auto
  qed
  show ?case
    using snoc cong unfolding e by (auto simp: slots_append)
qed

lemma query_all_hits:
  assumes wf: "hash_wf h es"
  shows "query_all h report key q_idx r =
    for_opt report (map of_nat (hits es key q_idx)) r"
proof -
  let ?b = "unat (bucket key)"
  have b: "?b < HASH_SIZE" by (rule bucket_lt)
  have first: "rd (h_first h) ?b = Some (h_first h ! ?b)"
    and ch: "chain (h_next h) (unat (ucast (h_first h ! ?b) :: u32)) (slots es ?b)"
    using wf b unfolding hash_wf_def
    by (auto simp: opt_simps unat_ucast_up)
  have sub: "set (slots es ?b) \<subseteq> {0<..length es}" using slots_bound by auto
  show ?thesis
    unfolding query_all_def first
    using query_loop_chain[OF wf ch sub, of report key q_idx r]
    by (simp add: hits_def
        slots_hits[of es key "\<lambda>v. \<not> q_idx - of_nat v > of_nat N", symmetric] comp_def)
qed

end
