(* ===== verification/Solver.thy ===== *)
theory Solver
  imports Solver_Hash
begin

text \<open>
  The digit-stream solver of \<open>kern/solver_faster.cpp\<close>: \<open>namespace Reporter\<close> builds the HTTP
  requests and keeps the statistics, \<open>namespace Solver\<close> keeps the last 256 digits of the stream
  and, for each of four moduli, a hash table of prefix sums. A batch of new digits is matched
  against the tables: two equal prefix sums delimit a digit window whose number, shifted left by
  the distance to the end of the buffer, is a multiple of the modulus.

  The time stamp counter is an input: the reporter state carries the sequence of readings the
  processor returns and how many have been taken. Latencies are exact quotients, without the
  rounding of \<open>double\<close>. The calls of \<open>send_fn\<close> are the list \<open>r_sent\<close> and the lines of
  \<open>print_stat\<close> the list \<open>r_printed\<close>, both in call order.
\<close>

section \<open>Reporter\<close>

definition MAX_N_STATS :: nat where "MAX_N_STATS = 10"

record Stat =
  local_latency :: rat
  n_digits :: nat
  m_number :: nat

record Reporter =
  r_rdtsc :: "nat \<Rightarrow> u64"
  r_reads :: nat
  last_recv_tsc :: u64
  last_send_tsc :: u64
  tsc_freq_us :: u64
  r_stats :: "Stat list"
  n_stats :: nat
  sum_latency :: rat
  n_total_stats :: nat
  r_printed :: "(nat \<times> nat \<times> nat \<times> rat \<times> rat) list"
  r_sent :: "bytes list"

definition rdtsc_now :: "Reporter \<Rightarrow> u64" where
  "rdtsc_now r = r_rdtsc r (r_reads r)"

definition reporter_print_stat :: "Reporter \<Rightarrow> Reporter option" where
  "reporter_print_stat r = do {
     r' \<leftarrow> for_opt (\<lambda>i r. do {
         st \<leftarrow> rd (r_stats r) i;
         let s = sum_latency r + local_latency st;
         let n = n_total_stats r + 1;
         Some (r\<lparr>sum_latency := s, n_total_stats := n,
            r_printed := r_printed r @
              [(n, n_digits st, m_number st, local_latency st, s / of_nat n)]\<rparr>)
       }) [0..<n_stats r] r;
     Some (r'\<lparr>n_stats := 0\<rparr>)
   }"

definition add_stat :: "rat \<Rightarrow> nat \<Rightarrow> nat \<Rightarrow> Reporter \<Rightarrow> Reporter option" where
  "add_stat lat nd m r =
     (if n_stats r \<ge> MAX_N_STATS then Some r
      else do {
        st \<leftarrow> wr (r_stats r) (n_stats r) \<lparr>local_latency = lat, n_digits = nd, m_number = m\<rparr>;
        Some (r\<lparr>r_stats := st, n_stats := n_stats r + 1\<rparr>)
      })"

definition crlf :: string where "crlf = [CHR 0x0D, CHR 0x0A]"

definition header_format :: "nat \<Rightarrow> string" where
  "header_format len =
     ''POST /submit'' @ '' HTTP/1.1'' @ crlf @
     ''Host: '' @ ''59.110.124.141'' @ '':10002'' @ crlf @
     ''User-Agent: curl/7.68.0'' @ crlf @
     ''Accept: */*'' @ crlf @
     ''Content-Length: '' @ dec_nat len @ crlf @
     ''Content-Type: application/x-www-form-urlencoded'' @ crlf @
     crlf"

definition send_request :: "bytes \<Rightarrow> nat \<Rightarrow> nat \<Rightarrow> Reporter \<Rightarrow> Reporter option" where
  "send_request buf nd m r = do {
     let now = rdtsc_now r;
     let r = r\<lparr>last_send_tsc := now, r_reads := r_reads r + 1\<rparr>;
     let lat = of_nat (unat (last_send_tsc r - last_recv_tsc r)) / of_nat (unat (tsc_freq_us r));
     r \<leftarrow> add_stat lat nd m r;
     Some (r\<lparr>r_sent := r_sent r @ [buf]\<rparr>)
   }"

text \<open>The static buffers of \<open>report_string\<close> and \<open>report_digits\<close> have 1024 bytes; what is sent is
  written afresh on every call, so their earlier contents do not matter.\<close>

definition report_string :: "bytes \<Rightarrow> nat \<Rightarrow> Reporter \<Rightarrow> Reporter option" where
  "report_string str m r = do {
     let len = length str;
     let hdr = bytes_of_string (header_format len);
     let header_len = length hdr;
     buf \<leftarrow> wr_range (replicate 1024 0) 0 (hdr @ [0]);
     buf \<leftarrow> wr_range buf header_len str;
     msg \<leftarrow> rd_range buf 0 (header_len + len);
     send_request msg len m r
   }"

definition digit_char :: "int \<Rightarrow> u8" where
  "digit_char d = word_of_int (d + 48)"

definition report_digits :: "int list \<Rightarrow> nat \<Rightarrow> nat \<Rightarrow> nat \<Rightarrow> Reporter \<Rightarrow> Reporter option" where
  "report_digits ds off len m r = do {
     d0 \<leftarrow> rd ds off;
     if d0 = 0 then Some r
     else if m = 1 \<and> len < 14 then Some r
     else if m = 2 \<and> len < 27 then Some r
     else if m = 3 \<and> len < 54 then Some r
     else if m = 4 \<and> len < 68 then Some r
     else do {
       src \<leftarrow> rd_range ds off len;
       buf \<leftarrow> wr_range (replicate 1024 0) 0 (map digit_char src);
       str \<leftarrow> rd_range buf 0 len;
       report_string str m r
     }
   }"

section \<open>Solver\<close>

definition M1 :: u32 where "M1 = 299236546"
definition M2 :: u128 where "M2 = 1046482571183 * 100000000000000 + 48370704723401"
definition M3 :: u64 where "M3 = 500000000000000000 + 243"
definition M4 :: u32 where "M4 = 387420489"

record Solver =
  digits :: "int list"
  e1 :: "u32 list"
  e2 :: "u128 list"
  e3 :: "u64 list"
  e4 :: "u32 list"
  sum1 :: u32
  sum2 :: u128
  sum3 :: u64
  sum4 :: u32
  hash1 :: Hash
  hash2 :: Hash
  hash3 :: Hash
  hash4 :: Hash
  reporter :: Reporter

definition add_mod :: "'a::len word \<Rightarrow> 'a word \<Rightarrow> 'a word \<Rightarrow> 'a word" where
  "add_mod a b M = (let s = a + b in if s \<ge> M then s - M else s)"

definition add_digit_step ::
    "int list \<Rightarrow> 'a::len word list \<Rightarrow> 'a word \<Rightarrow> nat \<Rightarrow> nat \<Rightarrow>
     'a word \<times> Hash \<times> Reporter \<Rightarrow> ('a word \<times> Hash \<times> Reporter) option" where
  "add_digit_step ds e M m i = (\<lambda>(sum, h, r). do {
     d \<leftarrow> rd ds (N + i);
     x \<leftarrow> rd_int e (int (N + i) * 10 + d);
     let sum = add_mod sum x M;
     let q = (of_nat (N + i) :: u32);
     r \<leftarrow> query_all h (\<lambda>v. report_digits ds (unat v + 1) (unat (q - v)) m) (ucast sum) q r;
     h \<leftarrow> hash_insert (ucast sum) q h;
     Some (sum, h, r)
   })"

definition do_add_digits ::
    "int list \<Rightarrow> nat \<Rightarrow> 'a::len word \<Rightarrow> 'a word list \<Rightarrow> 'a word \<Rightarrow> nat \<Rightarrow>
     Hash \<Rightarrow> Reporter \<Rightarrow> (Hash \<times> Reporter) option" where
  "do_add_digits ds len sm e M m h r = do {
     (_, h, r) \<leftarrow> for_opt (add_digit_step ds e M m) [0..<len] (sm, h, r);
     Some (h, r)
   }"

definition add_digits :: "int list \<Rightarrow> Solver \<Rightarrow> Solver option" where
  "add_digits new_digits s = do {
     let len = length new_digits;
     ds \<leftarrow> wr_range (digits s) N new_digits;
     (h1, r) \<leftarrow> do_add_digits ds len (sum1 s) (e1 s) M1 1 (hash1 s) (reporter s);
     (h4, r) \<leftarrow> do_add_digits ds len (sum4 s) (e4 s) M4 4 (hash4 s) r;
     (h3, r) \<leftarrow> do_add_digits ds len (sum3 s) (e3 s) M3 3 (hash3 s) r;
     (h2, r) \<leftarrow> do_add_digits ds len (sum2 s) (e2 s) M2 2 (hash2 s) r;
     moved \<leftarrow> rd_range ds len N;
     ds \<leftarrow> wr_range ds 0 moved;
     Some (s\<lparr>digits := ds, hash1 := h1, hash2 := h2, hash3 := h3, hash4 := h4, reporter := r\<rparr>)
   }"

definition init_e_row ::
    "'a::len word \<Rightarrow> nat \<Rightarrow> 'a word \<times> 'a word list \<Rightarrow> ('a word \<times> 'a word list) option" where
  "init_e_row M i = (\<lambda>(cur, e). for_opt (\<lambda>j (tmp, e). do {
       e \<leftarrow> wr e (i * 10 + j) tmp;
       Some (add_mod tmp cur M, e)
     }) [0..<10] (0, e))"

definition init_e :: "'a::len word \<Rightarrow> 'a word list \<Rightarrow> 'a word list option" where
  "init_e M e = do {
     (_, e) \<leftarrow> for_opt (init_e_row M) (rev [0..<N + MAX_BATCH_SIZE]) (1, e);
     Some e
   }"

definition do_prepare_digits ::
    "int list \<Rightarrow> 'a::len word list \<Rightarrow> 'a word \<Rightarrow> Hash \<Rightarrow> ('a word \<times> Hash) option" where
  "do_prepare_digits ds e M h =
     for_opt (\<lambda>i (sum, h). do {
       d \<leftarrow> rd ds i;
       x \<leftarrow> rd_int e (int i * 10 + d);
       let sum = add_mod sum x M;
       h \<leftarrow> hash_insert (ucast sum) (of_nat i) h;
       Some (sum, h)
     }) [0..<N] (233333333, hash_clear h)"

definition prepare :: "Solver \<Rightarrow> Solver option" where
  "prepare s = do {
     (s1, h1) \<leftarrow> do_prepare_digits (digits s) (e1 s) M1 (hash1 s);
     (s2, h2) \<leftarrow> do_prepare_digits (digits s) (e2 s) M2 (hash2 s);
     (s3, h3) \<leftarrow> do_prepare_digits (digits s) (e3 s) M3 (hash3 s);
     (s4, h4) \<leftarrow> do_prepare_digits (digits s) (e4 s) M4 (hash4 s);
     Some (s\<lparr>sum1 := s1, hash1 := h1, sum2 := s2, hash2 := h2,
             sum3 := s3, hash3 := h3, sum4 := s4, hash4 := h4\<rparr>)
   }"

text \<open>The state of the static variables before \<open>Solver::init\<close>.\<close>

definition zero_Reporter :: "(nat \<Rightarrow> u64) \<Rightarrow> Reporter" where
  "zero_Reporter clock = \<lparr>r_rdtsc = clock, r_reads = 0, last_recv_tsc = 0, last_send_tsc = 0,
     tsc_freq_us = 0,
     r_stats = replicate MAX_N_STATS \<lparr>local_latency = 0, n_digits = 0, m_number = 0\<rparr>,
     n_stats = 0, sum_latency = 0, n_total_stats = 0, r_printed = [], r_sent = []\<rparr>"

definition zero_Solver :: "(nat \<Rightarrow> u64) \<Rightarrow> Solver" where
  "zero_Solver clock = \<lparr>digits = replicate (N + MAX_BATCH_SIZE) 0,
     e1 = replicate (10 * (N + MAX_BATCH_SIZE)) 0, e2 = replicate (10 * (N + MAX_BATCH_SIZE)) 0,
     e3 = replicate (10 * (N + MAX_BATCH_SIZE)) 0, e4 = replicate (10 * (N + MAX_BATCH_SIZE)) 0,
     sum1 = 0, sum2 = 0, sum3 = 0, sum4 = 0,
     hash1 = zero_Hash, hash2 = zero_Hash, hash3 = zero_Hash, hash4 = zero_Hash,
     reporter = zero_Reporter clock\<rparr>"

definition solver_init :: "u64 \<Rightarrow> Solver \<Rightarrow> Solver option" where
  "solver_init tsc_freq s = do {
     let r = (reporter s)\<lparr>tsc_freq_us := tsc_freq div 1000000\<rparr>;
     c_assert ((of_nat N :: u32) AND - of_nat N = of_nat N);
     ds \<leftarrow> for_opt (\<lambda>i ds. wr ds i 9) [0..<N] (digits s);
     x1 \<leftarrow> init_e M1 (e1 s);
     x2 \<leftarrow> init_e M2 (e2 s);
     x3 \<leftarrow> init_e M3 (e3 s);
     x4 \<leftarrow> init_e M4 (e4 s);
     prepare (s\<lparr>reporter := r, digits := ds, e1 := x1, e2 := x2, e3 := x3, e4 := x4\<rparr>)
   }"

definition char_digit :: "u8 \<Rightarrow> int" where
  "char_digit c = sint c - 48"

definition recv_input :: "bytes \<Rightarrow> Solver \<Rightarrow> Solver option" where
  "recv_input buf s = do {
     c_assert (1 \<le> length buf \<and> length buf \<le> MAX_BATCH_SIZE);
     let r = reporter s;
     let r = r\<lparr>last_recv_tsc := rdtsc_now r, r_reads := r_reads r + 1\<rparr>;
     add_digits (map char_digit buf) (s\<lparr>reporter := r\<rparr>)
   }"

definition solver_print_stat :: "Solver \<Rightarrow> Solver option" where
  "solver_print_stat s = do {
     r \<leftarrow> reporter_print_stat (reporter s);
     prepare (s\<lparr>reporter := r\<rparr>)
   }"

end
