(* ===== verification/Solver_Tables.thy ===== *)
theory Solver_Tables
  imports Solver
begin

text \<open>
  The modular arithmetic of the solver: \<open>add_mod\<close> is addition modulo \<open>M\<close> on reduced operands,
  the tables built by \<open>init_e\<close> hold \<open>j * 10 ^ (K - 1 - i) mod M\<close> at index \<open>10 * i + j\<close>, and the
  prefix sums of a digit buffer agree at two positions exactly when the window between them is
  a multiple of the modulus, up to the power of ten of its distance to the end of the buffer.
\<close>

abbreviation K :: nat where "K \<equiv> N + MAX_BATCH_SIZE"

section \<open>Addition modulo M\<close>

text \<open>A modulus the tables work for: sums of two reduced operands do not wrap around.\<close>

definition good_modulus :: "'a::len word \<Rightarrow> bool" where
  "good_modulus M \<longleftrightarrow> 233333333 < uint M \<and> 2 * uint M \<le> 2 ^ LENGTH('a)"

lemma add_mod_correct:
  fixes a b M :: "'a::len word"
  assumes "uint a < uint M" "uint b < uint M" "2 * uint M \<le> 2 ^ LENGTH('a)"
  shows "uint (add_mod a b M) = (uint a + uint b) mod uint M"
proof -
  have nonneg: "0 \<le> uint a" "0 \<le> uint b" by simp_all
  have s: "uint (a + b) = uint a + uint b"
    using assms by (intro uint_add_lem[THEN iffD1]) linarith
  show ?thesis
  proof (cases "M \<le> a + b")
    case True
    then have le: "uint M \<le> uint a + uint b" by (simp add: word_le_def s)
    have "uint (a + b - M) = uint a + uint b - uint M"
      using le s uint_sub_lem[of M "a + b"] by simp
    moreover have "(uint a + uint b - uint M) mod uint M = uint a + uint b - uint M"
      by (rule mod_pos_pos_trivial) (use assms le nonneg in linarith)+
    ultimately show ?thesis using True by (simp add: add_mod_def Let_def)
  next
    case False
    then have "uint a + uint b < uint M" by (simp add: word_le_def s not_le)
    then show ?thesis using False s nonneg by (simp add: add_mod_def Let_def)
  qed
qed

lemma good_modulus_M:
  "good_modulus M1" "good_modulus M2" "good_modulus M3" "good_modulus M4"
  by (simp_all add: good_modulus_def M1_def M2_def M3_def M4_def)

section \<open>Tables\<close>

definition table_ok :: "'a::len word list \<Rightarrow> 'a word \<Rightarrow> bool" where
  "table_ok e M \<longleftrightarrow> length e = 10 * K \<and>
     (\<forall>i < K. \<forall>j < 10. uint (e ! (i * 10 + j)) = (int j * 10 ^ (K - 1 - i)) mod uint M)"

lemma table_row_index: "i < k \<Longrightarrow> j < 10 \<Longrightarrow> i * 10 + j < 10 * (k::nat)"
  by simp

lemma init_e_row_correct:
  fixes M :: "'a::len word"
  assumes M: "good_modulus M" and len: "length e = 10 * K" and i: "i < K"
    and cur: "uint cur = c mod uint M"
  shows "\<exists>cur' e'. init_e_row M i (cur, e) = Some (cur', e') \<and> uint cur' = (10 * c) mod uint M \<and>
    length e' = 10 * K \<and>
    (\<forall>k. k < i * 10 \<or> i * 10 + 10 \<le> k \<longrightarrow> e' ! k = e ! k) \<and>
    (\<forall>j < 10. uint (e' ! (i * 10 + j)) = (int j * c) mod uint M)"
proof -
  let ?P = "\<lambda>j (tmp :: 'a word, e' :: 'a word list). uint tmp = (int j * c) mod uint M \<and> length e' = 10 * K \<and>
    (\<forall>k. k < i * 10 \<or> i * 10 + 10 \<le> k \<longrightarrow> e' ! k = e ! k) \<and>
    (\<forall>l < j. uint (e' ! (i * 10 + l)) = (int l * c) mod uint M)"
  let ?f = "\<lambda>j (tmp, e). do { e \<leftarrow> wr e (i * 10 + j) tmp; Some (add_mod tmp cur M, e) }"
  have pos: "0 < uint M" and two: "2 * uint M \<le> 2 ^ LENGTH('a)"
    using M by (auto simp: good_modulus_def)
  have "\<exists>s'. for_opt ?f [0..<10] (0, e) = Some s' \<and> ?P 10 s'"
  proof (rule for_opt_upt_inv[where P = ?P])
    show "?P 0 (0, e)" by (simp add: len)
    fix j :: nat and s :: "'a word \<times> 'a word list" assume "j < 10" and P: "?P j s"
    obtain tmp e' where s: "s = (tmp, e')" by (cases s)
    have idx: "i * 10 + j < length e'"
      using P i \<open>j < 10\<close> by (simp add: s)
    have add: "uint (add_mod tmp cur M) = (int (Suc j) * c) mod uint M"
      using P pos two cur
      by (simp add: s add_mod_correct mod_add_eq distrib_right algebra_simps)
    show "\<exists>s'. ?f j s = Some s' \<and> ?P (Suc j) s'"
      using P idx add \<open>j < 10\<close>
      by (auto simp: s opt_simps nth_list_update less_Suc_eq)
  qed simp
  then show ?thesis by (auto simp: init_e_row_def)
qed

lemma init_e_correct:
  fixes M :: "'a::len word"
  assumes M: "good_modulus M" and len: "length e = 10 * K"
  obtains e' where "init_e M e = Some e'" "table_ok e' M"
proof -
  let ?P = "\<lambda>n (cur :: 'a word, e' :: 'a word list). uint cur = 10 ^ (K - n) mod uint M \<and> length e' = 10 * K \<and>
    (\<forall>i. n \<le> i \<and> i < K \<longrightarrow> (\<forall>j < 10. uint (e' ! (i * 10 + j)) = (int j * 10 ^ (K - 1 - i)) mod uint M))"
  have big: "233333333 < uint M" using M by (simp add: good_modulus_def)
  have "\<exists>s'. for_opt (init_e_row M) (rev [0..<K]) (1, e) = Some s' \<and> ?P 0 s'"
  proof (rule for_opt_downto_inv[where P = ?P])
    show "?P K (1, e)" using big len by simp
    fix i and s :: "'a word \<times> 'a word list" assume i: "i < K" and P: "?P (Suc i) s"
    obtain cur e0 where s: "s = (cur, e0)" by (cases s)
    obtain cur' e' where row: "init_e_row M i (cur, e0) = Some (cur', e')"
      and cur': "uint cur' = (10 * 10 ^ (K - Suc i)) mod uint M" and l': "length e' = 10 * K"
      and frame: "\<forall>k. k < i * 10 \<or> i * 10 + 10 \<le> k \<longrightarrow> e' ! k = e0 ! k"
      and vals: "\<forall>j < 10. uint (e' ! (i * 10 + j)) = (int j * 10 ^ (K - Suc i)) mod uint M"
      using init_e_row_correct[OF M _ i, of e0 cur "10 ^ (K - Suc i)"] P by (auto simp: s)
    have "uint (e' ! (k * 10 + j)) = (int j * 10 ^ (K - 1 - k)) mod uint M"
      if "i \<le> k" "k < K" "j < 10" for k j
    proof (cases "k = i")
      case True
      then show ?thesis using vals that by simp
    next
      case False
      with that have "e' ! (k * 10 + j) = e0 ! (k * 10 + j)"
        using frame[rule_format, of "k * 10 + j"] by auto
      with False that P show ?thesis by (simp add: s)
    qed
    moreover have "uint cur' = 10 ^ (K - i) mod uint M"
      using cur' i by (simp add: Suc_diff_Suc flip: power_Suc)
    ultimately show "\<exists>s'. init_e_row M i s = Some s' \<and> ?P i s'"
      using row l' by (auto simp: s)
  qed
  then show ?thesis
    using that by (auto simp: init_e_def table_ok_def)
qed

lemma table_ok_lookup:
  assumes "table_ok e M" "i < K" "0 \<le> d" "d \<le> 9"
  shows "\<exists>x. rd_int e (int i * 10 + d) = Some x \<and> uint x = (d * 10 ^ (K - 1 - i)) mod uint M"
proof -
  define j where "j = nat d"
  have j: "d = int j" "j < 10" using assms by (auto simp: j_def)
  have "nat (int i * 10 + int j) = i * 10 + j" by (simp add: nat_add_distrib nat_mult_distrib)
  then show ?thesis
    using assms j table_row_index[of i K j]
    by (auto simp: rd_int_def rd_def table_ok_def)
qed

section \<open>Prefix sums\<close>

definition psum :: "int list \<Rightarrow> nat \<Rightarrow> int" where
  "psum ds t = 233333333 + (\<Sum>u < t. ds ! u * 10 ^ (K - 1 - u))"

text \<open>The key under which position \<open>t\<close> is stored: the reduced prefix sum, cut to 64 bits.\<close>

definition keyf :: "'a::len word \<Rightarrow> int \<Rightarrow> u64" where
  "keyf M x = ucast (word_of_int (x mod uint M) :: 'a word)"

definition entries :: "'a::len word \<Rightarrow> int list \<Rightarrow> nat \<Rightarrow> (u64 \<times> nat) list" where
  "entries M ds n = map (\<lambda>t. (keyf M (psum ds (Suc t)), t)) [0..<n]"

lemma keyf_uint: "uint (s :: 'a::len word) = x mod uint (M :: 'a word) \<Longrightarrow> ucast s = keyf M x"
  unfolding keyf_def by (metis word_of_int_uint)

lemma psum_Suc: "psum ds (Suc t) = psum ds t + ds ! t * 10 ^ (K - 1 - t)"
  by (simp add: psum_def)

lemma add_mod_psum:
  fixes M :: "'a::len word"
  assumes "good_modulus M" "uint s = psum ds t mod uint M"
    and "uint x = (ds ! t * 10 ^ (K - 1 - t)) mod uint M"
  shows "uint (add_mod s x M) = psum ds (Suc t) mod uint M"
proof -
  have "0 < uint M" using assms by (simp add: good_modulus_def)
  then show ?thesis
    using assms by (simp add: add_mod_correct good_modulus_def psum_Suc mod_add_eq)
qed

section \<open>Windows\<close>

definition window :: "int list \<Rightarrow> nat \<Rightarrow> nat \<Rightarrow> int list" where
  "window ds v q = take (q - v) (drop (Suc v) ds)"

definition digval :: "int list \<Rightarrow> int" where
  "digval ds = foldl (\<lambda>a d. 10 * a + d) 0 ds"

lemma digval_snoc: "digval (ds @ [d]) = 10 * digval ds + d"
  by (simp add: digval_def)

lemma window_Suc:
  "v \<le> q \<Longrightarrow> Suc q < length ds \<Longrightarrow> window ds v (Suc q) = window ds v q @ [ds ! Suc q]"
  by (simp add: window_def Suc_diff_le take_Suc_conv_app_nth)

lemma horner_step: "a * (10 * p) + b * p = (10 * a + b) * (p :: int)"
  by (simp add: algebra_simps)

lemma psum_window:
  assumes "v \<le> q" "q < K" "q < length ds"
  shows "psum ds (Suc q) - psum ds (Suc v) = digval (window ds v q) * 10 ^ (K - 1 - q)"
  using assms(1)
proof (induction rule: dec_induct)
  case base
  show ?case by (simp add: window_def digval_def)
next
  case (step n)
  have n: "v \<le> n" "Suc n < K" "Suc n < length ds" using step assms(2,3) by auto
  have pw: "(10::int) ^ (K - 1 - n) = 10 * 10 ^ (K - 1 - Suc n)"
    using n by (simp add: Suc_diff_Suc flip: power_Suc)
  have "psum ds (Suc (Suc n)) - psum ds (Suc v) =
      digval (window ds v n) * 10 ^ (K - 1 - n) + ds ! Suc n * 10 ^ (K - 1 - Suc n)"
    using step.IH by (simp add: psum_Suc[of ds "Suc n"])
  also have "\<dots> = (10 * digval (window ds v n) + ds ! Suc n) * 10 ^ (K - 1 - Suc n)"
    unfolding pw by (rule horner_step)
  also have "\<dots> = digval (window ds v (Suc n)) * 10 ^ (K - 1 - Suc n)"
    using n by (simp add: window_Suc digval_snoc)
  finally show ?case .
qed

lemma keyf_eq_iff:
  fixes M :: "'a::len word"
  assumes "uint M \<le> 2 ^ 64" "0 < uint M"
  shows "keyf M x = keyf M y \<longleftrightarrow> x mod uint M = y mod uint M"
proof
  have red: "uint (word_of_int (z mod uint M) :: 'a word) = z mod uint M" for z
  proof -
    have "z mod uint M < 2 ^ LENGTH('a)"
      using assms pos_mod_bound[of "uint M" z] uint_lt2p[of M] by linarith
    then show ?thesis using assms by (simp add: uint_word_of_int_eq take_bit_int_eq_self)
  qed
  have cut: "uint (ucast w :: u64) = uint w" if "uint w < 2 ^ 64" for w :: "'a word"
    using that by (simp add: unsigned_ucast_eq take_bit_int_eq_self)
  assume "keyf M x = keyf M y"
  then have "uint (keyf M x) = uint (keyf M y)" by simp
  moreover have "z mod uint M < 2 ^ 64" for z
    using assms pos_mod_bound[of "uint M" z] by linarith
  ultimately show "x mod uint M = y mod uint M" by (simp add: keyf_def cut red)
qed (simp add: keyf_def)

text \<open>The central fact: two positions carry equal keys exactly when the window between them,
  followed by the zeros that fill it up to the end of the buffer, is a multiple of \<open>M\<close>.\<close>

lemma keyf_window:
  fixes M :: "'a::len word"
  assumes "uint M \<le> 2 ^ 64" "0 < uint M" "v \<le> q" "q < K" "q < length ds"
  shows "keyf M (psum ds (Suc v)) = keyf M (psum ds (Suc q)) \<longleftrightarrow>
    uint M dvd digval (window ds v q) * 10 ^ (K - 1 - q)"
  unfolding keyf_eq_iff[OF assms(1,2)] psum_window[OF assms(3-5), symmetric]
  by (metis mod_eq_dvd_iff)

lemma keyf_window_dvd:
  fixes M :: "'a::len word"
  assumes "uint M dvd digval (window ds v q)" "v \<le> q" "q < K" "q < length ds"
  shows "keyf M (psum ds (Suc v)) = keyf M (psum ds (Suc q))"
proof -
  have "uint M dvd psum ds (Suc q) - psum ds (Suc v)"
    using assms by (simp add: psum_window)
  then have "psum ds (Suc q) mod uint M = psum ds (Suc v) mod uint M"
    by (simp add: mod_eq_dvd_iff)
  then show ?thesis by (simp add: keyf_def)
qed

end
