(* ===== verification/Solver_Correct.thy ===== *)
theory Solver_Correct
  imports Solver_Tables
begin

text \<open>
  Correctness of the solver's operations. A state is \<open>ready\<close> when its tables, sums and hash
  tables describe its first 256 digits; \<open>solver_init\<close> and \<open>prepare\<close> establish this, and on a
  ready state \<open>recv_input\<close> submits exactly the matching windows that end in the new digits.
\<close>

section \<open>Submissions\<close>

definition min_len :: "nat \<Rightarrow> nat" where
  "min_len m = (if m = 1 then 14 else if m = 2 then 27 else if m = 3 then 54
     else if m = 4 then 68 else 0)"

definition reportable :: "nat \<Rightarrow> int list \<Rightarrow> bool" where
  "reportable m w \<longleftrightarrow> w \<noteq> [] \<and> hd w \<noteq> 0 \<and> min_len m \<le> length w"

text \<open>The request of a window: the header announces the length of the body, the body is the
  window in ASCII.\<close>

definition http_message :: "int list \<Rightarrow> bytes" where
  "http_message w = bytes_of_string (header_format (length w)) @ map digit_char w"

definition note_stat :: "rat \<Rightarrow> nat \<Rightarrow> nat \<Rightarrow> Reporter \<Rightarrow> Reporter" where
  "note_stat lat nd m r =
     (if n_stats r \<ge> MAX_N_STATS then r
      else r\<lparr>r_stats := (r_stats r)[n_stats r := \<lparr>local_latency = lat, n_digits = nd, m_number = m\<rparr>],
             n_stats := n_stats r + 1\<rparr>)"

definition submit :: "nat \<Rightarrow> int list \<Rightarrow> Reporter \<Rightarrow> Reporter" where
  "submit m w r = (if reportable m w then
     (let now = rdtsc_now r; r = r\<lparr>last_send_tsc := now, r_reads := r_reads r + 1\<rparr>;
          r = note_stat (of_nat (unat (now - last_recv_tsc r)) / of_nat (unat (tsc_freq_us r)))
                (length w) m r
      in r\<lparr>r_sent := r_sent r @ [http_message w]\<rparr>)
     else r)"

definition rep_wf :: "Reporter \<Rightarrow> bool" where
  "rep_wf r \<longleftrightarrow> length (r_stats r) = MAX_N_STATS \<and> n_stats r \<le> MAX_N_STATS"

lemma rep_wf_note_stat: "rep_wf r \<Longrightarrow> rep_wf (note_stat lat nd m r)"
  by (auto simp: rep_wf_def note_stat_def)

lemma rep_wf_submit: "rep_wf r \<Longrightarrow> rep_wf (submit m w r)"
  using rep_wf_note_stat by (auto simp: submit_def Let_def rep_wf_def)

lemma rep_wf_fold_submit: "rep_wf r \<Longrightarrow> rep_wf (fold (\<lambda>(m, w). submit m w) xs r)"
  by (induction xs arbitrary: r) (auto simp: rep_wf_submit)

lemma add_stat_wf: "rep_wf r \<Longrightarrow> add_stat lat nd m r = Some (note_stat lat nd m r)"
  by (auto simp: add_stat_def note_stat_def rep_wf_def opt_simps)

lemma length_header_format: "n < 1000 \<Longrightarrow> length (header_format n) \<le> 170"
  using length_dec_nat_le[of n 3] by (simp add: header_format_def crlf_def)

lemma report_string_wf:
  assumes "rep_wf r" "length str \<le> N"
  shows "report_string str m r =
    send_request (bytes_of_string (header_format (length str)) @ str) (length str) m r"
proof -
  let ?h = "bytes_of_string (header_format (length str))"
  have hdr: "length ?h \<le> 170"
    using length_header_format[of "length str"] assms by (simp add: N_def)
  have b1: "wr_range (replicate 1024 0) 0 (?h @ [0]) = Some (blit (replicate 1024 0) 0 (?h @ [0]))"
    using hdr by (simp add: opt_simps)
  have len1: "length (blit (replicate 1024 (0::u8)) 0 (?h @ [0])) = 1024"
    using hdr by simp
  have "take (length ?h + length str) (blit (blit (replicate 1024 0) 0 (?h @ [0])) (length ?h) str)
      = ?h @ str"
    using hdr assms len1 by (simp add: blit_def N_def)
  then show ?thesis
    using hdr assms len1 by (simp add: report_string_def Let_def b1 wr_range_def rd_range_def N_def)
qed

lemma report_digits_submit:
  assumes "rep_wf r" "off + len \<le> length ds" "0 < len" "len \<le> N"
  shows "report_digits ds off len m r = Some (submit m (take len (drop off ds)) r)"
proof -
  let ?w = "take len (drop off ds)"
  have d0: "rd ds off = Some (hd ?w)" "?w \<noteq> []" "length ?w = len"
    using assms by (auto simp: rd_def hd_drop_conv_nth)
  have lenr: "length (r_stats r) = MAX_N_STATS" using assms by (simp add: rep_wf_def)
  show ?thesis
  proof (cases "reportable m ?w")
    case False
    then have "hd ?w = 0 \<or> len < min_len m" using d0 by (auto simp: reportable_def)
    then show ?thesis
      using False d0 by (auto simp: report_digits_def submit_def min_len_def split: if_splits)
  next
    case True
    have src: "rd_range ds off len = Some ?w" using assms by (simp add: opt_simps)
    have buf: "wr_range (replicate 1024 0) 0 (map digit_char ?w)
        = Some (blit (replicate 1024 0) 0 (map digit_char ?w))"
      using assms by (simp add: opt_simps N_def)
    have str: "rd_range (blit (replicate 1024 0) 0 (map digit_char ?w)) 0 len
        = Some (map digit_char ?w)"
      using assms by (simp add: rd_range_def blit_def N_def)
    have body: "report_digits ds off len m r = report_string (map digit_char ?w) m r"
      using True d0
      by (auto simp: report_digits_def src buf str reportable_def min_len_def)
    also have "\<dots> = Some (submit m ?w r)"
      using True assms d0(3)
      by (simp add: report_string_wf send_request_def submit_def http_message_def Let_def
          add_stat_wf rep_wf_def)
    finally show ?thesis .
  qed
qed

section \<open>Adding digits\<close>

text \<open>Positions \<open>v\<close> whose prefix key equals that of \<open>q\<close>, from the nearest to the farthest: the
  windows that the query at position \<open>q\<close> reports.\<close>

definition partners :: "'a::len word \<Rightarrow> int list \<Rightarrow> nat \<Rightarrow> nat list" where
  "partners M ds q = filter (\<lambda>v. q - v \<le> N \<and>
     keyf M (psum ds (Suc v)) = keyf M (psum ds (Suc q))) (rev [0..<q])"

definition windows :: "'a::len word \<Rightarrow> nat \<Rightarrow> int list \<Rightarrow> nat \<Rightarrow> (nat \<times> int list) list" where
  "windows M m ds len = [(m, window ds v q). q \<leftarrow> [N..<N + len], v \<leftarrow> partners M ds q]"

lemma hits_entries:
  assumes "q < 2 ^ 32"
  shows "hits (entries M ds q) (keyf M (psum ds (Suc q))) (of_nat q) = partners M ds q"
proof -
  have sub: "of_nat q - of_nat v \<le> (of_nat N :: u32) \<longleftrightarrow> q - v \<le> N" if "v < q" for v
  proof -
    have "unat (of_nat q - of_nat v :: u32) = q - v"
      using that assms unat_of_nat_lt[of "q - v", where 'a = 32] by (simp flip: of_nat_diff)
    moreover have "unat (of_nat N :: u32) = N" by (simp add: N_def)
    ultimately show ?thesis by (simp add: word_le_nat_alt)
  qed
  have "filter (\<lambda>(k, v). k = key \<and> \<not> of_nat q - of_nat v > (of_nat N :: u32))
      (map (\<lambda>t. (f t, t)) (rev [0..<q])) =
    map (\<lambda>t. (f t, t)) (filter (\<lambda>v. q - v \<le> N \<and> f v = key) (rev [0..<q]))" for f and key :: u64
    by (auto simp: filter_map comp_def sub not_less intro!: arg_cong[where f = "map _"] filter_cong)
  then show ?thesis
    by (simp add: hits_def entries_def partners_def rev_map comp_def)
qed

lemma entries_Suc: "entries M ds (Suc n) = entries M ds n @ [(keyf M (psum ds (Suc n)), n)]"
  by (simp add: entries_def)

definition digits_ok :: "int list \<Rightarrow> nat \<Rightarrow> bool" where
  "digits_ok ds n \<longleftrightarrow> length ds = K \<and> (\<forall>i < n. 0 \<le> ds ! i \<and> ds ! i \<le> 9)"

text \<open>What the sum and the hash table of one modulus say after \<open>n\<close> digits.\<close>

definition tracked :: "'a::len word \<Rightarrow> int list \<Rightarrow> nat \<Rightarrow> 'a word \<Rightarrow> Hash \<Rightarrow> bool" where
  "tracked M ds n s h \<longleftrightarrow> uint s = psum ds n mod uint M \<and> hash_wf h (entries M ds n)"

lemma tracked_step:
  fixes M :: "'a::len word"
  assumes M: "good_modulus M" and e: "table_ok e M" and tr: "tracked M ds n s h"
    and ds: "digits_ok ds (Suc n)" and n: "n < K"
  obtains d x h' where "rd ds n = Some d" "rd_int e (int n * 10 + d) = Some x"
    "hash_insert (ucast (add_mod s x M)) (of_nat n) h = Some h'"
    "ucast (add_mod s x M) = keyf M (psum ds (Suc n))"
    "tracked M ds (Suc n) (add_mod s x M) h'"
proof -
  have d: "rd ds n = Some (ds ! n)" "0 \<le> ds ! n" "ds ! n \<le> 9"
    using ds n by (auto simp: digits_ok_def opt_simps)
  obtain x where x: "rd_int e (int n * 10 + ds ! n) = Some x"
    "uint x = (ds ! n * 10 ^ (K - 1 - n)) mod uint M"
    using table_ok_lookup[OF e n d(2,3)] by blast
  have sum': "uint (add_mod s x M) = psum ds (Suc n) mod uint M"
    using add_mod_psum[OF M _ x(2)] tr by (simp add: tracked_def)
  have key: "ucast (add_mod s x M) = keyf M (psum ds (Suc n))"
    by (rule keyf_uint[OF sum'])
  have wf: "hash_wf h (entries M ds n)" using tr by (simp add: tracked_def)
  have un: "unat (of_nat n :: u32) = n"
    using n by (intro unat_of_nat_lt) (simp add: N_def MAX_BATCH_SIZE_def)
  obtain h' where h': "hash_insert (ucast (add_mod s x M)) (of_nat n) h = Some h'"
    "hash_wf h' (entries M ds n @ [(ucast (add_mod s x M), unat (of_nat n :: u32))])"
    using hash_insert_wf[OF wf, of "of_nat n" "ucast (add_mod s x M)"] n un
    by (auto simp: entries_def N_def MAX_BATCH_SIZE_def)
  have "tracked M ds (Suc n) (add_mod s x M) h'"
    using h'(2) sum' key un by (simp add: tracked_def entries_Suc)
  with d(1) x(1) h'(1) key that show ?thesis by blast
qed

lemma query_all_submit:
  fixes M :: "'a::len word"
  assumes wf: "hash_wf h (entries M ds q)" and r: "rep_wf r" and ds: "length ds = K" and q: "q < K"
  shows "query_all h (\<lambda>v. report_digits ds (unat v + 1) (unat (of_nat q - v)) m)
      (keyf M (psum ds (Suc q))) (of_nat q) r =
    Some (fold (\<lambda>v. submit m (window ds v q)) (partners M ds q) r)"
proof -
  have q32: "q < 2 ^ 32" using q by (simp add: N_def MAX_BATCH_SIZE_def)
  have rep: "report_digits ds (unat (of_nat v :: u32) + 1) (unat (of_nat q - of_nat v :: u32)) m r =
      Some (submit m (window ds v q) r)"
    if v: "v < q" "q - v \<le> N" and r: "rep_wf r" for v r
  proof -
    have "unat (of_nat v :: u32) = v" using v q32 by (intro unat_of_nat_lt) simp
    moreover have "unat (of_nat q - of_nat v :: u32) = q - v"
      using v q32 unat_of_nat_lt[of "q - v", where 'a = 32] by (simp flip: of_nat_diff)
    ultimately show ?thesis
      using report_digits_submit[OF r, of "Suc v" "q - v" ds m] v q ds by (simp add: window_def)
  qed
  have "for_opt (\<lambda>v :: u32. report_digits ds (unat v + 1) (unat (of_nat q - v)) m) (map of_nat vs) r =
      Some (fold (\<lambda>v. submit m (window ds v q)) vs r)"
    if "\<forall>v \<in> set vs. v < q \<and> q - v \<le> N" "rep_wf r" for vs r
    using that
  proof (induction vs arbitrary: r)
    case (Cons v vs)
    then show ?case using rep[of v r] rep_wf_submit[of r] by simp
  qed simp
  then show ?thesis
    unfolding query_all_hits[OF wf] hits_entries[OF q32]
    using r by (auto simp: partners_def)
qed

lemma do_add_digits_windows:
  fixes M :: "'a::len word"
  assumes M: "good_modulus M" and e: "table_ok e M" and tr: "tracked M ds N s h"
    and ds: "digits_ok ds (N + len)" and len: "len \<le> MAX_BATCH_SIZE" and r: "rep_wf r"
  shows "\<exists>h' es. do_add_digits ds len s e M m h r =
      Some (h', fold (\<lambda>(m, w). submit m w) (windows M m ds len) r) \<and> hash_wf h' es"
proof -
  let ?P = "\<lambda>i (s' :: 'a word, h', r'). tracked M ds (N + i) s' h' \<and>
    r' = fold (\<lambda>(m, w). submit m w) (windows M m ds i) r"
  have "\<exists>st. for_opt (add_digit_step ds e M m) [0..<len] (s, h, r) = Some st \<and> ?P len st"
  proof (rule for_opt_upt_inv[where P = ?P])
    show "?P 0 (s, h, r)" using tr by (simp add: windows_def)
    fix i and st :: "'a word \<times> Hash \<times> Reporter" assume i: "i < len" and P: "?P i st"
    obtain s' h' r' where st: "st = (s', h', r')" by (cases st)
    have n: "N + i < K" using i len by simp
    have ds': "digits_ok ds (Suc (N + i))" using ds i by (auto simp: digits_ok_def)
    have r': "rep_wf r'" using P st rep_wf_fold_submit[OF r] by simp
    have wf: "hash_wf h' (entries M ds (N + i))" using P by (simp add: st tracked_def)
    obtain d x h'' where step: "rd ds (N + i) = Some d" "rd_int e (int (N + i) * 10 + d) = Some x"
      "hash_insert (ucast (add_mod s' x M)) (of_nat (N + i)) h' = Some h''"
      "ucast (add_mod s' x M) = keyf M (psum ds (Suc (N + i)))"
      "tracked M ds (Suc (N + i)) (add_mod s' x M) h''"
      using tracked_step[OF M e _ ds' n, of s' h'] P by (auto simp: st)
    have q: "query_all h' (\<lambda>v. report_digits ds (unat v + 1) (unat (of_nat (N + i) - v)) m)
        (keyf M (psum ds (Suc (N + i)))) (of_nat (N + i)) r' =
      Some (fold (\<lambda>v. submit m (window ds v (N + i))) (partners M ds (N + i)) r')"
      using query_all_submit[OF wf r' _ n] ds by (simp add: digits_ok_def)
    have "windows M m ds (Suc i) = windows M m ds i @ map (\<lambda>v. (m, window ds v (N + i))) (partners M ds (N + i))"
      by (simp add: windows_def)
    then show "\<exists>st'. add_digit_step ds e M m i st = Some st' \<and> ?P (Suc i) st'"
      using step q P by (simp add: add_digit_step_def st Let_def fold_map comp_def)
  qed simp
  then show ?thesis by (auto simp: do_add_digits_def tracked_def)
qed

section \<open>Preparing\<close>

lemma do_prepare_digits_tracked:
  fixes M :: "'a::len word"
  assumes M: "good_modulus M" and e: "table_ok e M" and h: "hash_wf h es" and ds: "digits_ok ds N"
  obtains s' h' where "do_prepare_digits ds e M h = Some (s', h')" "tracked M ds N s' h'"
proof -
  let ?f = "\<lambda>i (sum, h). do {
       d \<leftarrow> rd ds i;
       x \<leftarrow> rd_int e (int i * 10 + d);
       let sum = add_mod sum x M;
       h \<leftarrow> hash_insert (ucast sum) (of_nat i) h;
       Some (sum, h)
     }"
  let ?P = "\<lambda>i (s' :: 'a word, h'). tracked M ds i s' h'"
  have start: "tracked M ds 0 233333333 (hash_clear h)"
  proof -
    have M': "233333333 < uint M" "uint M < 2 ^ LENGTH('a)"
      using M uint_lt2p[of M] by (auto simp: good_modulus_def)
    then have "233333333 < (2 :: int) ^ LENGTH('a)" by (rule less_trans)
    then have "take_bit LENGTH('a) (233333333 :: int) = 233333333"
      by (intro take_bit_int_eq_self) auto
    with M' show ?thesis
      using hash_wf_clear[OF h] by (simp add: tracked_def psum_def entries_def)
  qed
  have "\<exists>st. for_opt ?f [0..<N] (233333333, hash_clear h) = Some st \<and> ?P N st"
  proof (rule for_opt_upt_inv[where P = ?P])
    show "?P 0 (233333333, hash_clear h)" using start by simp
    fix i and st :: "'a word \<times> Hash" assume i: "i < N" and P: "?P i st"
    obtain s' h' where st: "st = (s', h')" by (cases st)
    have ds': "digits_ok ds (Suc i)" using ds i by (auto simp: digits_ok_def)
    from i have "i < K" by simp
    from tracked_step[OF M e _ ds' this, of s' h'] P
    show "\<exists>st'. ?f i st = Some st' \<and> ?P (Suc i) st'"
      by (fastforce simp: st Let_def)
  qed simp
  then show ?thesis using that by (auto simp: do_prepare_digits_def)
qed

text \<open>What holds between the calls of the solver's interface from \<open>solver_init\<close> on, and what
  \<open>prepare\<close> adds to it.\<close>

definition solver_base :: "Solver \<Rightarrow> bool" where
  "solver_base s \<longleftrightarrow> digits_ok (digits s) N \<and> rep_wf (reporter s) \<and>
     table_ok (e1 s) M1 \<and> table_ok (e2 s) M2 \<and> table_ok (e3 s) M3 \<and> table_ok (e4 s) M4 \<and>
     (\<exists>es. hash_wf (hash1 s) es) \<and> (\<exists>es. hash_wf (hash2 s) es) \<and>
     (\<exists>es. hash_wf (hash3 s) es) \<and> (\<exists>es. hash_wf (hash4 s) es)"

definition solver_ready :: "Solver \<Rightarrow> bool" where
  "solver_ready s \<longleftrightarrow> solver_base s \<and>
     tracked M1 (digits s) N (sum1 s) (hash1 s) \<and> tracked M2 (digits s) N (sum2 s) (hash2 s) \<and>
     tracked M3 (digits s) N (sum3 s) (hash3 s) \<and> tracked M4 (digits s) N (sum4 s) (hash4 s)"

lemma prepare_ready:
  assumes "solver_base s"
  obtains s' where "prepare s = Some s'" "solver_ready s'" "digits s' = digits s"
    "reporter s' = reporter s"
proof -
  note b = assms[unfolded solver_base_def]
  from b obtain s1 h1 where 1: "do_prepare_digits (digits s) (e1 s) M1 (hash1 s) = Some (s1, h1)"
    "tracked M1 (digits s) N s1 h1" by (metis do_prepare_digits_tracked good_modulus_M(1))
  from b obtain s2 h2 where 2: "do_prepare_digits (digits s) (e2 s) M2 (hash2 s) = Some (s2, h2)"
    "tracked M2 (digits s) N s2 h2" by (metis do_prepare_digits_tracked good_modulus_M(2))
  from b obtain s3 h3 where 3: "do_prepare_digits (digits s) (e3 s) M3 (hash3 s) = Some (s3, h3)"
    "tracked M3 (digits s) N s3 h3" by (metis do_prepare_digits_tracked good_modulus_M(3))
  from b obtain s4 h4 where 4: "do_prepare_digits (digits s) (e4 s) M4 (hash4 s) = Some (s4, h4)"
    "tracked M4 (digits s) N s4 h4" by (metis do_prepare_digits_tracked good_modulus_M(4))
  have "prepare s = Some (s\<lparr>sum1 := s1, hash1 := h1, sum2 := s2, hash2 := h2, sum3 := s3,
      hash3 := h3, sum4 := s4, hash4 := h4\<rparr>)"
    using 1 2 3 4 by (simp add: prepare_def)
  then show ?thesis
    by (rule that) (use b 1 2 3 4 in \<open>auto simp: solver_ready_def solver_base_def tracked_def\<close>)
qed

lemma init_digits:
  assumes "length ds = K"
  shows "\<exists>ds'. for_opt (\<lambda>i ds. wr ds i (9 :: int)) [0..<N] ds = Some ds' \<and>
    take N ds' = replicate N 9 \<and> digits_ok ds' N"
proof -
  let ?P = "\<lambda>n ds'. length ds' = K \<and> (\<forall>i < n. ds' ! i = 9)"
  have "\<exists>ds'. for_opt (\<lambda>i ds. wr ds i (9 :: int)) [0..<N] ds = Some ds' \<and> ?P N ds'"
    by (rule for_opt_upt_inv[where P = ?P])
      (auto simp: assms opt_simps nth_list_update less_Suc_eq)
  then show ?thesis
    by (auto simp: digits_ok_def list_eq_iff_nth_eq)
qed

lemma solver_init_ready:
  assumes len: "length (digits s) = K" "length (e1 s) = 10 * K" "length (e2 s) = 10 * K"
      "length (e3 s) = 10 * K" "length (e4 s) = 10 * K"
    and h: "hash_wf (hash1 s) es1" "hash_wf (hash2 s) es2" "hash_wf (hash3 s) es3" "hash_wf (hash4 s) es4"
    and r: "rep_wf (reporter s)"
  obtains s' where "solver_init f s = Some s'" "solver_ready s'"
    "take N (digits s') = replicate N 9" "r_sent (reporter s') = r_sent (reporter s)"
proof -
  obtain ds where ds: "for_opt (\<lambda>i ds. wr ds i 9) [0..<N] (digits s) = Some ds"
    "take N ds = replicate N 9" "digits_ok ds N" using init_digits[OF len(1)] by blast
  obtain x1 where x1: "init_e M1 (e1 s) = Some x1" "table_ok x1 M1"
    using init_e_correct[OF good_modulus_M(1) len(2)] by blast
  obtain x2 where x2: "init_e M2 (e2 s) = Some x2" "table_ok x2 M2"
    using init_e_correct[OF good_modulus_M(2) len(3)] by blast
  obtain x3 where x3: "init_e M3 (e3 s) = Some x3" "table_ok x3 M3"
    using init_e_correct[OF good_modulus_M(3) len(4)] by blast
  obtain x4 where x4: "init_e M4 (e4 s) = Some x4" "table_ok x4 M4"
    using init_e_correct[OF good_modulus_M(4) len(5)] by blast
  let ?s = "s\<lparr>reporter := (reporter s)\<lparr>tsc_freq_us := f div 1000000\<rparr>, digits := ds,
    e1 := x1, e2 := x2, e3 := x3, e4 := x4\<rparr>"
  have "solver_base ?s"
    using ds x1 x2 x3 x4 h r by (auto simp: solver_base_def rep_wf_def)
  then obtain s' where s': "prepare ?s = Some s'" "solver_ready s'" "digits s' = digits ?s"
    "reporter s' = reporter ?s" by (rule prepare_ready)
  have "solver_init f s = Some s'"
    using ds x1 x2 x3 x4 s' by (simp add: solver_init_def c_assert_def N_def)
  with s' ds that show ?thesis by simp
qed

end
