(* ===== verification/Solver_Stream.thy ===== *)
theory Solver_Stream
  imports Solver_Correct
begin

text \<open>
  What the solver promises to its client, over the digit stream: the windows that a call of
  \<open>recv_input\<close> submits are described by divisibility, and over a whole session the submissions
  are exactly the matching substrings of the stream.
\<close>

section \<open>Matches as divisibility\<close>

text \<open>The window between the positions \<open>v\<close> and \<open>q\<close> of the stream \<open>w\<close> matches modulus number \<open>m\<close>.
  \<open>M3\<close> and \<open>M4\<close> are coprime to 10. \<open>M1\<close> is even, so the fill-up with zeros makes the test one
  for \<open>M1 / 2\<close> unless the window ends in the last cell of the buffer. The keys of \<open>M2\<close> are cut to
  64 bits.\<close>

definition is_hit :: "nat \<Rightarrow> int list \<Rightarrow> nat \<Rightarrow> nat \<Rightarrow> bool" where
  "is_hit m w v q \<longleftrightarrow>
    (let x = digval (window w v q); M = 104648257118348370704723401 in
     if m = 1 then 149618273 dvd x \<and> (q = K - 1 \<longrightarrow> 2 dvd x)
     else if m = 2 then psum w (Suc v) mod M mod 2 ^ 64 = psum w (Suc q) mod M mod 2 ^ 64
     else if m = 3 then 500000000000000243 dvd x
     else 387420489 dvd x)"

definition found :: "nat \<Rightarrow> int list \<Rightarrow> (nat \<times> int list) list" where
  "found m w = [(m, window w v q). q \<leftarrow> [N..<length w], v \<leftarrow> filter (\<lambda>v. is_hit m w v q) (rev [q - N..<q])]"

text \<open>The order of the submissions: modulus by modulus, the new digits from left to right, and for
  each of them the shortest window first.\<close>

definition all_found :: "int list \<Rightarrow> (nat \<times> int list) list" where
  "all_found w = found 1 w @ found 4 w @ found 3 w @ found 2 w"

definition submissions :: "int list \<Rightarrow> int list list" where
  "submissions w = map snd (filter (\<lambda>(m, x). reportable m x) (all_found w))"

lemma coprime_pow_10:
  "coprime (500000000000000243 :: int) (10 ^ k)" "coprime (387420489 :: int) (10 ^ k)"
  "coprime (149618273 :: int) (10 ^ k)"
proof -
  have "coprime (500000000000000243 :: int) 10" "coprime (387420489 :: int) 10"
    "coprime (149618273 :: int) 10" by code_simp+
  then show "coprime (500000000000000243 :: int) (10 ^ k)" "coprime (387420489 :: int) (10 ^ k)"
    "coprime (149618273 :: int) (10 ^ k)" by simp_all
qed

lemma M1_dvd: "(299236546 :: int) dvd x * 10 ^ k \<longleftrightarrow> 149618273 dvd x \<and> (k = 0 \<longrightarrow> 2 dvd x)"
proof -
  have c: "coprime (2 :: int) 149618273" by code_simp
  have "(299236546 :: int) dvd y \<longleftrightarrow> 2 dvd y \<and> 149618273 dvd y" for y
    using divides_mult[OF _ _ c, of y] by (auto elim: dvd_trans[rotated])
  moreover have "149618273 dvd x * 10 ^ k \<longleftrightarrow> 149618273 dvd x"
    by (rule coprime_dvd_mult_left_iff) (rule coprime_pow_10)
  moreover have "2 dvd x * 10 ^ k \<longleftrightarrow> (k = 0 \<longrightarrow> 2 dvd x)" by auto
  ultimately show ?thesis by blast
qed

lemma keyf_M2: "keyf M2 x = keyf M2 y \<longleftrightarrow>
  x mod 104648257118348370704723401 mod 2 ^ 64 = y mod 104648257118348370704723401 mod 2 ^ 64"
proof -
  have M: "uint M2 = 104648257118348370704723401" by (simp add: M2_def)
  have "uint (keyf M2 z) = z mod 104648257118348370704723401 mod 2 ^ 64" for z
  proof -
    have "0 \<le> z mod 104648257118348370704723401" "z mod 104648257118348370704723401 < 2 ^ 128"
      using pos_mod_bound[of 104648257118348370704723401 z] by auto
    then show ?thesis
      by (simp add: keyf_def M unsigned_ucast_eq uint_word_of_int_eq take_bit_int_eq_self)
        (simp add: take_bit_eq_mod)
  qed
  then show ?thesis by (metis word_eq_iff_unsigned)
qed

lemma is_hit_keyf:
  assumes "v \<le> q" "q < K" "q < length w"
  shows "keyf M1 (psum w (Suc v)) = keyf M1 (psum w (Suc q)) \<longleftrightarrow> is_hit 1 w v q"
    "keyf M2 (psum w (Suc v)) = keyf M2 (psum w (Suc q)) \<longleftrightarrow> is_hit 2 w v q"
    "keyf M3 (psum w (Suc v)) = keyf M3 (psum w (Suc q)) \<longleftrightarrow> is_hit 3 w v q"
    "keyf M4 (psum w (Suc v)) = keyf M4 (psum w (Suc q)) \<longleftrightarrow> is_hit 4 w v q"
proof -
  note kw = keyf_window[OF _ _ assms]
  have k0: "K - 1 - q = 0 \<longleftrightarrow> q = K - 1" using assms by auto
  have M: "uint M1 = 299236546" "uint M3 = 500000000000000243" "uint M4 = 387420489"
    by (simp_all add: M1_def M3_def M4_def)
  show "keyf M1 (psum w (Suc v)) = keyf M1 (psum w (Suc q)) \<longleftrightarrow> is_hit 1 w v q"
    using kw[of M1] M1_dvd[of "digval (window w v q)" "K - 1 - q"] k0
    by (simp add: is_hit_def M Let_def)
  show "keyf M2 (psum w (Suc v)) = keyf M2 (psum w (Suc q)) \<longleftrightarrow> is_hit 2 w v q"
    using keyf_M2 by (simp add: is_hit_def Let_def)
  show "keyf M3 (psum w (Suc v)) = keyf M3 (psum w (Suc q)) \<longleftrightarrow> is_hit 3 w v q"
    using kw[of M3] coprime_dvd_mult_left_iff[OF coprime_pow_10(1)]
    by (simp add: is_hit_def M Let_def)
  show "keyf M4 (psum w (Suc v)) = keyf M4 (psum w (Suc q)) \<longleftrightarrow> is_hit 4 w v q"
    using kw[of M4] coprime_dvd_mult_left_iff[OF coprime_pow_10(2)]
    by (simp add: is_hit_def M Let_def)
qed

lemma psum_take: "t \<le> n \<Longrightarrow> n \<le> length ds \<Longrightarrow> psum (take n ds) t = psum ds t"
  by (auto simp: psum_def intro!: sum.cong)

lemma window_take: "q < n \<Longrightarrow> window (take n ds) v q = window ds v q"
  by (cases "v \<le> q") (auto simp: window_def drop_take min_def)

lemma windows_found:
  assumes "N + len \<le> K" "length ds = K"
    and hit: "\<And>v q. v \<le> q \<Longrightarrow> q < K \<Longrightarrow> q < length (take (N + len) ds) \<Longrightarrow>
      keyf M (psum (take (N + len) ds) (Suc v)) = keyf M (psum (take (N + len) ds) (Suc q)) \<longleftrightarrow>
      is_hit m (take (N + len) ds) v q"
  shows "windows M m ds len = found m (take (N + len) ds)"
proof -
  let ?w = "take (N + len) ds"
  have "partners M ds q = filter (\<lambda>v. is_hit m ?w v q) (rev [q - N..<q])" if q: "q < N + len" for q
  proof -
    have "q - N \<le> q" by simp
    then have split: "[0..<q] = [0..<q - N] @ [q - N..<q]" by (metis le_add_diff_inverse upt_add_eq_append zero_le)
    have "keyf M (psum ds (Suc v)) = keyf M (psum ds (Suc q)) \<longleftrightarrow> is_hit m ?w v q" if "v < q" for v
      using hit[of v q] q assms that by (simp add: psum_take)
    then have near: "filter (\<lambda>v. q - v \<le> N \<and> keyf M (psum ds (Suc v)) = keyf M (psum ds (Suc q)))
        (rev [q - N..<q]) = filter (\<lambda>v. is_hit m ?w v q) (rev [q - N..<q])"
      by (intro filter_cong) auto
    have far: "filter (\<lambda>v. q - v \<le> N \<and> keyf M (psum ds (Suc v)) = keyf M (psum ds (Suc q)))
        (rev [0..<q - N]) = []"
      by (auto simp: filter_empty_conv)
    show ?thesis
      unfolding partners_def split rev_append filter_append near far by simp
  qed
  then show ?thesis
    using assms by (auto simp: windows_def found_def window_take cong: map_cong intro!: arg_cong[where f = concat])
qed

lemma r_sent_submit: "r_sent (submit m w r) = r_sent r @ (if reportable m w then [http_message w] else [])"
  by (simp add: submit_def note_stat_def Let_def)

lemma r_sent_fold_submit:
  "r_sent (fold (\<lambda>(m, w). submit m w) xs r) =
   r_sent r @ map (http_message \<circ> snd) (filter (\<lambda>(m, x). reportable m x) xs)"
  by (induction xs arbitrary: r) (auto simp: r_sent_submit)


section \<open>One call of recv\_input\<close>

definition digit_bytes :: "bytes \<Rightarrow> bool" where
  "digit_bytes buf \<longleftrightarrow> (\<forall>c \<in> set buf. 48 \<le> c \<and> c \<le> 57)"

lemma char_digit_range: "48 \<le> c \<Longrightarrow> c \<le> 57 \<Longrightarrow> 0 \<le> char_digit c \<and> char_digit c \<le> 9"
proof -
  assume c: "48 \<le> c" "c \<le> 57"
  then have u: "48 \<le> uint c" "uint c \<le> 57" by (simp_all add: word_le_def)
  then have "sint c = uint c"
    using signed_take_bit_int_eq_self[of 7 "uint c"] by (simp add: sint_uint)
  with u show ?thesis by (simp add: char_digit_def)
qed

lemma tracked_cong:
  assumes "\<And>i. i < n \<Longrightarrow> ds ! i = ds' ! i" "tracked M ds n x h"
  shows "tracked M ds' n x h"
proof -
  have ps: "psum ds t = psum ds' t" if "t \<le> n" for t
    using that assms(1) by (auto simp: psum_def intro!: sum.cong)
  then have "entries M ds n = entries M ds' n" by (auto simp: entries_def)
  with ps assms(2) show ?thesis by (simp add: tracked_def)
qed

lemma do_add_digits_found:
  fixes M :: "'a::len word"
  assumes "good_modulus M" "table_ok e M" "tracked M ds N x h"
    and "digits_ok ds (N + len)" "len \<le> MAX_BATCH_SIZE" "rep_wf r"
    and hit: "\<And>w v q. v \<le> q \<Longrightarrow> q < K \<Longrightarrow> q < length w \<Longrightarrow>
      keyf M (psum w (Suc v)) = keyf M (psum w (Suc q)) \<longleftrightarrow> is_hit m w v q"
  obtains h' es where "do_add_digits ds len x e M m h r =
      Some (h', fold (\<lambda>(m, w). submit m w) (found m (take (N + len) ds)) r)" "hash_wf h' es"
proof -
  have "length ds = K" using assms(4) by (simp add: digits_ok_def)
  with assms(5) have "windows M m ds len = found m (take (N + len) ds)"
    by (intro windows_found hit) auto
  with do_add_digits_windows[OF assms(1-6), of m] that show ?thesis by auto
qed

text \<open>The digits that the solver looks at: the last 256 ones and the new ones.\<close>

definition buffer_after :: "Solver \<Rightarrow> bytes \<Rightarrow> int list" where
  "buffer_after s buf = take N (digits s) @ map char_digit buf"

lemma add_digits_correct:
  assumes ready: "solver_ready s" and len: "length nd \<le> MAX_BATCH_SIZE"
    and nd: "\<forall>d \<in> set nd. 0 \<le> d \<and> d \<le> 9"
  obtains s' where "add_digits nd s = Some s'" "solver_base s'"
    "take N (digits s') = drop (length nd) (take N (digits s) @ nd)"
    "reporter s' = fold (\<lambda>(m, w). submit m w) (all_found (take N (digits s) @ nd)) (reporter s)"
proof -
  let ?F = "\<lambda>m. fold (\<lambda>(m, w). submit m w) (found m (take N (digits s) @ nd))"
  define ds where "ds = blit (digits s) N nd"
  have T: "tracked M1 (digits s) N (sum1 s) (hash1 s)" "tracked M2 (digits s) N (sum2 s) (hash2 s)"
    "tracked M3 (digits s) N (sum3 s) (hash3 s)" "tracked M4 (digits s) N (sum4 s) (hash4 s)"
    "table_ok (e1 s) M1" "table_ok (e2 s) M2" "table_ok (e3 s) M3" "table_ok (e4 s) M4"
    "rep_wf (reporter s)" and dok: "digits_ok (digits s) N"
    using ready by (simp_all add: solver_ready_def solver_base_def)
  have lenK: "length (digits s) = K" using dok by (simp add: digits_ok_def)
  have w: "take (N + length nd) ds = take N (digits s) @ nd"
    using lenK len by (simp add: ds_def blit_def)
  have wr: "wr_range (digits s) N nd = Some ds"
    using lenK len by (simp add: wr_range_in ds_def)
  have lends: "length ds = K" using lenK len by (simp add: ds_def)
  have nth: "ds ! i = (if i < N then digits s ! i else nd ! (i - N))" if "i < N + length nd" for i
    using that lenK len by (simp add: ds_def nth_blit)
  have ok: "digits_ok ds (N + length nd)"
    using dok lends nth nd by (auto simp: digits_ok_def)
  have tr: "tracked M ds N x h" if "tracked M (digits s) N x h" for M :: "'a::len word" and x h
    by (rule tracked_cong[OF _ that]) (simp add: nth)
  note run = do_add_digits_found[OF _ _ tr ok len _ is_hit_keyf(1)]
    do_add_digits_found[OF _ _ tr ok len _ is_hit_keyf(2)]
    do_add_digits_found[OF _ _ tr ok len _ is_hit_keyf(3)]
    do_add_digits_found[OF _ _ tr ok len _ is_hit_keyf(4)]
  define r1 r4 r3 where r: "r1 = ?F 1 (reporter s)" "r4 = ?F 4 r1" "r3 = ?F 3 r4"
  have rw: "rep_wf r1" "rep_wf r4" "rep_wf r3" by (simp_all add: r rep_wf_fold_submit T)
  obtain h1 es1 where 1: "hash_wf h1 es1"
    "do_add_digits ds (length nd) (sum1 s) (e1 s) M1 1 (hash1 s) (reporter s) = Some (h1, r1)"
    using run(1)[OF good_modulus_M(1) T(5) T(1) T(9)] unfolding w r by metis
  obtain h4 es4 where 4: "hash_wf h4 es4"
    "do_add_digits ds (length nd) (sum4 s) (e4 s) M4 4 (hash4 s) r1 = Some (h4, r4)"
    using run(4)[OF good_modulus_M(4) T(8) T(4) rw(1)] unfolding w r by metis
  obtain h3 es3 where 3: "hash_wf h3 es3"
    "do_add_digits ds (length nd) (sum3 s) (e3 s) M3 3 (hash3 s) r4 = Some (h3, r3)"
    using run(3)[OF good_modulus_M(3) T(7) T(3) rw(2)] unfolding w r by metis
  obtain h2 es2 where 2: "hash_wf h2 es2"
    "do_add_digits ds (length nd) (sum2 s) (e2 s) M2 2 (hash2 s) r3 = Some (h2, ?F 2 r3)"
    using run(2)[OF good_modulus_M(2) T(6) T(2) rw(3)] unfolding w by metis
  define ds' where "ds' = blit ds 0 (take N (drop (length nd) ds))"
  have mv: "rd_range ds (length nd) N = Some (take N (drop (length nd) ds))"
    "wr_range ds 0 (take N (drop (length nd) ds)) = Some ds'"
    using lends len by (simp_all add: opt_simps ds'_def)
  let ?s' = "s\<lparr>digits := ds', hash1 := h1, hash2 := h2, hash3 := h3, hash4 := h4, reporter := ?F 2 r3\<rparr>"
  have run: "add_digits nd s = Some ?s'"
    using 1 4 3 2 by (simp add: add_digits_def wr mv Let_def)
  have d': "take N ds' = drop (length nd) (take N (digits s) @ nd)"
    using lends len by (simp add: ds'_def blit_def take_drop flip: w)
  have "digits_ok ds' N"
    using ok lends len by (auto simp: digits_ok_def ds'_def nth_blit)
  then have "solver_base ?s'"
    using T(5-8) 1 2 3 4 rep_wf_fold_submit[OF rw(3)] by (auto simp: solver_base_def)
  with run d' that show ?thesis by (simp add: all_found_def r)
qed

lemma recv_input_correct:
  assumes ready: "solver_ready s" and buf: "digit_bytes buf" "1 \<le> length buf" "length buf \<le> MAX_BATCH_SIZE"
  obtains s' where "recv_input buf s = Some s'" "solver_base s'"
    "take N (digits s') = drop (length buf) (buffer_after s buf)"
    "reporter s' = fold (\<lambda>(m, w). submit m w) (all_found (buffer_after s buf))
      ((reporter s)\<lparr>last_recv_tsc := rdtsc_now (reporter s), r_reads := r_reads (reporter s) + 1\<rparr>)"
proof -
  let ?s = "s\<lparr>reporter := (reporter s)\<lparr>last_recv_tsc := rdtsc_now (reporter s),
    r_reads := r_reads (reporter s) + 1\<rparr>\<rparr>"
  have "solver_ready ?s"
    using ready by (simp add: solver_ready_def solver_base_def rep_wf_def)
  moreover have "length (map char_digit buf) \<le> MAX_BATCH_SIZE"
    "\<forall>d \<in> set (map char_digit buf). 0 \<le> d \<and> d \<le> 9"
    using buf char_digit_range by (auto simp: digit_bytes_def)
  ultimately obtain s' where s': "add_digits (map char_digit buf) ?s = Some s'" "solver_base s'"
    "take N (digits s') = drop (length (map char_digit buf)) (take N (digits ?s) @ map char_digit buf)"
    "reporter s' = fold (\<lambda>(m, w). submit m w) (all_found (take N (digits ?s) @ map char_digit buf)) (reporter ?s)"
    by (rule add_digits_correct)
  have "recv_input buf s = Some s'"
    using s'(1) buf by (simp add: recv_input_def c_assert_def)
  with s' that show ?thesis by (simp add: buffer_after_def)
qed

section \<open>Sessions\<close>

lemma reporter_print_stat_correct:
  assumes "rep_wf r"
  obtains r' where "reporter_print_stat r = Some r'" "rep_wf r'" "n_stats r' = 0" "r_sent r' = r_sent r"
    "n_total_stats r' = n_total_stats r + n_stats r" "length (r_printed r') = length (r_printed r) + n_stats r"
    "sum_latency r' = sum_latency r + sum_list (map local_latency (take (n_stats r) (r_stats r)))"
proof -
  let ?P = "\<lambda>i r'. r_stats r' = r_stats r \<and> n_stats r' = n_stats r \<and> r_sent r' = r_sent r \<and>
    n_total_stats r' = n_total_stats r + i \<and> length (r_printed r') = length (r_printed r) + i \<and>
    sum_latency r' = sum_latency r + sum_list (map local_latency (take i (r_stats r)))"
  let ?f = "\<lambda>i r. do {
         st \<leftarrow> rd (r_stats r) i;
         let s = sum_latency r + local_latency st;
         let n = n_total_stats r + 1;
         Some (r\<lparr>sum_latency := s, n_total_stats := n,
            r_printed := r_printed r @
              [(n, n_digits st, m_number st, local_latency st, s / of_nat n)]\<rparr>)
       }"
  have "\<exists>r'. for_opt ?f [0..<n_stats r] r = Some r' \<and> ?P (n_stats r) r'"
  proof (rule for_opt_upt_inv[where P = ?P])
    fix i r' assume "i < n_stats r" "?P i r'"
    moreover then have "i < length (r_stats r)" using assms by (simp add: rep_wf_def)
    ultimately show "\<exists>s'. ?f i r' = Some s' \<and> ?P (Suc i) s'"
      by (simp add: opt_simps Let_def take_Suc_conv_app_nth)
  qed simp_all
  then show ?thesis using assms that by (auto simp: reporter_print_stat_def rep_wf_def)
qed

lemma solver_print_stat_correct:
  assumes "solver_base s"
  obtains s' where "solver_print_stat s = Some s'" "solver_ready s'" "digits s' = digits s"
    "r_sent (reporter s') = r_sent (reporter s)" "n_stats (reporter s') = 0"
proof -
  have "rep_wf (reporter s)" using assms by (simp add: solver_base_def)
  then obtain r where r: "reporter_print_stat (reporter s) = Some r" "rep_wf r" "n_stats r = 0"
    "r_sent r = r_sent (reporter s)" by (rule reporter_print_stat_correct)
  have "solver_base (s\<lparr>reporter := r\<rparr>)" using assms r by (simp add: solver_base_def)
  then obtain s' where "prepare (s\<lparr>reporter := r\<rparr>) = Some s'" "solver_ready s'"
    "digits s' = digits s" "reporter s' = r" by (rule prepare_ready) simp_all
  with r that show ?thesis by (simp add: solver_print_stat_def)
qed

text \<open>The client's use of the solver: every received packet goes to \<open>recv_input\<close>, and
  \<open>print_stat\<close> follows before the next one.\<close>

definition solver_session :: "bytes list \<Rightarrow> Solver \<Rightarrow> Solver option" where
  "solver_session = for_opt (\<lambda>buf s. recv_input buf s \<bind> solver_print_stat)"

definition packet_ok :: "bytes \<Rightarrow> bool" where
  "packet_ok buf \<longleftrightarrow> digit_bytes buf \<and> 1 \<le> length buf \<and> length buf \<le> MAX_BATCH_SIZE"

text \<open>The submissions of a session that starts with the last digits \<open>h\<close>.\<close>

primrec stream_submissions :: "int list \<Rightarrow> bytes list \<Rightarrow> (nat \<times> int list) list" where
  "stream_submissions h [] = []"
| "stream_submissions h (p # ps) = (let w = h @ map char_digit p in
     filter (\<lambda>(m, x). reportable m x) (all_found w) @ stream_submissions (drop (length p) w) ps)"

definition stream_digits :: "bytes list \<Rightarrow> int list" where
  "stream_digits ps = map char_digit (concat ps)"

lemma stream_digits_simps [simp]:
  "stream_digits [] = []" "stream_digits (p # ps) = map char_digit p @ stream_digits ps"
  by (simp_all add: stream_digits_def)

lemma solver_session_correct:
  assumes "solver_ready s" "\<forall>p \<in> set ps. packet_ok p"
  obtains s' where "solver_session ps s = Some s'" "solver_ready s'"
    "take N (digits s') = drop (length (stream_digits ps)) (take N (digits s) @ stream_digits ps)"
    "r_sent (reporter s') = r_sent (reporter s) @
       map (http_message \<circ> snd) (stream_submissions (take N (digits s)) ps)"
  using assms
proof (induction ps arbitrary: s thesis)
  case Nil
  then show ?case by (auto simp: solver_session_def)
next
  case (Cons p ps)
  let ?w = "take N (digits s) @ map char_digit p"
  have p: "digit_bytes p" "1 \<le> length p" "length p \<le> MAX_BATCH_SIZE"
    using Cons.prems by (auto simp: packet_ok_def)
  obtain s1 where s1: "recv_input p s = Some s1" "solver_base s1"
    "take N (digits s1) = drop (length p) ?w"
    "reporter s1 = fold (\<lambda>(m, w). submit m w) (all_found ?w)
      ((reporter s)\<lparr>last_recv_tsc := rdtsc_now (reporter s), r_reads := r_reads (reporter s) + 1\<rparr>)"
    by (rule recv_input_correct[OF Cons.prems(2) p, unfolded buffer_after_def])
  have sent1: "r_sent (reporter s1) = r_sent (reporter s) @
      map (http_message \<circ> snd) (filter (\<lambda>(m, x). reportable m x) (all_found ?w))"
    by (simp add: s1(4) r_sent_fold_submit)
  obtain s2 where s2: "solver_print_stat s1 = Some s2" "solver_ready s2" "digits s2 = digits s1"
    "r_sent (reporter s2) = r_sent (reporter s1)"
    by (rule solver_print_stat_correct[OF s1(2)])
  have ps: "\<forall>p \<in> set ps. packet_ok p" using Cons.prems(3) by simp
  obtain s' where s': "solver_session ps s2 = Some s'" "solver_ready s'"
    "take N (digits s') = drop (length (stream_digits ps)) (take N (digits s2) @ stream_digits ps)"
    "r_sent (reporter s') = r_sent (reporter s2) @
       map (http_message \<circ> snd) (stream_submissions (take N (digits s2)) ps)"
    by (rule Cons.IH[OF _ s2(2) ps])
  have "take N (digits s') =
      drop (length (stream_digits (p # ps))) (take N (digits s) @ stream_digits (p # ps))"
  proof -
    have "drop (length p) ?w @ stream_digits ps = drop (length p) (?w @ stream_digits ps)" by simp
    with s'(3) s2(3) s1(3)
    have "take N (digits s') = drop (length (stream_digits ps)) (drop (length p) (?w @ stream_digits ps))"
      by metis
    then show ?thesis by (simp add: add.commute del: drop_append)
  qed
  moreover have "solver_session (p # ps) s = Some s'"
    using s1 s2 s' by (simp add: solver_session_def)
  moreover have "r_sent (reporter s') = r_sent (reporter s) @
      map (http_message \<circ> snd) (stream_submissions (take N (digits s)) (p # ps))"
    by (simp add: s'(4) s2(3,4) sent1 s1(3) Let_def)
  ultimately show ?case using s'(2) Cons.prems(1) by blast
qed

lemma hash_wf_zero_Solver: "hash_wf (hash1 (zero_Solver c)) []" "hash_wf (hash2 (zero_Solver c)) []"
  "hash_wf (hash3 (zero_Solver c)) []" "hash_wf (hash4 (zero_Solver c)) []"
  by (simp_all add: zero_Solver_def hash_wf_zero)

lemma solver_boot:
  obtains s where "solver_init f (zero_Solver c) = Some s" "solver_ready s"
    "take N (digits s) = replicate N 9" "r_sent (reporter s) = []"
proof -
  have "rep_wf (reporter (zero_Solver c))" by (simp add: zero_Solver_def zero_Reporter_def rep_wf_def)
  then show ?thesis
    using solver_init_ready[OF _ _ _ _ _ hash_wf_zero_Solver, of c f] that
    by (auto simp: zero_Solver_def zero_Reporter_def)
qed

section \<open>Completeness and soundness over the stream\<close>

definition modulus :: "nat \<Rightarrow> int" where
  "modulus m = (if m = 1 then 299236546 else if m = 2 then 104648257118348370704723401
     else if m = 3 then 500000000000000243 else 387420489)"

lemma modulus_is_hit:
  assumes "modulus m dvd digval (window w v q)" "m \<in> {1, 2, 3, 4}" "v \<le> q" "q < K" "q < length w"
  shows "is_hit m w v q"
proof (cases "m = 2")
  case True
  then have "uint M2 dvd digval (window w v q)" using assms by (simp add: modulus_def M2_def)
  from keyf_window_dvd[OF this] assms True show ?thesis by (simp add: is_hit_keyf)
next
  case False
  have M1: "(149618273 :: int) dvd y" "(2 :: int) dvd y" if "299236546 dvd y" for y
    by (rule dvd_trans[OF _ that], simp)+
  show ?thesis
    using False assms(1,2) M1[of "digval (window w v q)"]
    by (simp add: modulus_def is_hit_def Let_def) (elim disjE; (simp; fail | clarsimp))
qed

lemma set_found: "set (found m w) = {(m, window w v q) | v q. N \<le> q \<and> q < length w \<and> q - N \<le> v \<and> v < q \<and> is_hit m w v q}"
  by (auto simp: found_def) blast

lemma found_if:
  "N \<le> q \<Longrightarrow> q < length w \<Longrightarrow> q - N \<le> v \<Longrightarrow> v < q \<Longrightarrow> is_hit m w v q \<Longrightarrow> (m, window w v q) \<in> set (found m w)"
  unfolding set_found by blast

lemma all_found_if:
  "(m, x) \<in> set (found m w) \<Longrightarrow> m \<in> {1, 2, 3, 4} \<Longrightarrow> (m, x) \<in> set (all_found w)"
  by (auto simp: all_found_def)

lemma all_foundD: "(m, x) \<in> set (all_found w) \<Longrightarrow> m \<in> {1, 2, 3, 4} \<and> (m, x) \<in> set (found m w)"
  by (auto simp: all_found_def set_found)

text \<open>A substring of the stream is the window between two positions.\<close>

lemma window_substring:
  assumes "w = pre @ x @ post" "pre \<noteq> []" "x \<noteq> []"
  shows "window w (length pre - 1) (length pre + length x - 1) = x"
  using assms by (simp add: window_def Suc_diff_le)

lemma take_append_prefix:
  "length pre + length x \<le> n \<Longrightarrow>
   take n (pre @ x @ post) = pre @ x @ take (n - length pre - length x) post"
  by simp

lemma stream_complete:
  assumes "length h = N" "\<forall>p \<in> set ps. packet_ok p" "h @ stream_digits ps = pre @ x @ post"
    and x: "reportable m x" "length x \<le> N" "modulus m dvd digval x" "m \<in> {1, 2, 3, 4}"
    and "N < length pre + length x"
  shows "(m, x) \<in> set (stream_submissions h ps)"
  using assms(1-3,8)
proof (induction ps arbitrary: h pre)
  case Nil
  then show ?case by (metis append_Nil2 length_append not_add_less1 stream_digits_simps(1) add.assoc)
next
  case (Cons p ps)
  let ?w = "h @ map char_digit p"
  have p: "length p \<le> MAX_BATCH_SIZE" using Cons.prems by (simp add: packet_ok_def)
  have eq: "?w @ stream_digits ps = pre @ x @ post" using Cons.prems by simp
  show ?case
  proof (cases "length pre + length x \<le> length ?w")
    case True
    let ?v = "length pre - 1" and ?q = "length pre + length x - 1"
    have "pre \<noteq> []" "x \<noteq> []" using x Cons.prems(4) by (auto simp: reportable_def)
    moreover have "?w = take (length ?w) (pre @ x @ post)" unfolding eq[symmetric] by simp
    with True have "?w = pre @ x @ take (length ?w - length pre - length x) post"
      by (metis take_append_prefix)
    ultimately have win: "window ?w ?v ?q = x" by (intro window_substring)
    have q: "N \<le> ?q" "?q < length ?w" "?q - N \<le> ?v" "?v < ?q" "?q < K"
      using Cons.prems(1,4) True x(2) p \<open>pre \<noteq> []\<close> \<open>x \<noteq> []\<close> by (cases pre; cases x; simp)+
    then have "is_hit m ?w ?v ?q" using modulus_is_hit[of m ?w ?v ?q] win x by simp
    with q win have "(m, x) \<in> set (found m ?w)" by (metis found_if)
    with x show ?thesis by (auto simp: Let_def dest: all_found_if)
  next
    case False
    have len: "length p \<le> length pre" using False x(2) Cons.prems(1) by simp
    have "drop (length p) ?w @ stream_digits ps = drop (length p) pre @ x @ post"
      using arg_cong[OF eq, of "drop (length p)"] len Cons.prems(1) by simp
    from Cons.IH[OF _ _ this] Cons.prems False len show ?thesis by (simp add: Let_def)
  qed
qed

text \<open>What the key comparison of modulus number \<open>m\<close> guarantees about a submitted window.\<close>

definition guaranteed :: "nat \<Rightarrow> int list \<Rightarrow> bool" where
  "guaranteed m x \<longleftrightarrow> (m = 1 \<longrightarrow> 149618273 dvd digval x) \<and>
     (m = 3 \<longrightarrow> 500000000000000243 dvd digval x) \<and> (m = 4 \<longrightarrow> 387420489 dvd digval x)"

lemma is_hit_guaranteed: "is_hit m w v q \<Longrightarrow> guaranteed m (window w v q)"
  by (simp add: guaranteed_def is_hit_def Let_def split: if_splits)

lemma split_window: "v < q \<Longrightarrow> q < length w \<Longrightarrow> w = take (Suc v) w @ window w v q @ drop (Suc q) w"
proof -
  assume "v < q" "q < length w"
  then have "drop (Suc q) w = drop (q - v) (drop (Suc v) w)" by simp
  then have "window w v q @ drop (Suc q) w = drop (Suc v) w"
    unfolding window_def by (simp only: append_take_drop_id)
  then show ?thesis by simp
qed

lemma stream_sound:
  assumes "length h = N" "(m, x) \<in> set (stream_submissions h ps)"
  shows "\<exists>pre post. h @ stream_digits ps = pre @ x @ post \<and> N < length pre + length x \<and>
    m \<in> {1, 2, 3, 4} \<and> reportable m x \<and> length x \<le> N \<and> guaranteed m x"
  using assms
proof (induction ps arbitrary: h)
  case Nil
  then show ?case by simp
next
  case (Cons p ps)
  let ?w = "h @ map char_digit p"
  consider "(m, x) \<in> set (all_found ?w)" "reportable m x"
    | "(m, x) \<in> set (stream_submissions (drop (length p) ?w) ps)"
    using Cons.prems(2) by (auto simp: Let_def)
  then show ?case
  proof cases
    case 1
    then have m: "m \<in> {1, 2, 3, 4}" and f: "(m, x) \<in> set (found m ?w)" using all_foundD by auto
    from f obtain v q where vq: "x = window ?w v q" "N \<le> q" "q < length ?w" "q - N \<le> v" "v < q" "is_hit m ?w v q"
      unfolding set_found by blast
    have len: "length x = q - v" using vq by (simp add: vq(1) window_def)
    have "?w @ stream_digits ps = take (Suc v) ?w @ x @ drop (Suc q) ?w @ stream_digits ps"
      by (subst split_window[OF vq(5,3)]) (simp only: append.assoc vq(1))
    moreover have "length (take (Suc v) ?w) = Suc v" using vq by simp
    moreover have "guaranteed m x" using vq(6) by (simp add: is_hit_guaranteed vq(1))
    moreover have "N < Suc v + length x" "length x \<le> N" using len vq by auto
    ultimately show ?thesis using 1 m
      by (intro exI[of _ "take (Suc v) ?w"] exI[of _ "drop (Suc q) ?w @ stream_digits ps"])
        (simp only: append.assoc stream_digits_simps)
  next
    case 2
    have "length (drop (length p) ?w) = N" using Cons.prems(1) by simp
    from Cons.IH[OF this 2] obtain pre post where IH: "drop (length p) ?w @ stream_digits ps = pre @ x @ post"
      "N < length pre + length x" "m \<in> {1, 2, 3, 4} \<and> reportable m x \<and> length x \<le> N \<and> guaranteed m x"
      by blast
    have "?w @ stream_digits ps = take (length p) ?w @ drop (length p) ?w @ stream_digits ps"
      by (simp only: append_take_drop_id append.assoc[symmetric])
    then have "?w @ stream_digits ps = (take (length p) ?w @ pre) @ x @ post"
      unfolding IH(1) by (simp only: append.assoc)
    with IH(2,3) show ?thesis
      by (intro exI[of _ "take (length p) ?w @ pre"] exI[of _ post])
        (simp only: append.assoc stream_digits_simps, simp)
  qed
qed

lemma digval_zeros: "digval (ds @ replicate n 0) = digval ds * 10 ^ n"
proof (induction n)
  case (Suc n)
  have "ds @ replicate (Suc n) 0 = (ds @ replicate n 0) @ [0]"
    by (simp add: replicate_append_same)
  then show ?case using Suc by (simp only: digval_snoc) simp
qed simp

section \<open>Properties\<close>

text \<open>C1: over a whole session, from \<open>Solver::init\<close> on, no access of the solver leaves its arrays,
  no assertion fails, every loop ends, and every substring of the received digits of at most 256
  digits that is a multiple of one of the four moduli, is long enough for it and has no leading
  zero is submitted in an HTTP request, however the digits were split into packets.\<close>

theorem session_complete:
  assumes "\<forall>p \<in> set ps. packet_ok p" "stream_digits ps = pre @ x @ post"
    and "m \<in> {1, 2, 3, 4}" "reportable m x" "length x \<le> N" "modulus m dvd digval x"
  shows "\<exists>s s'. solver_init f (zero_Solver clock) = Some s \<and> solver_session ps s = Some s' \<and>
    http_message x \<in> set (r_sent (reporter s'))"
proof -
  obtain s where s: "solver_init f (zero_Solver clock) = Some s" "solver_ready s"
    "take N (digits s) = replicate N 9" by (rule solver_boot)
  obtain s' where s': "solver_session ps s = Some s'"
    "r_sent (reporter s') = r_sent (reporter s) @ map (http_message \<circ> snd) (stream_submissions (replicate N 9) ps)"
    using solver_session_correct[OF s(2) assms(1)] unfolding s(3) by blast
  have eq: "replicate N 9 @ stream_digits ps = (replicate N 9 @ pre) @ x @ post" by (simp add: assms(2))
  have "N < length (replicate N (9 :: int) @ pre) + length x"
    using assms(4) by (simp add: reportable_def)
  then have "(m, x) \<in> set (stream_submissions (replicate N 9) ps)"
    by (rule stream_complete[OF length_replicate assms(1) eq assms(4-6,3)])
  then have "http_message x \<in> set (r_sent (reporter s'))" by (force simp: s'(2))
  with s s' show ?thesis by blast
qed

theorem session_complete_witness:
  "\<exists>s s'. solver_init 2500000000 (zero_Solver (\<lambda>n. of_nat n)) = Some s \<and>
    solver_session [[49, 51, 56, 55, 52], [50, 48, 52, 56, 57] @ replicate 59 48] s = Some s' \<and>
    http_message ([3, 8, 7, 4, 2, 0, 4, 8, 9] @ replicate 59 0) \<in> set (r_sent (reporter s'))"
proof (rule session_complete[where pre = "[1]" and post = "[]" and m = 4])
  show "\<forall>p \<in> set [[49, 51, 56, 55, 52], [50, 48, 52, 56, 57] @ replicate 59 48]. packet_ok p"
    by (simp add: packet_ok_def digit_bytes_def MAX_BATCH_SIZE_def)
  show "stream_digits [[49, 51, 56, 55, 52], [50, 48, 52, 56, 57] @ replicate 59 48] =
      [1] @ ([3, 8, 7, 4, 2, 0, 4, 8, 9] @ replicate 59 0) @ []"
    by (simp add: stream_digits_def char_digit_def)
  show "modulus 4 dvd digval ([3, 8, 7, 4, 2, 0, 4, 8, 9] @ replicate 59 0)"
    unfolding digval_zeros by (simp add: modulus_def digval_def)
qed (simp_all add: reportable_def min_len_def N_def)



text \<open>C5: on a prepared state, \<open>recv_input\<close> on 1 to 400 digits returns, appends to the sent requests
  exactly those of the matching windows that end in a new digit, in the order of the code, and keeps
  the last 256 digits.\<close>

theorem recv_input_submits:
  assumes "solver_ready s" "packet_ok buf"
  shows "\<exists>s'. recv_input buf s = Some s' \<and> solver_base s' \<and>
    take N (digits s') = drop (length buf) (take N (digits s) @ map char_digit buf) \<and>
    r_sent (reporter s') = r_sent (reporter s) @
      map http_message (submissions (take N (digits s) @ map char_digit buf))"
proof -
  obtain s' where s': "recv_input buf s = Some s'" "solver_base s'"
    "take N (digits s') = drop (length buf) (buffer_after s buf)"
    "reporter s' = fold (\<lambda>(m, w). submit m w) (all_found (buffer_after s buf))
      ((reporter s)\<lparr>last_recv_tsc := rdtsc_now (reporter s), r_reads := r_reads (reporter s) + 1\<rparr>)"
    using assms recv_input_correct unfolding packet_ok_def by metis
  then show ?thesis by (simp add: r_sent_fold_submit submissions_def buffer_after_def)
qed

theorem recv_input_submits_witness:
  "\<exists>s s'. solver_init 2500000000 (zero_Solver (\<lambda>n. of_nat n)) = Some s \<and> recv_input [49, 50] s = Some s' \<and>
    take N (digits s') = drop 2 (replicate N 9 @ [1, 2])"
proof -
  obtain s where s: "solver_init 2500000000 (zero_Solver (\<lambda>n. of_nat n)) = Some s" "solver_ready s"
    "take N (digits s) = replicate N 9" by (rule solver_boot)
  have "packet_ok [49, 50]" by (simp add: packet_ok_def digit_bytes_def MAX_BATCH_SIZE_def)
  from recv_input_submits[OF s(2) this] s show ?thesis by (auto simp: char_digit_def numeral_2_eq_2)
qed

text \<open>C6: the assertion of \<open>recv_input\<close> is its only failure on a prepared state: with digits as input
  it fails exactly for an empty packet and for one of more than 400 bytes.\<close>

theorem recv_input_fails_iff:
  assumes "solver_ready s" "digit_bytes buf"
  shows "recv_input buf s = None \<longleftrightarrow> buf = [] \<or> MAX_BATCH_SIZE < length buf"
proof (cases "1 \<le> length buf \<and> length buf \<le> MAX_BATCH_SIZE")
  case True
  then obtain s' where "recv_input buf s = Some s'" using assms recv_input_correct by metis
  with True show ?thesis by auto
next
  case False
  then have "recv_input buf s = None" by (simp only: recv_input_def c_assert_False) simp
  with False show ?thesis by (cases buf) auto
qed

theorem recv_input_fails_iff_witness:
  "\<exists>s. solver_init 2500000000 (zero_Solver (\<lambda>n. of_nat n)) = Some s \<and>
    recv_input [] s = None \<and> recv_input (replicate 401 48) s = None \<and> recv_input (replicate 400 48) s \<noteq> None"
proof -
  obtain s where s: "solver_init 2500000000 (zero_Solver (\<lambda>n. of_nat n)) = Some s" "solver_ready s"
    by (rule solver_boot)
  have "digit_bytes []" "digit_bytes (replicate 401 48)" "digit_bytes (replicate 400 48)"
    by (simp_all add: digit_bytes_def)
  note this[THEN recv_input_fails_iff[OF s(2)]]
  then show ?thesis using s(1) by (simp add: MAX_BATCH_SIZE_def)
qed

end
