(* ===== verification/Kern_Timer.thy ===== *)
theory Kern_Timer
  imports Duck_Prelude
begin

text \<open>
  The kernel's time base: the rounding helpers of \<open>inc/utils.hpp\<close>, the TSC conversions and the
  CPU detection of \<open>lib/timer.cpp\<close> and \<open>inc/timer.hpp\<close>, the C library clock of \<open>lib/ctime.cpp\<close>,
  the timer part of \<open>lib/lapic.cpp\<close> and the idle policy of \<open>lib/scheduler.cpp\<close>.

  Reading the TSC and executing \<open>cpuid\<close> are inputs: the functions take the value read, or the
  sequence of values where a loop reads many. Writes to the local APIC are appended to a list.
  A division by zero is a failure, as in the processor.
\<close>

section \<open>Rounding\<close>

definition c_div :: "'a::len word \<Rightarrow> 'a word \<Rightarrow> 'a word option" where
  "c_div a b = (if b = 0 then None else Some (a div b))"

definition round_up :: "u64 \<Rightarrow> u64 \<Rightarrow> u64" where
  "round_up x r = (x + r - 1) div r * r"

definition round_down :: "u64 \<Rightarrow> u64 \<Rightarrow> u64" where
  "round_down x r = x div r * r"

definition extract_bits :: "u64 \<Rightarrow> nat \<Rightarrow> nat \<Rightarrow> u64" where
  "extract_bits x hi lo = drop_bit (lo + 63 - hi) (push_bit (63 - hi) x)"

section \<open>Timer\<close>

record Timer =
  tsc_freq :: u64
  tsc_epoch :: u64
  ext_freq :: u32
  clk_freq :: u64

definition zero_Timer :: Timer where
  "zero_Timer = \<lparr>tsc_freq = 0, tsc_epoch = 0, ext_freq = 0, clk_freq = 0\<rparr>"

definition scale_ns :: "u64 \<Rightarrow> u64 \<Rightarrow> u64 option" where
  "scale_ns freq x = do {
     q \<leftarrow> c_div x freq;
     let r = x mod freq;
     s \<leftarrow> c_div (r * 1000000000) freq;
     Some (q * 1000000000 + s)
   }"

definition tsc_to_ns :: "Timer \<Rightarrow> u64 \<Rightarrow> u64 option" where
  "tsc_to_ns t tsc = scale_ns (tsc_freq t) tsc"

definition clk_to_ns :: "Timer \<Rightarrow> u64 \<Rightarrow> u64 option" where
  "clk_to_ns t clk = scale_ns (clk_freq t) clk"

definition tsc_to_secf :: "Timer \<Rightarrow> u64 \<Rightarrow> rat" where
  "tsc_to_secf t tsc = of_nat (unat tsc) / of_nat (unat (tsc_freq t))"

definition tsc_since_epoch :: "Timer \<Rightarrow> u64 \<Rightarrow> u64" where
  "tsc_since_epoch t now = (if tsc_epoch t = 0 then - 1 else now - tsc_epoch t)"

definition secf_since_epoch :: "Timer \<Rightarrow> u64 \<Rightarrow> rat" where
  "secf_since_epoch t now = (if tsc_epoch t = 0 then - 1
     else of_nat (unat (tsc_since_epoch t now)) / of_nat (unat (tsc_freq t)))"

definition ns_since_epoch :: "Timer \<Rightarrow> u64 \<Rightarrow> u64 option" where
  "ns_since_epoch t now = (if tsc_epoch t = 0 then Some (- 1)
     else tsc_to_ns t (tsc_since_epoch t now))"

text \<open>\<open>microdelay\<close> reads the TSC once for the target and then polls it. \<open>clock n\<close> is the value of the
  \<open>n\<close>-th read; the result is the number of reads made.\<close>

partial_function (option) poll_tsc :: "(nat \<Rightarrow> u64) \<Rightarrow> u64 \<Rightarrow> nat \<Rightarrow> nat option" where
  "poll_tsc clock tgt n = (if sint (clock n - tgt) < 0 then poll_tsc clock tgt (Suc n) else Some (Suc n))"

definition microdelay :: "Timer \<Rightarrow> (nat \<Rightarrow> u64) \<Rightarrow> u64 \<Rightarrow> nat option" where
  "microdelay t clock us = poll_tsc clock (clock 0 + us * (tsc_freq t div 1000000)) 1"

text \<open>The registers EAX, EBX, ECX and EDX after \<open>cpuid\<close>.\<close>

type_synonym cpuid_regs = "u32 \<times> u32 \<times> u32 \<times> u32"

definition get_tsc_clock_ratio :: "cpuid_regs \<Rightarrow> (u32 \<times> u32 \<times> u32) option" where
  "get_tsc_clock_ratio regs = (case regs of (a, b, c, d) \<Rightarrow> if b = 0 then None else Some (b, a, c))"

definition detect_cpu_speed_intel :: "(u32 \<Rightarrow> cpuid_regs) \<Rightarrow> Timer \<Rightarrow> Timer option" where
  "detect_cpu_speed_intel cpuid t = do {
     t \<leftarrow> (case get_tsc_clock_ratio (cpuid 0x15) of
         None \<Rightarrow> Some (t\<lparr>tsc_freq := 3600 * 1000000, ext_freq := 1000 * 1000000\<rparr>)
       | Some (a, b, ext) \<Rightarrow> do {
           let ext = (if ext = 0 then 24 * 1000000 else ext);
           f \<leftarrow> c_div (ucast ext * ucast a) (ucast b);
           Some (t\<lparr>tsc_freq := f, ext_freq := ext\<rparr>)
         });
     Some (t\<lparr>clk_freq := round_down (tsc_freq t + 50 * 1000000) (100 * 1000000)\<rparr>)
   }"

definition detect_cpu_speed_others :: "Timer \<Rightarrow> Timer" where
  "detect_cpu_speed_others t =
     t\<lparr>tsc_freq := 3700 * 1000000, ext_freq := 100 * 1000000, clk_freq := 3700 * 1000000\<rparr>"

definition le_bytes4 :: "u32 \<Rightarrow> bytes" where
  "le_bytes4 w = map (\<lambda>i. ucast (drop_bit (8 * i) w)) [0..<4]"

definition cpu_brand :: "cpuid_regs \<Rightarrow> bytes" where
  "cpu_brand regs = (case regs of (a, b, c, d) \<Rightarrow> le_bytes4 b @ le_bytes4 d @ le_bytes4 c)"

definition timer_init :: "(u32 \<Rightarrow> cpuid_regs) \<Rightarrow> u64 \<Rightarrow> Timer \<Rightarrow> Timer option" where
  "timer_init cpuid now t = do {
     t \<leftarrow> (if cpu_brand (cpuid 0) = bytes_of_string ''GenuineIntel''
           then detect_cpu_speed_intel cpuid t else Some (detect_cpu_speed_others t));
     Some (t\<lparr>tsc_epoch := now\<rparr>)
   }"

definition read_performance_counters :: "u64 \<times> u64 \<times> u64" where
  "read_performance_counters = (1, 1, 1)"

section \<open>The C library clock\<close>

text \<open>\<open>clock_t\<close> and \<open>time_t\<close> are signed 64-bit integers; the division is unsigned because
  \<open>tsc_freq\<close> is.\<close>

definition clock_c :: "Timer \<Rightarrow> u64 \<Rightarrow> u64" where
  "clock_c t now = (if tsc_freq t = 0 then - 1 else tsc_since_epoch t now)"

definition time_c :: "Timer \<Rightarrow> u64 \<Rightarrow> u64 option" where
  "time_c t now = (let c = clock_c t now in if c = - 1 then Some (- 1) else c_div c (tsc_freq t))"

section \<open>The timer of the local APIC\<close>

definition lapic_TICR :: nat where "lapic_TICR = 0x0380 div 4"
definition lapic_TIMER :: nat where "lapic_TIMER = 0x0320 div 4"
definition lapic_EOI :: nat where "lapic_EOI = 0x00B0 div 4"
definition SINGLESHOT :: u32 where "SINGLESHOT = 0"
definition PERIODIC :: u32 where "PERIODIC = 0x20000"
definition IRQ_TIMER_VECTOR :: u32 where "IRQ_TIMER_VECTOR = 32 + 0"

record Lapic =
  lapic_writes :: "(nat \<times> u32) list"
  lapic_timer_cnt :: u64

definition lapicw :: "nat \<Rightarrow> u32 \<Rightarrow> Lapic \<Rightarrow> Lapic" where
  "lapicw index value l = l\<lparr>lapic_writes := lapic_writes l @ [(index, value)]\<rparr>"

definition timer_disable :: "Lapic \<Rightarrow> Lapic" where
  "timer_disable l = lapicw lapic_TICR (- 1) l"

definition timer_ticks :: "Timer \<Rightarrow> u64 \<Rightarrow> u64" where
  "timer_ticks t ns = ucast ((ucast ns :: u128) * ucast (ext_freq t) div 1000000000)"

definition timer_single_shot_ns :: "Timer \<Rightarrow> u64 \<Rightarrow> Lapic \<Rightarrow> Lapic option" where
  "timer_single_shot_ns t ns l = do {
     let to_set = timer_ticks t ns;
     c_assert (to_set < 4000000000);
     let l = l\<lparr>lapic_timer_cnt := 1\<rparr>;
     let l = lapicw lapic_TIMER (SINGLESHOT OR IRQ_TIMER_VECTOR) l;
     Some (lapicw lapic_TICR (ucast to_set) l)
   }"

definition timer_periodic_ns :: "Timer \<Rightarrow> u64 \<Rightarrow> u64 \<Rightarrow> Lapic \<Rightarrow> Lapic option" where
  "timer_periodic_ns t ns cnt l = do {
     let to_set = timer_ticks t ns;
     c_assert (to_set < 4000000000);
     let l = l\<lparr>lapic_timer_cnt := cnt\<rparr>;
     let l = lapicw lapic_TIMER (PERIODIC OR IRQ_TIMER_VECTOR) l;
     Some (lapicw lapic_TICR (ucast to_set) l)
   }"

definition eoi :: "Lapic \<Rightarrow> Lapic" where
  "eoi l = lapicw lapic_EOI 0 l"

text \<open>\<open>powersave_sleep\<close> arms the timer and halts with interrupts enabled.\<close>

definition powersave_sleep :: "Timer \<Rightarrow> u64 \<Rightarrow> Lapic \<Rightarrow> Lapic option" where
  "powersave_sleep t ns l = timer_single_shot_ns t ns l"

section \<open>Scheduler\<close>

datatype sched_state = ACTIVE | IDLE

record Scheduler =
  current_state :: sched_state
  last_active_timestamp_ns :: u64

definition scheduler_init :: "Scheduler \<Rightarrow> Scheduler" where
  "scheduler_init s = s\<lparr>current_state := ACTIVE\<rparr>"

definition set_active :: "Scheduler \<Rightarrow> Scheduler" where
  "set_active s = s\<lparr>current_state := ACTIVE\<rparr>"

definition idle_policy_ms :: "(u64 \<times> u64) list" where
  "idle_policy_ms = [(0, 0), (1, 1), (30, 2)]"

definition set_idle :: "Timer \<Rightarrow> u64 \<Rightarrow> Scheduler \<Rightarrow> Scheduler option" where
  "set_idle t now s = (if current_state s = ACTIVE then do {
       ns \<leftarrow> ns_since_epoch t now;
       Some (s\<lparr>last_active_timestamp_ns := ns, current_state := IDLE\<rparr>)
     } else Some s)"

primrec pick_policy :: "u64 \<Rightarrow> nat \<Rightarrow> nat option" where
  "pick_policy idle 0 = Some 0"
| "pick_policy idle (Suc i) = do {
     p \<leftarrow> rd idle_policy_ms (Suc i);
     if idle \<ge> fst p then Some (Suc i) else pick_policy idle i
   }"

definition get_sleep_duration_ms :: "Timer \<Rightarrow> u64 \<Rightarrow> Scheduler \<Rightarrow> u64 option" where
  "get_sleep_duration_ms t now s = (if current_state s \<noteq> IDLE then Some 0 else do {
     ns \<leftarrow> ns_since_epoch t now;
     let idle = (ns - last_active_timestamp_ns s) div 1000000;
     i \<leftarrow> pick_policy idle (length idle_policy_ms - 1);
     p \<leftarrow> rd idle_policy_ms i;
     Some (snd p)
   })"

definition can_sleep :: "Timer \<Rightarrow> u64 \<Rightarrow> Scheduler \<Rightarrow> bool option" where
  "can_sleep t now s = do { ms \<leftarrow> get_sleep_duration_ms t now s; Some (ms > 0) }"

definition sched_sleep :: "Timer \<Rightarrow> u64 \<Rightarrow> Scheduler \<Rightarrow> Lapic \<Rightarrow> Lapic option" where
  "sched_sleep t now s l = do {
     ms \<leftarrow> get_sleep_duration_ms t now s;
     if ms > 0 then powersave_sleep t (ms * 1000000) l else Some l
   }"

section \<open>Lemmas\<close>

lemma c_div_Some [opt_simps]: "b \<noteq> 0 \<Longrightarrow> c_div a b = Some (a div b)"
  by (simp add: c_div_def)

lemma unat_round_down: "unat (round_down x r) = unat x div unat r * unat r"
proof -
  have "unat x div unat r * unat r \<le> unat x" by simp
  also have "\<dots> < 2 ^ 64" using unsigned_less[of x] by simp
  finally have "unat (x div r) * unat r < 2 ^ LENGTH(64)" by (simp add: unat_div)
  from unat_mult_fits[OF this] show ?thesis by (simp add: round_down_def unat_div)
qed

lemma round_down_le: "round_down x r \<le> x"
  by (simp add: word_le_nat_alt unat_round_down)

lemma unat_round_up:
  assumes "0 < r" "unat x + unat r \<le> 2 ^ 64"
  shows "unat (round_up x r) = (unat x + unat r - 1) div unat r * unat r"
proof -
  have r0: "0 < unat r" using assms(1) by (simp add: word_less_nat_alt)
  have one: "unat (x + (r - 1)) = unat x + (unat r - 1)"
  proof -
    have r1: "unat (r - 1) = unat r - 1" using r0 by (subst unat_minus_fits) auto
    show ?thesis using assms(2) r0 r1 by (subst unat_add_fits) auto
  qed
  have "unat (round_up x r) = unat (round_down (x + (r - 1)) r)"
    by (simp add: round_up_def round_down_def add_diff_eq)
  also have "\<dots> = (unat x + (unat r - 1)) div unat r * unat r"
    by (simp add: unat_round_down one)
  finally show ?thesis using r0 by simp
qed

lemma ceiling_multiple:
  fixes x r :: nat assumes "0 < r"
  shows "x \<le> (x + r - 1) div r * r" "(x + r - 1) div r * r < x + r" "r dvd (x + r - 1) div r * r"
proof -
  have "(x + r - 1) = (x + r - 1) div r * r + (x + r - 1) mod r" by simp
  moreover have "(x + r - 1) mod r < r" using assms by simp
  ultimately show "x \<le> (x + r - 1) div r * r" "(x + r - 1) div r * r < x + r"
    using assms by linarith+
qed simp

lemma scaled_div:
  fixes x f c :: nat assumes "0 < f"
  shows "x * c div f = x div f * c + x mod f * c div f"
proof -
  define q r where qr: "q = x div f" "r = x mod f"
  have x: "x = q * f + r" by (simp add: qr)
  have "x * c = r * c + q * c * f" unfolding x by (simp add: algebra_simps)
  then have "x * c div f = q * c + r * c div f" using assms by simp
  then show ?thesis by (simp add: qr)
qed

lemma scale_ns_exact:
  assumes f: "0 < f" "unat f \<le> 18446744073" and fit: "unat x * 1000000000 div unat f < 2 ^ 64"
  shows "\<exists>ns. scale_ns f x = Some ns \<and> unat ns = unat x * 1000000000 div unat f"
proof -
  let ?q = "unat x div unat f" and ?r = "unat x mod unat f"
  have f0: "0 < unat f" using f(1) by (simp add: word_less_nat_alt)
  then have r: "?r < unat f" by simp
  have split: "unat x * 1000000000 div unat f = ?q * 1000000000 + ?r * 1000000000 div unat f"
    using f0 by (rule scaled_div)
  have "?r * 1000000000 < 2 ^ LENGTH(64)" using r f(2) by simp
  then have r': "unat ((x mod f) * 1000000000) = ?r * 1000000000"
    by (subst unat_mult_fits) (simp_all add: unat_mod)
  have q': "unat ((x div f) * 1000000000) = ?q * 1000000000"
    using fit split by (subst unat_mult_fits) (simp_all add: unat_div)
  have "unat ((x div f) * 1000000000 + (x mod f) * 1000000000 div f) = ?q * 1000000000 + ?r * 1000000000 div unat f"
    using fit split by (subst unat_add_fits) (simp_all add: unat_div q' r')
  then show ?thesis using f split by (simp add: scale_ns_def c_div_def Let_def)
qed

lemma poll_tsc_first:
  assumes "\<not> sint (clock j - tgt) < 0" "n \<le> j" "\<And>i. n \<le> i \<Longrightarrow> i < j \<Longrightarrow> sint (clock i - tgt) < 0"
  shows "poll_tsc clock tgt n = Some (Suc j)"
  using assms(2,3)
proof (induction "j - n" arbitrary: n)
  case 0
  then have "n = j" by simp
  then show ?case using assms(1) by (simp add: poll_tsc.simps)
next
  case (Suc k)
  then have "sint (clock n - tgt) < 0" "Suc n \<le> j" by auto
  moreover have "poll_tsc clock tgt (Suc n) = Some (Suc j)"
    using Suc by (intro Suc.hyps(1)) auto
  ultimately show ?case by (subst poll_tsc.simps) simp
qed

lemma poll_tsc_returns:
  assumes "\<not> sint (clock j - tgt) < 0" "n \<le> j"
  obtains k where "poll_tsc clock tgt n = Some (Suc k)" "n \<le> k" "k \<le> j" "\<not> sint (clock k - tgt) < 0"
    "\<forall>i. n \<le> i \<and> i < k \<longrightarrow> sint (clock i - tgt) < 0"
proof -
  let ?Q = "\<lambda>k. n \<le> k \<and> \<not> sint (clock k - tgt) < 0"
  define k where "k = (LEAST k. ?Q k)"
  have k: "?Q k" unfolding k_def by (rule LeastI[of ?Q j]) (use assms in auto)
  have least: "sint (clock i - tgt) < 0" if "n \<le> i" "i < k" for i
    using that not_less_Least[of i ?Q] unfolding k_def by auto
  have "k \<le> j" unfolding k_def by (rule Least_le) (use assms in auto)
  with k least poll_tsc_first[of clock k tgt n] that show ?thesis by blast
qed

lemma timer_ticks_small:
  assumes "unat ns * unat (ext_freq t) div 1000000000 < 4000000000"
  shows "unat (timer_ticks t ns) = unat ns * unat (ext_freq t) div 1000000000"
proof -
  have "unat ns * unat (ext_freq t) < 2 ^ 64 * 2 ^ 32"
    using unsigned_less[of ns] unsigned_less[of "ext_freq t"] by (intro mult_strict_mono) auto
  then have "unat ((ucast ns :: u128) * ucast (ext_freq t)) = unat ns * unat (ext_freq t)"
    by (subst unat_mult_fits) (simp_all add: unat_ucast_up)
  then have "unat ((ucast ns :: u128) * ucast (ext_freq t) div 1000000000) = unat ns * unat (ext_freq t) div 1000000000"
    by (simp add: unat_div)
  then show ?thesis
    unfolding timer_ticks_def using assms by (subst unat_ucast_fits) simp_all
qed

text \<open>The idle policy in closed form.\<close>

definition sleep_ms :: "u64 \<Rightarrow> u64" where
  "sleep_ms idle = (if idle < 1 then 0 else if idle < 30 then 1 else 2)"

lemma pick_policy_closed:
  "pick_policy idle (Suc (Suc 0)) \<bind> rd idle_policy_ms =
   Some (fst (idle_policy_ms ! (if idle < 1 then 0 else if idle < 30 then 1 else 2)), sleep_ms idle)"
proof -
  have "1 \<le> idle \<longleftrightarrow> \<not> idle < 1" "30 \<le> idle \<longleftrightarrow> \<not> idle < 30" "idle < 1 \<Longrightarrow> idle < 30"
    by (auto simp: word_less_nat_alt word_le_nat_alt)
  then show ?thesis
    by (cases "idle < 1"; cases "idle < 30")
      (simp_all add: rd_def idle_policy_ms_def sleep_ms_def del: word_less_1)
qed

lemma get_sleep_duration_closed:
  "get_sleep_duration_ms t now s = (if current_state s = ACTIVE then Some 0 else
     (case ns_since_epoch t now of None \<Rightarrow> None
      | Some ns \<Rightarrow> Some (sleep_ms ((ns - last_active_timestamp_ns s) div 1000000))))"
proof -
  have len: "length idle_policy_ms - 1 = Suc (Suc 0)" by (simp add: idle_policy_ms_def)
  have "pick_policy idle (Suc (Suc 0)) \<bind> (\<lambda>i. rd idle_policy_ms i \<bind> (\<lambda>p. Some (snd p))) = Some (sleep_ms idle)" for idle
    using arg_cong[OF pick_policy_closed[of idle], of "\<lambda>x. x \<bind> (\<lambda>p. Some (snd p))"] by (simp add: bind_assoc)
  then show ?thesis
    by (cases "current_state s"; cases "ns_since_epoch t now")
      (simp_all add: get_sleep_duration_ms_def len[unfolded One_nat_def] Let_def del: pick_policy.simps)
qed

lemma timer_ticks_sleep: "ms \<in> {1, 2} \<Longrightarrow> timer_ticks t (ms * 1000000) < 4000000000"
proof -
  assume ms: "ms \<in> {1, 2}"
  then have m: "unat (ms * 1000000) \<le> 2000000" by auto
  have "unat (ms * 1000000) * unat (ext_freq t) \<le> 2000000 * 2 ^ 32"
    using m unsigned_less[of "ext_freq t", where 'a = nat] by (intro mult_mono) auto
  then have "unat (ms * 1000000) * unat (ext_freq t) div 1000000000 < 4000000000" by simp
  from timer_ticks_small[OF this] this show ?thesis by (simp add: word_less_nat_alt)
qed

section \<open>Properties\<close>

text \<open>C11: splitting the product keeps the conversion of ticks to nanoseconds exact in 64 bits: for every
  frequency up to 18446744073 Hz the result is the quotient rounded down whenever that fits.\<close>

theorem tsc_to_ns_exact:
  assumes "0 < tsc_freq t" "unat (tsc_freq t) \<le> 18446744073"
    and "unat tsc * 1000000000 div unat (tsc_freq t) < 2 ^ 64"
  shows "\<exists>ns. tsc_to_ns t tsc = Some ns \<and> unat ns = unat tsc * 1000000000 div unat (tsc_freq t)"
  using scale_ns_exact[OF assms] by (simp add: tsc_to_ns_def)

theorem tsc_to_ns_exact_witness:
  "\<exists>ns. tsc_to_ns (zero_Timer\<lparr>tsc_freq := 3600000000\<rparr>) 18446744073709551615 = Some ns \<and>
    unat ns = 5124095576030431004"
  using tsc_to_ns_exact[of "zero_Timer\<lparr>tsc_freq := 3600000000\<rparr>" 18446744073709551615]
  by (simp add: zero_Timer_def)



text \<open>C13: with a calibrated TSC, \<open>Scheduler::sleep\<close> never runs into the assertion of the APIC timer: it
  does nothing while the machine is active or has been idle for less than a millisecond, and
  otherwise arms the single-shot timer with the ticks of 1 ms, from 30 ms of idleness on of 2 ms.\<close>

theorem sched_sleep_arms:
  assumes "0 < tsc_freq t" "ns_since_epoch t now = Some ns"
  shows "sched_sleep t now s l = Some (
    let ms = (if current_state s = ACTIVE then 0 else sleep_ms ((ns - last_active_timestamp_ns s) div 1000000))
    in if ms = 0 then l else l\<lparr>lapic_timer_cnt := 1, lapic_writes := lapic_writes l @
      [(lapic_TIMER, 32), (lapic_TICR, ucast (timer_ticks t (ms * 1000000)))]\<rparr>)"
proof -
  let ?ms = "if current_state s = ACTIVE then 0 else sleep_ms ((ns - last_active_timestamp_ns s) div 1000000)"
  have dur: "get_sleep_duration_ms t now s = Some ?ms"
    using assms(2) by (simp add: get_sleep_duration_closed)
  have pos: "0 < ?ms \<longleftrightarrow> ?ms \<noteq> 0" by (simp add: word_neq_0_conv)
  have "?ms \<in> {0, 1, 2}" by (simp add: sleep_ms_def)
  then have "?ms \<noteq> 0 \<Longrightarrow> timer_ticks t (?ms * 1000000) < 4000000000"
    by (intro timer_ticks_sleep) auto
  then show ?thesis
    unfolding sched_sleep_def dur Option.bind.simps pos
    by (simp add: powersave_sleep_def timer_single_shot_ns_def lapicw_def c_assert_def Let_def
        SINGLESHOT_def IRQ_TIMER_VECTOR_def)
qed

theorem sched_sleep_arms_witness:
  "sched_sleep (zero_Timer\<lparr>tsc_freq := 1000000000, tsc_epoch := 1, ext_freq := 1000000000\<rparr>) 40000001
     \<lparr>current_state = IDLE, last_active_timestamp_ns = 0\<rparr> \<lparr>lapic_writes = [], lapic_timer_cnt = 0\<rparr> =
   Some \<lparr>lapic_writes = [(lapic_TIMER, 32), (lapic_TICR, 2000000)], lapic_timer_cnt = 1\<rparr>"
proof -
  let ?t = "zero_Timer\<lparr>tsc_freq := 1000000000, tsc_epoch := 1, ext_freq := 1000000000\<rparr>"
  have "ns_since_epoch ?t 40000001 = Some 40000000"
    by (simp add: ns_since_epoch_def tsc_to_ns_def scale_ns_def tsc_since_epoch_def c_div_def zero_Timer_def Let_def)
  from sched_sleep_arms[OF _ this] show ?thesis
    by (simp add: sleep_ms_def timer_ticks_def zero_Timer_def)
qed

text \<open>C14: CPU detection fails, by a division by zero, only on an Intel CPU that reports a nonzero
  numerator and a zero denominator of the TSC ratio.\<close>

theorem timer_init_fails_iff:
  "timer_init cpuid now t = None \<longleftrightarrow>
     cpu_brand (cpuid 0) = bytes_of_string ''GenuineIntel'' \<and>
     fst (snd (cpuid 0x15)) \<noteq> 0 \<and> fst (cpuid 0x15) = 0"
proof -
  obtain a b c d where r: "cpuid 0x15 = (a, b, c, d)" by (cases "cpuid 0x15")
  have "ucast a = (0 :: u64) \<longleftrightarrow> a = 0"
    using unat_ucast_up[where 'b = 64 and w = a] by (simp flip: unat_eq_zero)
  then show ?thesis
    by (simp add: timer_init_def detect_cpu_speed_intel_def get_tsc_clock_ratio_def r c_div_def Let_def)
qed

end
