(* ===== verification/Contestant.thy ===== *)
theory Contestant
  imports Solver_Stream Kern_Timer
begin

text \<open>
  The trading client of \<open>kern/contestant.cpp\<close>: two TCP connections, 10001 for the digits and 10002
  for the answers, driven by callbacks of lwIP and by \<open>contestant_tick\<close>.

  lwIP is the environment. Its protocol control blocks (pcbs) are the part of it that the client
  relies on: a table of the live ones with the callbacks registered on them and whether the
  connection is up. API calls are logged in \<open>calls\<close>. Which callback lwIP makes next is an event;
  \<open>lwip_may\<close> states what it promises: it calls back only on live pcbs, reports a connection once,
  reports an error after it has freed the pcb, and reports a new connection as the first callback
  of a loop iteration, since one iteration processes one segment and the timers never complete a
  handshake. Using a pcb that is not live is a failure.
\<close>

section \<open>State\<close>

datatype conn_state = S_NOT_CONNECTED | S_CONNECTING_10002 | S_CONNECTING_10001 | S_CONNECTED
  | S_ABORT_NEXT_TICK

datatype port = P10001 | P10002

datatype pcb_phase = Closed_pcb | Syn_sent | Established

record Pcb =
  pcb_errf :: "port option"
  pcb_recvf :: "port option"
  pcb_phase :: pcb_phase

datatype call = Tcp_nagle_disable nat | Tcp_connect nat "u8 list" nat | Tcp_abort nat
  | Tcp_write nat bytes | Tcp_output nat | Tcp_recved nat nat | Pbuf_free

record Contestant =
  c_state :: conn_state
  conn_10001 :: "nat option"
  conn_10002 :: "nat option"
  last_recv_len :: nat
  server_ip :: "u8 list"
  do_not_send_answer :: bool
  c_solver :: Solver
  pcbs :: "nat \<Rightarrow> Pcb option"
  pcb_next :: nat
  calls :: "call list"
  quiet :: bool

text \<open>The choices of lwIP that a step depends on: whether \<open>tcp_new\<close> has memory and whether
  \<open>tcp_connect\<close> can send its SYN.\<close>

record lwip_choice =
  new_ok :: bool
  connect_ok :: bool

definition MTU :: nat where "MTU = 1500"

definition sys_now :: "Timer \<Rightarrow> u64 \<Rightarrow> u32 option" where
  "sys_now t now = do { ns \<leftarrow> ns_since_epoch t now; Some (ucast (ns div 1000000)) }"

section \<open>The API of lwIP\<close>

definition log_call :: "call \<Rightarrow> Contestant \<Rightarrow> Contestant" where
  "log_call x c = c\<lparr>calls := calls c @ [x]\<rparr>"

definition use_pcb :: "nat \<Rightarrow> Contestant \<Rightarrow> Pcb option" where
  "use_pcb i c = pcbs c i"

definition tcp_new :: "lwip_choice \<Rightarrow> Contestant \<Rightarrow> nat option \<times> Contestant" where
  "tcp_new ch c = (if new_ok ch
     then (Some (pcb_next c), c\<lparr>pcb_next := Suc (pcb_next c),
        pcbs := (pcbs c)(pcb_next c \<mapsto> \<lparr>pcb_errf = None, pcb_recvf = None, pcb_phase = Closed_pcb\<rparr>)\<rparr>)
     else (None, c))"

definition tcp_nagle_disable :: "nat \<Rightarrow> Contestant \<Rightarrow> Contestant option" where
  "tcp_nagle_disable i c = do { _ \<leftarrow> use_pcb i c; Some (log_call (Tcp_nagle_disable i) c) }"

definition tcp_err :: "nat \<Rightarrow> port \<Rightarrow> Contestant \<Rightarrow> Contestant option" where
  "tcp_err i p c = do { b \<leftarrow> use_pcb i c; Some (c\<lparr>pcbs := (pcbs c)(i \<mapsto> b\<lparr>pcb_errf := Some p\<rparr>)\<rparr>) }"

definition tcp_recv :: "nat \<Rightarrow> port \<Rightarrow> Contestant \<Rightarrow> Contestant option" where
  "tcp_recv i p c = do { b \<leftarrow> use_pcb i c; Some (c\<lparr>pcbs := (pcbs c)(i \<mapsto> b\<lparr>pcb_recvf := Some p\<rparr>)\<rparr>) }"

definition tcp_connect :: "lwip_choice \<Rightarrow> nat \<Rightarrow> nat \<Rightarrow> Contestant \<Rightarrow> Contestant option" where
  "tcp_connect ch i port c = do {
     b \<leftarrow> use_pcb i c;
     let c = log_call (Tcp_connect i (server_ip c) port) c;
     Some (if connect_ok ch then c\<lparr>pcbs := (pcbs c)(i \<mapsto> b\<lparr>pcb_phase := Syn_sent\<rparr>)\<rparr> else c)
   }"

definition tcp_write :: "nat option \<Rightarrow> bytes \<Rightarrow> Contestant \<Rightarrow> Contestant option" where
  "tcp_write p buf c = do { i \<leftarrow> p; _ \<leftarrow> use_pcb i c; Some (log_call (Tcp_write i buf) c) }"

definition tcp_output :: "nat option \<Rightarrow> Contestant \<Rightarrow> Contestant option" where
  "tcp_output p c = do { i \<leftarrow> p; _ \<leftarrow> use_pcb i c; Some (log_call (Tcp_output i) c) }"

definition tcp_recved :: "nat \<Rightarrow> nat \<Rightarrow> Contestant \<Rightarrow> Contestant option" where
  "tcp_recved i n c = do { _ \<leftarrow> use_pcb i c; Some (log_call (Tcp_recved i n) c) }"

section \<open>Callbacks\<close>

definition tcp_err_fn_10001 :: "Contestant \<Rightarrow> Contestant" where
  "tcp_err_fn_10001 c = c\<lparr>conn_10001 := None, c_state := S_ABORT_NEXT_TICK\<rparr>"

definition tcp_err_fn_10002 :: "Contestant \<Rightarrow> Contestant" where
  "tcp_err_fn_10002 c = c\<lparr>conn_10002 := None, c_state := S_ABORT_NEXT_TICK\<rparr>"

definition errf :: "port option \<Rightarrow> Contestant \<Rightarrow> Contestant" where
  "errf p = (case p of None \<Rightarrow> id | Some P10001 \<Rightarrow> tcp_err_fn_10001 | Some P10002 \<Rightarrow> tcp_err_fn_10002)"

text \<open>\<open>tcp_abort\<close> frees the pcb and then calls its error callback.\<close>

definition tcp_abort :: "nat \<Rightarrow> Contestant \<Rightarrow> Contestant option" where
  "tcp_abort i c = do {
     b \<leftarrow> use_pcb i c;
     Some (errf (pcb_errf b) (log_call (Tcp_abort i) (c\<lparr>pcbs := (pcbs c)(i := None)\<rparr>)))
   }"

definition contestant_send :: "bytes \<Rightarrow> Contestant \<Rightarrow> Contestant option" where
  "contestant_send buf c =
     (if c_state c \<noteq> S_CONNECTED then Some c
      else if \<not> do_not_send_answer c then do {
        c \<leftarrow> tcp_write (conn_10002 c) buf c;
        tcp_output (conn_10002 c) c
      } else Some c)"

text \<open>A call of the solver whose requests go to \<open>contestant_send\<close>. The solver logs them; none of them
  influences the solver, so they are handed over when it returns.\<close>

definition with_solver :: "(Solver \<Rightarrow> Solver option) \<Rightarrow> Contestant \<Rightarrow> Contestant option" where
  "with_solver f c = do {
     s \<leftarrow> f (c_solver c);
     for_opt contestant_send
       (drop (length (r_sent (reporter (c_solver c)))) (r_sent (reporter s))) (c\<lparr>c_solver := s\<rparr>)
   }"

definition invalid_buffer :: bytes where "invalid_buffer = replicate 256 57"

definition start_connecting_10001 :: "lwip_choice \<Rightarrow> Contestant \<Rightarrow> Contestant option" where
  "start_connecting_10001 ch c = do {
     let c = c\<lparr>c_state := S_CONNECTING_10001\<rparr>;
     let (p, c) = tcp_new ch c;
     let c = c\<lparr>conn_10001 := p\<rparr>;
     c_assert (p \<noteq> None);
     i \<leftarrow> p;
     c \<leftarrow> tcp_nagle_disable i c;
     c \<leftarrow> tcp_err i P10001 c;
     c \<leftarrow> tcp_recv i P10001 c;
     tcp_connect ch i 10001 c
   }"

definition start_connecting :: "lwip_choice \<Rightarrow> Contestant \<Rightarrow> Contestant option" where
  "start_connecting ch c = do {
     let c = c\<lparr>c_state := S_CONNECTING_10002\<rparr>;
     let (p, c) = tcp_new ch c;
     let c = c\<lparr>conn_10002 := p\<rparr>;
     c_assert (p \<noteq> None);
     i \<leftarrow> p;
     c \<leftarrow> tcp_nagle_disable i c;
     c \<leftarrow> tcp_err i P10002 c;
     c \<leftarrow> tcp_recv i P10002 c;
     tcp_connect ch i 10002 c
   }"

definition tcp_connected_fn :: "lwip_choice \<Rightarrow> Contestant \<Rightarrow> Contestant option" where
  "tcp_connected_fn ch c =
     (if c_state c = S_CONNECTING_10002 then start_connecting_10001 ch c
      else do {
        c_assert (c_state c = S_CONNECTING_10001);
        let c = c\<lparr>c_state := S_CONNECTED\<rparr>;
        c \<leftarrow> with_solver (recv_input invalid_buffer) c;
        with_solver solver_print_stat c
      })"

definition has_non_digits :: "bytes \<Rightarrow> bool" where
  "has_non_digits buf \<longleftrightarrow> list_ex (\<lambda>x. \<not> (sint x \<ge> 48 \<and> sint x \<le> 57)) buf"

definition tcp_recv_fn_10001 :: "nat \<Rightarrow> bytes option \<Rightarrow> Contestant \<Rightarrow> Contestant option" where
  "tcp_recv_fn_10001 i p c = (case p of
     None \<Rightarrow> Some (c\<lparr>c_state := S_ABORT_NEXT_TICK\<rparr>)
   | Some data \<Rightarrow> do {
       let len = length data;
       c \<leftarrow> tcp_recved i len c;
       buf \<leftarrow> wr_range (replicate MTU 0) 0 data;
       let buf = take len buf;
       c \<leftarrow> (if \<not> has_non_digits buf then do {
           c \<leftarrow> with_solver (recv_input buf) c;
           let c = c\<lparr>last_recv_len := len\<rparr>;
           with_solver solver_print_stat c
         } else Some c);
       Some (log_call Pbuf_free c)
     })"

definition tcp_recv_fn_10002 :: "nat \<Rightarrow> bytes option \<Rightarrow> Contestant \<Rightarrow> Contestant option" where
  "tcp_recv_fn_10002 i p c = (case p of
     None \<Rightarrow> Some (c\<lparr>c_state := S_ABORT_NEXT_TICK\<rparr>)
   | Some data \<Rightarrow> do {
       c \<leftarrow> tcp_recved i (length data) c;
       Some (log_call Pbuf_free c)
     })"

definition abort_conn :: "nat option \<Rightarrow> (Contestant \<Rightarrow> Contestant) \<Rightarrow> Contestant \<Rightarrow> Contestant option" where
  "abort_conn p reset c = (case p of None \<Rightarrow> Some c
     | Some i \<Rightarrow> do { c \<leftarrow> tcp_abort i c; Some (reset c) })"

definition contestant_tick :: "lwip_choice \<Rightarrow> bool \<Rightarrow> Contestant \<Rightarrow> Contestant option" where
  "contestant_tick ch has_ip c =
     (if c_state c = S_NOT_CONNECTED then
        (if has_ip then start_connecting ch c else Some c)
      else if c_state c = S_ABORT_NEXT_TICK then do {
        c \<leftarrow> abort_conn (conn_10001 c) (\<lambda>c. c\<lparr>conn_10001 := None\<rparr>) c;
        c \<leftarrow> abort_conn (conn_10002 c) (\<lambda>c. c\<lparr>conn_10002 := None\<rparr>) c;
        Some (c\<lparr>c_state := S_NOT_CONNECTED\<rparr>)
      } else Some c)"

section \<open>Start-up\<close>

text \<open>The benchmark of \<open>contestant_init\<close> feeds 10 million digits in packets of 256.\<close>

function recv_1e7_from :: "nat \<Rightarrow> Solver \<Rightarrow> Solver option" where
  "recv_1e7_from i s = (if i < 10000000
     then (case recv_input invalid_buffer s of None \<Rightarrow> None
       | Some s \<Rightarrow> (case prepare s of None \<Rightarrow> None | Some s \<Rightarrow> recv_1e7_from (i + 256) s))
     else Some s)"
  by pat_completeness auto
termination by (relation "measure (\<lambda>(i, s). 10000000 - i)") auto

declare recv_1e7_from.simps [simp del]

definition recv_1e7 :: "Solver \<Rightarrow> Solver option" where
  "recv_1e7 s = recv_1e7_from 0 s"

definition loop_1e9 :: "Solver \<Rightarrow> Solver option" where
  "loop_1e9 s = Some s"

definition read_tsc :: "Solver \<Rightarrow> u64 \<times> Solver" where
  "read_tsc s = (rdtsc_now (reporter s), s\<lparr>reporter := (reporter s)\<lparr>r_reads := r_reads (reporter s) + 1\<rparr>\<rparr>)"

definition do_benchmark :: "Timer \<Rightarrow> (Solver \<Rightarrow> Solver option) \<Rightarrow> Solver \<Rightarrow> (rat \<times> Solver) option" where
  "do_benchmark t func s = do {
     let (t0, s) = read_tsc s;
     s \<leftarrow> func s;
     let (t1, s) = read_tsc s;
     Some (tsc_to_secf t (t1 - t0), s)
   }"

text \<open>The three figures are those of the log line.\<close>

definition benchmark :: "Timer \<Rightarrow> Solver \<Rightarrow> ((rat \<times> rat \<times> rat) \<times> Solver) option" where
  "benchmark t s = do {
     (t_loop, s) \<leftarrow> do_benchmark t loop_1e9 s;
     (t_recv, s) \<leftarrow> do_benchmark t recv_1e7 s;
     Some ((t_loop * 1000, 1 / (t_loop + 1 / 1000000000), t_recv * 100), s)
   }"

type_synonym msrs = "u32 \<Rightarrow> u64"

definition enable_turbo_boost :: "msrs \<Rightarrow> bool \<times> msrs" where
  "enable_turbo_boost m = (
     let dis = push_bit 38 (1 :: u64);
         m = m(416 := m 416 AND NOT dis);
         enabled = (m 416 AND dis = 0);
         m = m(409 := push_bit 8 46)
     in (enabled, m))"

definition contestant_init :: "Timer \<Rightarrow> u8 list \<Rightarrow> msrs \<Rightarrow> Contestant \<Rightarrow> (msrs \<times> Contestant) option" where
  "contestant_init t ip m c = do {
     s \<leftarrow> solver_init (tsc_freq t) (c_solver c);
     s \<leftarrow> prepare s;
     (_, s) \<leftarrow> benchmark t s;
     let (_, m) = enable_turbo_boost m;
     (_, s) \<leftarrow> benchmark t s;
     a \<leftarrow> rd_range ip 0 4;
     Some (m, c\<lparr>c_solver := s, server_ip := a\<rparr>)
   }"

text \<open>The static variables before \<open>run\<close>.\<close>

definition zero_Contestant :: "(nat \<Rightarrow> u64) \<Rightarrow> bool \<Rightarrow> Contestant" where
  "zero_Contestant clock quiet_answers = \<lparr>c_state = S_NOT_CONNECTED, conn_10001 = None, conn_10002 = None,
     last_recv_len = 0, server_ip = [0, 0, 0, 0], do_not_send_answer = quiet_answers,
     c_solver = zero_Solver clock, pcbs = (\<lambda>_. None), pcb_next = 0, calls = [], quiet = True\<rparr>"

section \<open>The main loop\<close>

text \<open>A callback of lwIP: the handshake of a pcb completed, data or the end of the stream (no data)
  arrived on it, or the connection failed.\<close>

datatype callback = Cb_connected nat lwip_choice | Cb_recv nat "bytes option" | Cb_err nat

definition run_callback :: "callback \<Rightarrow> Contestant \<Rightarrow> Contestant option" where
  "run_callback cb c = (let c = c\<lparr>quiet := False\<rparr> in case cb of
     Cb_connected i ch \<Rightarrow> do {
       b \<leftarrow> use_pcb i c;
       tcp_connected_fn ch (c\<lparr>pcbs := (pcbs c)(i \<mapsto> b\<lparr>pcb_phase := Established\<rparr>)\<rparr>)
     }
   | Cb_recv i p \<Rightarrow> do {
       b \<leftarrow> use_pcb i c;
       (case pcb_recvf b of None \<Rightarrow> Some c
        | Some P10001 \<Rightarrow> tcp_recv_fn_10001 i p c
        | Some P10002 \<Rightarrow> tcp_recv_fn_10002 i p c)
     }
   | Cb_err i \<Rightarrow> do {
       b \<leftarrow> use_pcb i c;
       Some (errf (pcb_errf b) (c\<lparr>pcbs := (pcbs c)(i := None)\<rparr>))
     })"

text \<open>The body of the loop of \<open>run\<close>. A UDP packet to port 23579 reboots the machine. Any other packet
  goes to lwIP (\<open>in_cbs\<close> are the callbacks that its processing makes), then the timers run
  (\<open>timer_cbs\<close>), then the client ticks.\<close>

datatype outcome = Reboot | Continue Contestant

definition htons16 :: "u16 \<Rightarrow> u16" where
  "htons16 x = push_bit 8 x OR drop_bit 8 x"

definition is_reboot_packet :: "bytes \<Rightarrow> int \<Rightarrow> bool option" where
  "is_reboot_packet pkt len = (if len \<ge> 14 + 20 + 8 then do {
       lo \<leftarrow> rd pkt (14 + 20 + 2);
       hi \<leftarrow> rd pkt (14 + 20 + 3);
       Some (le16 lo hi = htons16 23579)
     } else Some False)"

definition run_iteration ::
    "bytes \<Rightarrow> int \<Rightarrow> callback list \<Rightarrow> callback list \<Rightarrow> lwip_choice \<Rightarrow> bool \<Rightarrow> Contestant \<Rightarrow> outcome option" where
  "run_iteration pkt len in_cbs timer_cbs ch has_ip c = do {
     reboot \<leftarrow> is_reboot_packet pkt len;
     if reboot then Some Reboot else do {
       c \<leftarrow> (if len > 0 then for_opt run_callback in_cbs c else Some c);
       c \<leftarrow> for_opt run_callback timer_cbs c;
       c \<leftarrow> contestant_tick ch has_ip c;
       Some (Continue (c\<lparr>quiet := True\<rparr>))
     }
   }"

text \<open>\<open>netif_output\<close> copies the frame into a buffer of 1500 bytes.\<close>

definition netif_output :: "bytes \<Rightarrow> bytes option" where
  "netif_output p = do {
     buf \<leftarrow> wr_range (replicate MTU 0) 0 p;
     rd_range buf 0 (length p)
   }"

record Netif =
  nif_mtu :: nat
  nif_flags :: u8
  nif_hwaddr :: "u8 list"
  nif_name :: string
  nif_up :: bool
  nif_link_up :: bool
  nif_default :: bool
  nif_dhcp :: bool

definition NETIF_FLAG_ETHARP :: u8 where "NETIF_FLAG_ETHARP = 0x08"
definition NETIF_FLAG_ETHERNET :: u8 where "NETIF_FLAG_ETHERNET = 0x10"

definition netif_init :: "u8 list \<Rightarrow> Netif \<Rightarrow> Netif option" where
  "netif_init mac nif = do {
     hw \<leftarrow> rd_range mac 0 6;
     Some (nif\<lparr>nif_mtu := MTU, nif_flags := NETIF_FLAG_ETHARP OR NETIF_FLAG_ETHERNET, nif_hwaddr := hw\<rparr>)
   }"

definition contestant_net_init :: "u8 list \<Rightarrow> Netif \<Rightarrow> Netif option" where
  "contestant_net_init mac nif = do {
     nif \<leftarrow> netif_init mac nif;
     let nif = nif\<lparr>nif_name := ''e0''\<rparr>;
     let nif = nif\<lparr>nif_default := True\<rparr>;
     let nif = nif\<lparr>nif_up := True\<rparr>;
     let nif = nif\<lparr>nif_link_up := True\<rparr>;
     Some (nif\<lparr>nif_dhcp := True\<rparr>)
   }"

section \<open>Steps\<close>

text \<open>What the environment may do: callbacks that lwIP promises, with digit packets of at most 400
  bytes and other packets of at most 1500, and ticks.\<close>

datatype event = Ev_callback callback | Ev_tick lwip_choice bool

definition recv_fits :: "bytes \<Rightarrow> bool" where
  "recv_fits data \<longleftrightarrow> data \<noteq> [] \<and> length data \<le> MTU \<and>
     (digit_bytes data \<longrightarrow> length data \<le> MAX_BATCH_SIZE)"

fun lwip_may :: "event \<Rightarrow> Contestant \<Rightarrow> bool" where
  "lwip_may (Ev_callback (Cb_connected i ch)) c =
     (quiet c \<and> new_ok ch \<and> (\<exists>b. pcbs c i = Some b \<and> pcb_phase b = Syn_sent))"
| "lwip_may (Ev_callback (Cb_recv i p)) c =
     ((\<exists>b. pcbs c i = Some b \<and> pcb_phase b = Established) \<and> (case p of None \<Rightarrow> True | Some d \<Rightarrow> recv_fits d))"
| "lwip_may (Ev_callback (Cb_err i)) c = (\<exists>b. pcbs c i = Some b \<and> pcb_phase b \<noteq> Closed_pcb)"
| "lwip_may (Ev_tick ch has_ip) c = new_ok ch"

fun handle_event :: "event \<Rightarrow> Contestant \<Rightarrow> Contestant option" where
  "handle_event (Ev_callback cb) c = run_callback cb c"
| "handle_event (Ev_tick ch has_ip) c =
     (case contestant_tick ch has_ip c of None \<Rightarrow> None | Some c \<Rightarrow> Some (c\<lparr>quiet := True\<rparr>))"

inductive reachable :: "Contestant \<Rightarrow> Contestant \<Rightarrow> bool" for c0 where
  reach_refl: "reachable c0 c0"
| reach_step: "reachable c0 c \<Longrightarrow> lwip_may ev c \<Longrightarrow> handle_event ev c = Some c' \<Longrightarrow> reachable c0 c'"

inductive_cases reach_stepE: "reachable c0 c"

section \<open>Invariant\<close>

definition pcb_of :: "Contestant \<Rightarrow> nat option \<Rightarrow> port \<Rightarrow> (pcb_phase \<Rightarrow> bool) \<Rightarrow> bool" where
  "pcb_of c p q P \<longleftrightarrow> (\<exists>i b. p = Some i \<and> pcbs c i = Some b \<and> pcb_errf b = Some q \<and>
     pcb_recvf b = Some q \<and> P (pcb_phase b))"

text \<open>The pointers of the client and the live pcbs agree, and what each state says of them.\<close>

definition pcbs_wf :: "Contestant \<Rightarrow> bool" where
  "pcbs_wf c \<longleftrightarrow> dom (pcbs c) = set_option (conn_10001 c) \<union> set_option (conn_10002 c) \<and>
     set_option (conn_10001 c) \<inter> set_option (conn_10002 c) = {} \<and>
     (\<forall>i \<in> dom (pcbs c). i < pcb_next c) \<and>
     (conn_10001 c = None \<or> pcb_of c (conn_10001 c) P10001 (\<lambda>_. True)) \<and>
     (conn_10002 c = None \<or> pcb_of c (conn_10002 c) P10002 (\<lambda>_. True))"

definition state_wf :: "Contestant \<Rightarrow> bool" where
  "state_wf c = (case c_state c of
     S_NOT_CONNECTED \<Rightarrow> conn_10001 c = None \<and> conn_10002 c = None
   | S_CONNECTING_10002 \<Rightarrow> conn_10001 c = None \<and> pcb_of c (conn_10002 c) P10002 (\<lambda>x. x \<noteq> Established)
   | S_CONNECTING_10001 \<Rightarrow> pcb_of c (conn_10001 c) P10001 (\<lambda>x. x \<noteq> Established) \<and>
       pcb_of c (conn_10002 c) P10002 (\<lambda>x. x = Established)
   | S_CONNECTED \<Rightarrow> pcb_of c (conn_10001 c) P10001 (\<lambda>x. x = Established) \<and>
       pcb_of c (conn_10002 c) P10002 (\<lambda>x. x = Established)
   | S_ABORT_NEXT_TICK \<Rightarrow> \<not> quiet c)"

definition cinv :: "Contestant \<Rightarrow> bool" where
  "cinv c \<longleftrightarrow> solver_ready (c_solver c) \<and> pcbs_wf c \<and> state_wf c"

section \<open>Calls of the solver\<close>

definition send_calls :: "Contestant \<Rightarrow> bytes \<Rightarrow> call list" where
  "send_calls c buf = (if c_state c = S_CONNECTED \<and> \<not> do_not_send_answer c
     then [Tcp_write (the (conn_10002 c)) buf, Tcp_output (the (conn_10002 c))] else [])"

text \<open>Answers go to a live pcb.\<close>

definition can_answer :: "Contestant \<Rightarrow> bool" where
  "can_answer c \<longleftrightarrow> (c_state c = S_CONNECTED \<longrightarrow> (\<exists>i b. conn_10002 c = Some i \<and> pcbs c i = Some b))"

lemma contestant_send_ok:
  "can_answer c \<Longrightarrow> contestant_send buf c = Some (c\<lparr>calls := calls c @ send_calls c buf\<rparr>)"
  by (auto simp: can_answer_def contestant_send_def send_calls_def tcp_write_def tcp_output_def
      use_pcb_def log_call_def)

lemma send_calls_calls [simp]: "send_calls (c\<lparr>calls := x\<rparr>) = send_calls c"
  by (simp add: send_calls_def fun_eq_iff)

lemma send_calls_solver [simp]: "send_calls (c\<lparr>c_solver := x\<rparr>) = send_calls c"
  by (simp add: send_calls_def fun_eq_iff)

lemma can_answer_simps [simp]: "can_answer (c\<lparr>calls := x\<rparr>) = can_answer c"
  "can_answer (c\<lparr>c_solver := y\<rparr>) = can_answer c"
  "can_answer (c\<lparr>last_recv_len := z\<rparr>) = can_answer c"
  by (simp_all add: can_answer_def)

lemma contestant_sends_ok:
  "can_answer c \<Longrightarrow> for_opt contestant_send msgs c =
     Some (c\<lparr>calls := calls c @ concat (map (send_calls c) msgs)\<rparr>)"
  by (induction msgs arbitrary: c) (simp_all add: contestant_send_ok)

lemma with_solver_ok:
  assumes "can_answer c" "f (c_solver c) = Some s" "r_sent (reporter s) = r_sent (reporter (c_solver c)) @ msgs"
  shows "with_solver f c =
    Some (c\<lparr>c_solver := s, calls := calls c @ concat (map (send_calls c) msgs)\<rparr>)"
  using assms by (simp add: with_solver_def contestant_sends_ok)

lemma r_sent_grows: "r_sent (reporter s) = r_sent (reporter s) @ []" by simp

text \<open>One packet: \<open>recv_input\<close>, then \<open>print_stat\<close>.\<close>

lemma feed_ok:
  assumes "can_answer c" "solver_ready (c_solver c)" "packet_ok buf"
  obtains s1 s2 where
    "with_solver (recv_input buf) c = Some (c\<lparr>c_solver := s1, calls := calls c @
       concat (map (send_calls c \<circ> http_message) (submissions (take N (digits (c_solver c)) @ map char_digit buf)))\<rparr>)"
    "\<forall>c'. can_answer c' \<and> c_solver c' = s1 \<longrightarrow> with_solver solver_print_stat c' = Some (c'\<lparr>c_solver := s2\<rparr>)"
    "solver_ready s2" "take N (digits s2) = drop (length buf) (take N (digits (c_solver c)) @ map char_digit buf)"
proof -
  let ?w = "take N (digits (c_solver c)) @ map char_digit buf"
  have buf: "digit_bytes buf" "1 \<le> length buf" "length buf \<le> MAX_BATCH_SIZE"
    using assms(3) by (auto simp: packet_ok_def)
  obtain s1 where s1: "recv_input buf (c_solver c) = Some s1" "solver_base s1"
    "take N (digits s1) = drop (length buf) ?w"
    "reporter s1 = fold (\<lambda>(m, w). submit m w) (all_found ?w) ((reporter (c_solver c))\<lparr>last_recv_tsc :=
      rdtsc_now (reporter (c_solver c)), r_reads := r_reads (reporter (c_solver c)) + 1\<rparr>)"
    by (rule recv_input_correct[OF assms(2) buf, unfolded buffer_after_def])
  have sent: "r_sent (reporter s1) = r_sent (reporter (c_solver c)) @ map http_message (submissions ?w)"
    by (simp add: s1(4) r_sent_fold_submit submissions_def)
  obtain s2 where s2: "solver_print_stat s1 = Some s2" "solver_ready s2" "digits s2 = digits s1"
    "r_sent (reporter s2) = r_sent (reporter s1)"
    by (rule solver_print_stat_correct[OF s1(2)])
  show ?thesis
  proof (rule that)
    show "with_solver (recv_input buf) c = Some (c\<lparr>c_solver := s1, calls := calls c @
        concat (map (send_calls c \<circ> http_message) (submissions ?w))\<rparr>)"
      using with_solver_ok[where f = "recv_input buf", OF assms(1) s1(1) sent] by simp
    show "\<forall>c'. can_answer c' \<and> c_solver c' = s1 \<longrightarrow> with_solver solver_print_stat c' = Some (c'\<lparr>c_solver := s2\<rparr>)"
      using with_solver_ok[where f = solver_print_stat and msgs = "[]" and s = s2] s2 by simp
  qed (use s2 s1 in simp_all)
qed

section \<open>Every event keeps the invariant\<close>

lemma sint_u8: "sint (x :: u8) = (if uint x < 128 then uint x else uint x - 256)"
proof -
  have "sint x = (uint x + 128) mod 256 - 128"
    by (simp add: sint_uint signed_take_bit_eq_take_bit_shift take_bit_eq_mod)
  moreover have "0 \<le> uint x" "uint x < 256" using uint_lt2p[of x] by simp_all
  ultimately show ?thesis by (auto simp: mod_pos_geq)
qed

lemma digit_byte_sint: "sint (x :: u8) \<ge> 48 \<and> sint x \<le> 57 \<longleftrightarrow> 48 \<le> x \<and> x \<le> 57"
  using uint_lt2p[of x] by (auto simp: sint_u8 word_le_def)

lemma has_non_digits_iff: "has_non_digits buf \<longleftrightarrow> \<not> digit_bytes buf"
  by (simp add: has_non_digits_def digit_bytes_def digit_byte_sint list_ex_iff)

lemmas lwip_defs = tcp_new_def tcp_nagle_disable_def tcp_err_def tcp_recv_def tcp_connect_def
  tcp_recved_def use_pcb_def log_call_def c_assert_def Let_def

definition new_pcb :: "lwip_choice \<Rightarrow> port \<Rightarrow> Pcb" where
  "new_pcb ch p = \<lparr>pcb_errf = Some p, pcb_recvf = Some p,
     pcb_phase = (if connect_ok ch then Syn_sent else Closed_pcb)\<rparr>"

lemma tcp_setup_eq:
  assumes "pcbs c i = Some \<lparr>pcb_errf = None, pcb_recvf = None, pcb_phase = Closed_pcb\<rparr>"
  shows "do { c \<leftarrow> tcp_nagle_disable i c; c \<leftarrow> tcp_err i p c; c \<leftarrow> tcp_recv i p c; tcp_connect ch i n c } =
    Some (c\<lparr>pcbs := (pcbs c)(i \<mapsto> new_pcb ch p),
      calls := calls c @ [Tcp_nagle_disable i, Tcp_connect i (server_ip c) n]\<rparr>)"
  using assms by (cases c) (simp add: lwip_defs new_pcb_def)

lemma start_connecting_eq:
  assumes "new_ok ch"
  shows "start_connecting ch c = Some (c\<lparr>c_state := S_CONNECTING_10002,
     conn_10002 := Some (pcb_next c), pcb_next := Suc (pcb_next c),
     pcbs := (pcbs c)(pcb_next c \<mapsto> new_pcb ch P10002),
     calls := calls c @ [Tcp_nagle_disable (pcb_next c), Tcp_connect (pcb_next c) (server_ip c) 10002]\<rparr>)"
proof -
  let ?c = "c\<lparr>c_state := S_CONNECTING_10002, pcb_next := Suc (pcb_next c),
    pcbs := (pcbs c)(pcb_next c \<mapsto> \<lparr>pcb_errf = None, pcb_recvf = None, pcb_phase = Closed_pcb\<rparr>),
    conn_10002 := Some (pcb_next c)\<rparr>"
  have "start_connecting ch c = do { c \<leftarrow> tcp_nagle_disable (pcb_next c) ?c; c' \<leftarrow> tcp_err (pcb_next ?c - 1) P10002 c;
      c'' \<leftarrow> tcp_recv (pcb_next ?c - 1) P10002 c'; tcp_connect ch (pcb_next ?c - 1) 10002 c'' }"
    using assms by (simp add: start_connecting_def tcp_new_def c_assert_def Let_def)
  also have "\<dots> = Some (?c\<lparr>pcbs := (pcbs ?c)(pcb_next c \<mapsto> new_pcb ch P10002),
      calls := calls ?c @ [Tcp_nagle_disable (pcb_next c), Tcp_connect (pcb_next c) (server_ip ?c) 10002]\<rparr>)"
    using tcp_setup_eq[of ?c "pcb_next c" P10002 ch 10002] by simp
  finally show ?thesis by (cases c) simp
qed

lemma start_connecting_10001_eq:
  assumes "new_ok ch"
  shows "start_connecting_10001 ch c = Some (c\<lparr>c_state := S_CONNECTING_10001,
     conn_10001 := Some (pcb_next c), pcb_next := Suc (pcb_next c),
     pcbs := (pcbs c)(pcb_next c \<mapsto> new_pcb ch P10001),
     calls := calls c @ [Tcp_nagle_disable (pcb_next c), Tcp_connect (pcb_next c) (server_ip c) 10001]\<rparr>)"
proof -
  let ?c = "c\<lparr>c_state := S_CONNECTING_10001, pcb_next := Suc (pcb_next c),
    pcbs := (pcbs c)(pcb_next c \<mapsto> \<lparr>pcb_errf = None, pcb_recvf = None, pcb_phase = Closed_pcb\<rparr>),
    conn_10001 := Some (pcb_next c)\<rparr>"
  have "start_connecting_10001 ch c = do { c \<leftarrow> tcp_nagle_disable (pcb_next c) ?c; c' \<leftarrow> tcp_err (pcb_next ?c - 1) P10001 c;
      c'' \<leftarrow> tcp_recv (pcb_next ?c - 1) P10001 c'; tcp_connect ch (pcb_next ?c - 1) 10001 c'' }"
    using assms by (simp add: start_connecting_10001_def tcp_new_def c_assert_def Let_def)
  also have "\<dots> = Some (?c\<lparr>pcbs := (pcbs ?c)(pcb_next c \<mapsto> new_pcb ch P10001),
      calls := calls ?c @ [Tcp_nagle_disable (pcb_next c), Tcp_connect (pcb_next c) (server_ip ?c) 10001]\<rparr>)"
    using tcp_setup_eq[of ?c "pcb_next c" P10001 ch 10001] by simp
  finally show ?thesis by (cases c) simp
qed

lemma start_connecting_wf:
  assumes "pcbs_wf c" "conn_10001 c = None" "conn_10002 c = None" "new_ok ch" "start_connecting ch c = Some c'"
  shows "pcbs_wf c' \<and> state_wf c' \<and> c_solver c' = c_solver c"
proof -
  have "pcbs c = Map.empty" using assms by (simp add: pcbs_wf_def)
  then show ?thesis
    using assms by (auto simp: start_connecting_eq pcbs_wf_def state_wf_def pcb_of_def new_pcb_def
        split: if_splits)
qed

lemma start_connecting_10001_wf:
  assumes "pcbs_wf c" "conn_10001 c = None" "pcb_of c (conn_10002 c) P10002 (\<lambda>x. x = Established)"
    "new_ok ch" "start_connecting_10001 ch c = Some c'"
  shows "pcbs_wf c' \<and> state_wf c' \<and> c_solver c' = c_solver c"
proof -
  obtain j b where j: "conn_10002 c = Some j" "pcbs c j = Some b" "pcb_errf b = Some P10002"
    "pcb_recvf b = Some P10002" "pcb_phase b = Established" "j < pcb_next c"
    using assms by (auto simp: pcb_of_def pcbs_wf_def)
  moreover from this have "dom (pcbs c) = {j}" using assms by (simp add: pcbs_wf_def)
  moreover have "c' = c\<lparr>c_state := S_CONNECTING_10001,
     conn_10001 := Some (pcb_next c), pcb_next := Suc (pcb_next c),
     pcbs := (pcbs c)(pcb_next c \<mapsto> new_pcb ch P10001),
     calls := calls c @ [Tcp_nagle_disable (pcb_next c), Tcp_connect (pcb_next c) (server_ip c) 10001]\<rparr>"
    using assms by (simp add: start_connecting_10001_eq)
  ultimately show ?thesis
    using assms(2) by (auto simp: pcbs_wf_def state_wf_def pcb_of_def new_pcb_def)
qed

lemma can_answer_if: "pcbs_wf c \<Longrightarrow> state_wf c \<Longrightarrow> can_answer c"
  by (auto simp: can_answer_def state_wf_def pcb_of_def)

lemma wf_simps [simp]:
  "pcbs_wf (c\<lparr>c_solver := s\<rparr>) = pcbs_wf c" "pcbs_wf (c\<lparr>calls := l\<rparr>) = pcbs_wf c"
  "pcbs_wf (c\<lparr>last_recv_len := n\<rparr>) = pcbs_wf c" "pcbs_wf (c\<lparr>quiet := q\<rparr>) = pcbs_wf c"
  "pcbs_wf (c\<lparr>c_state := x\<rparr>) = pcbs_wf c"
  "state_wf (c\<lparr>c_solver := s\<rparr>) = state_wf c" "state_wf (c\<lparr>calls := l\<rparr>) = state_wf c"
  "state_wf (c\<lparr>last_recv_len := n\<rparr>) = state_wf c"
  by (simp_all add: pcbs_wf_def state_wf_def pcb_of_def split: conn_state.splits)

lemma state_wf_abort: "c_state c = S_ABORT_NEXT_TICK \<Longrightarrow> \<not> quiet c \<Longrightarrow> state_wf c"
  by (simp add: state_wf_def)

lemma tcp_connected_fn_ok:
  assumes "cinv c" "lwip_may (Ev_callback (Cb_connected i ch)) c"
  shows "\<exists>c'. run_callback (Cb_connected i ch) c = Some c' \<and> cinv c'"
proof -
  obtain b where b: "pcbs c i = Some b" "pcb_phase b = Syn_sent" and q: "quiet c" and n: "new_ok ch"
    using assms(2) by auto
  let ?c = "c\<lparr>quiet := False, pcbs := (pcbs c)(i \<mapsto> b\<lparr>pcb_phase := Established\<rparr>)\<rparr>"
  have wf: "pcbs_wf c" and sw: "state_wf c" and rdy: "solver_ready (c_solver c)"
    using assms(1) by (simp_all add: cinv_def)
  have run: "run_callback (Cb_connected i ch) c = tcp_connected_fn ch ?c"
    using b by (simp add: run_callback_def use_pcb_def Let_def)
  have wf': "pcbs_wf ?c" using wf b by (auto simp: pcbs_wf_def pcb_of_def)
  have iconn: "i \<in> set_option (conn_10001 c) \<union> set_option (conn_10002 c)"
    using wf b by (auto simp: pcbs_wf_def)
  consider "c_state c = S_CONNECTING_10002" | "c_state c = S_CONNECTING_10001"
    using sw q iconn b by (cases "c_state c") (auto simp: state_wf_def pcb_of_def)
  then show ?thesis
  proof cases
    case 1
    then have c10001: "conn_10001 ?c = None" and "pcb_of ?c (conn_10002 ?c) P10002 (\<lambda>x. x = Established)"
      using sw iconn b by (auto simp: state_wf_def pcb_of_def)
    moreover obtain c' where c': "start_connecting_10001 ch ?c = Some c'"
      using start_connecting_10001_eq[OF n] by blast
    ultimately have "pcbs_wf c' \<and> state_wf c' \<and> c_solver c' = c_solver c"
      using start_connecting_10001_wf[OF wf' _ _ n c'] by simp
    with c' 1 rdy run show ?thesis by (auto simp: tcp_connected_fn_def cinv_def)
  next
    case 2
    let ?d = "?c\<lparr>c_state := S_CONNECTED\<rparr>"
    have dwf: "pcbs_wf ?d" using wf' by simp
    have st: "state_wf ?d" using sw iconn b 2 by (auto simp: state_wf_def pcb_of_def)
    have ca: "can_answer ?d" by (rule can_answer_if[OF dwf st])
    have pk: "packet_ok invalid_buffer"
      by (simp add: packet_ok_def invalid_buffer_def digit_bytes_def MAX_BATCH_SIZE_def)
    have rdy': "solver_ready (c_solver ?d)" using rdy by simp
    obtain s1 s2 where f: "with_solver (recv_input invalid_buffer) ?d = Some (?d\<lparr>c_solver := s1, calls := calls ?d @
       concat (map (send_calls ?d \<circ> http_message) (submissions (take N (digits (c_solver ?d)) @ map char_digit invalid_buffer)))\<rparr>)"
    "\<forall>c'. can_answer c' \<and> c_solver c' = s1 \<longrightarrow> with_solver solver_print_stat c' = Some (c'\<lparr>c_solver := s2\<rparr>)"
    "solver_ready s2" "take N (digits s2) = drop (length invalid_buffer) (take N (digits (c_solver ?d)) @ map char_digit invalid_buffer)"
      by (rule feed_ok[OF ca rdy' pk])
    show ?thesis
      unfolding run using 2 ca f(3) dwf st
      by (simp add: tcp_connected_fn_def c_assert_def Let_def f(1,2) cinv_def)
  qed
qed

lemma recv_fn_10001_digits:
  assumes "can_answer c" "solver_ready (c_solver c)" "pcbs c i = Some b" "packet_ok d"
  obtains s where "tcp_recv_fn_10001 i (Some d) c = Some (c\<lparr>c_solver := s, last_recv_len := length d,
      calls := calls c @ [Tcp_recved i (length d)] @ concat (map (send_calls c \<circ> http_message)
        (submissions (take N (digits (c_solver c)) @ map char_digit d))) @ [Pbuf_free]\<rparr>)"
    "solver_ready s" "take N (digits s) = drop (length d) (take N (digits (c_solver c)) @ map char_digit d)"
proof -
  have d: "length d \<le> MTU" "digit_bytes d" using assms(4) by (auto simp: packet_ok_def MTU_def MAX_BATCH_SIZE_def)
  let ?c = "log_call (Tcp_recved i (length d)) c"
  let ?w = "take N (digits (c_solver ?c)) @ map char_digit d"
  have rc: "tcp_recved i (length d) c = Some ?c" using assms(3) by (simp add: tcp_recved_def use_pcb_def)
  have buf: "wr_range (replicate MTU 0) 0 d = Some (blit (replicate MTU 0) 0 d)"
    "take (length d) (blit (replicate MTU 0) 0 d) = d"
    using d by (simp_all add: wr_range_in blit_def)
  have ca: "can_answer ?c" and rdy: "solver_ready (c_solver ?c)" using assms by (simp_all add: log_call_def)
  obtain s1 s2 where f: "with_solver (recv_input d) ?c = Some (?c\<lparr>c_solver := s1, calls := calls ?c @
       concat (map (send_calls ?c \<circ> http_message) (submissions ?w))\<rparr>)"
    "\<forall>c'. can_answer c' \<and> c_solver c' = s1 \<longrightarrow> with_solver solver_print_stat c' = Some (c'\<lparr>c_solver := s2\<rparr>)"
    "solver_ready s2" "take N (digits s2) = drop (length d) ?w" by (rule feed_ok[OF ca rdy assms(4)])
  have run: "tcp_recv_fn_10001 i (Some d) c = Some (log_call Pbuf_free (?c\<lparr>calls := calls ?c @
     concat (map (send_calls ?c \<circ> http_message) (submissions ?w)), last_recv_len := length d, c_solver := s2\<rparr>))"
    using d ca by (simp add: tcp_recv_fn_10001_def rc buf has_non_digits_iff f(1,2) Let_def)
  show ?thesis
  proof (rule that[of s2])
    show "tcp_recv_fn_10001 i (Some d) c = Some (c\<lparr>c_solver := s2, last_recv_len := length d,
      calls := calls c @ [Tcp_recved i (length d)] @ concat (map (send_calls c \<circ> http_message)
        (submissions (take N (digits (c_solver c)) @ map char_digit d))) @ [Pbuf_free]\<rparr>)"
    proof -
      have "send_calls ?c = send_calls c" by (simp add: log_call_def)
      then show ?thesis unfolding run by (simp only:) (cases c, simp add: log_call_def)
    qed
  qed (use f(3,4) in \<open>simp_all add: log_call_def\<close>)
qed

lemma recv_fn_10001_other:
  assumes "pcbs c i = Some b" "length d \<le> MTU" "\<not> digit_bytes d"
  shows "tcp_recv_fn_10001 i (Some d) c = Some (c\<lparr>calls := calls c @ [Tcp_recved i (length d), Pbuf_free]\<rparr>)"
proof -
  have "wr_range (replicate MTU 0) 0 d = Some (blit (replicate MTU 0) 0 d)"
    "take (length d) (blit (replicate MTU 0) 0 d) = d"
    using assms(2) by (simp_all add: wr_range_in blit_def)
  then show ?thesis
    using assms by (simp add: tcp_recv_fn_10001_def tcp_recved_def use_pcb_def log_call_def has_non_digits_iff Let_def)
qed

lemma recv_fn_10001_ok:
  assumes "cinv c" "\<not> quiet c" "pcbs c i = Some b" "case p of None \<Rightarrow> True | Some d \<Rightarrow> recv_fits d"
  shows "\<exists>c'. tcp_recv_fn_10001 i p c = Some c' \<and> cinv c'"
proof (cases p)
  case None
  then show ?thesis using assms by (auto simp: tcp_recv_fn_10001_def cinv_def state_wf_def)
next
  case (Some d)
  then have d: "length d \<le> MTU" "digit_bytes d \<Longrightarrow> packet_ok d"
    using assms(4) by (auto simp: recv_fits_def packet_ok_def Suc_le_eq)
  have c: "can_answer c" "solver_ready (c_solver c)" using assms(1) can_answer_if by (auto simp: cinv_def)
  show ?thesis
  proof (cases "digit_bytes d")
    case False
    then show ?thesis using assms(1) recv_fn_10001_other[OF assms(3) d(1)] by (simp add: Some cinv_def)
  next
    case True
    show ?thesis
      by (rule recv_fn_10001_digits[OF c assms(3) d(2)[OF True]]) (use assms(1) in \<open>simp add: Some cinv_def\<close>)
  qed
qed

lemma recv_ok:
  assumes "cinv c" "lwip_may (Ev_callback (Cb_recv i p)) c"
  shows "\<exists>c'. run_callback (Cb_recv i p) c = Some c' \<and> cinv c'"
proof -
  let ?c = "c\<lparr>quiet := False\<rparr>"
  obtain b where b: "pcbs ?c i = Some b" and p: "case p of None \<Rightarrow> True | Some d \<Rightarrow> recv_fits d"
    using assms(2) by auto
  have ci: "cinv ?c" using assms(1) by (auto simp: cinv_def state_wf_def pcb_of_def split: conn_state.splits)
  have wf: "pcbs_wf ?c" using ci by (simp add: cinv_def)
  have "i \<in> set_option (conn_10001 ?c) \<union> set_option (conn_10002 ?c)" using b wf by (auto simp: pcbs_wf_def)
  then consider "pcb_recvf b = Some P10001" | "pcb_recvf b = Some P10002"
    using wf b by (auto simp: pcbs_wf_def pcb_of_def)
  then show ?thesis
  proof cases
    case 1
    then have "run_callback (Cb_recv i p) c = tcp_recv_fn_10001 i p ?c"
      using b by (simp add: run_callback_def use_pcb_def Let_def)
    with recv_fn_10001_ok[OF ci _ b p] show ?thesis by simp
  next
    case 2
    then have "run_callback (Cb_recv i p) c = tcp_recv_fn_10002 i p ?c"
      using b by (simp add: run_callback_def use_pcb_def Let_def)
    moreover have "\<exists>c'. tcp_recv_fn_10002 i p ?c = Some c' \<and> cinv c'"
      using b ci by (cases p) (auto simp: tcp_recv_fn_10002_def cinv_def state_wf_abort lwip_defs)
    ultimately show ?thesis by simp
  qed
qed

text \<open>A failed or aborted connection leaves the pointers and the pcbs in agreement.\<close>

lemma errf_wf:
  assumes "pcbs_wf c" "pcbs c i = Some b"
  shows "pcbs_wf (errf (pcb_errf b) (c\<lparr>pcbs := (pcbs c)(i := None)\<rparr>))"
    "c_state (errf (pcb_errf b) (c\<lparr>pcbs := (pcbs c)(i := None)\<rparr>)) = S_ABORT_NEXT_TICK"
proof -
  have "i \<in> set_option (conn_10001 c) \<union> set_option (conn_10002 c)" using assms by (auto simp: pcbs_wf_def)
  then consider "conn_10001 c = Some i" "pcb_errf b = Some P10001" "conn_10002 c \<noteq> Some i"
    | "conn_10002 c = Some i" "pcb_errf b = Some P10002" "conn_10001 c \<noteq> Some i"
    using assms by (auto simp: pcbs_wf_def pcb_of_def)
  then show "pcbs_wf (errf (pcb_errf b) (c\<lparr>pcbs := (pcbs c)(i := None)\<rparr>))"
    "c_state (errf (pcb_errf b) (c\<lparr>pcbs := (pcbs c)(i := None)\<rparr>)) = S_ABORT_NEXT_TICK"
    by (cases; use assms in \<open>auto simp: errf_def tcp_err_fn_10001_def tcp_err_fn_10002_def pcbs_wf_def pcb_of_def\<close>)+
qed

lemma errf_simps [simp]: "c_solver (errf p c) = c_solver c" "quiet (errf p c) = quiet c"
  by (auto simp: errf_def tcp_err_fn_10001_def tcp_err_fn_10002_def split: option.splits port.splits)

lemma err_ok:
  assumes "cinv c" "lwip_may (Ev_callback (Cb_err i)) c"
  shows "\<exists>c'. run_callback (Cb_err i) c = Some c' \<and> cinv c' \<and> c_state c' = S_ABORT_NEXT_TICK"
proof -
  let ?c = "c\<lparr>quiet := False\<rparr>"
  obtain b where b: "pcbs ?c i = Some b" using assms(2) by auto
  have wf: "pcbs_wf ?c" using assms(1) by (simp add: cinv_def)
  note e = errf_wf[OF wf b]
  have "run_callback (Cb_err i) c = Some (errf (pcb_errf b) (?c\<lparr>pcbs := (pcbs ?c)(i := None)\<rparr>))"
    using b by (simp add: run_callback_def use_pcb_def Let_def)
  with e assms(1) show ?thesis by (auto simp: cinv_def state_wf_def)
qed

lemma tcp_abort_wf:
  assumes "pcbs_wf c" "pcbs c i = Some b"
  obtains c' where "tcp_abort i c = Some c'" "pcbs_wf c'" "c_solver c' = c_solver c"
    "conn_10001 c' = (if pcb_errf b = Some P10001 then None else conn_10001 c)"
    "conn_10002 c' = (if pcb_errf b = Some P10002 then None else conn_10002 c)"
proof -
  let ?d = "log_call (Tcp_abort i) (c\<lparr>pcbs := (pcbs c)(i := None)\<rparr>)"
  have run: "tcp_abort i c = Some (errf (pcb_errf b) ?d)"
    using assms by (simp add: tcp_abort_def use_pcb_def)
  have "errf (pcb_errf b) ?d = log_call (Tcp_abort i) (errf (pcb_errf b) (c\<lparr>pcbs := (pcbs c)(i := None)\<rparr>))"
    by (auto simp: errf_def log_call_def tcp_err_fn_10001_def tcp_err_fn_10002_def split: option.splits port.splits)
  then have "pcbs_wf (errf (pcb_errf b) ?d)" using errf_wf(1)[OF assms] by (simp add: log_call_def)
  with run that show ?thesis
    by (auto simp: errf_def log_call_def tcp_err_fn_10001_def tcp_err_fn_10002_def split: option.splits port.splits)
qed

lemma tick_abort:
  assumes "pcbs_wf c" "c_state c = S_ABORT_NEXT_TICK"
  obtains c' where "contestant_tick ch has_ip c = Some c'" "c_state c' = S_NOT_CONNECTED"
    "conn_10001 c' = None" "conn_10002 c' = None" "pcbs c' = Map.empty" "pcbs_wf c'" "c_solver c' = c_solver c"
proof -
  obtain c1 where c1: "abort_conn (conn_10001 c) (\<lambda>c. c\<lparr>conn_10001 := None\<rparr>) c = Some c1" "pcbs_wf c1"
    "conn_10001 c1 = None" "conn_10002 c1 = conn_10002 c" "c_solver c1 = c_solver c"
  proof (cases "conn_10001 c")
    case None
    with assms that show ?thesis by (simp add: abort_conn_def)
  next
    case (Some i)
    then obtain b where b: "pcbs c i = Some b" "pcb_errf b = Some P10001"
      using assms by (auto simp: pcbs_wf_def pcb_of_def)
    obtain c1 where "tcp_abort i c = Some c1" "pcbs_wf c1" "c_solver c1 = c_solver c"
      "conn_10001 c1 = None" "conn_10002 c1 = conn_10002 c"
      using tcp_abort_wf[OF assms(1) b(1)] b(2) by auto
    with Some that[of c1] show ?thesis by (simp add: abort_conn_def)
  qed
  obtain c2 where c2: "abort_conn (conn_10002 c1) (\<lambda>c. c\<lparr>conn_10002 := None\<rparr>) c1 = Some c2" "pcbs_wf c2"
    "conn_10001 c2 = None" "conn_10002 c2 = None" "c_solver c2 = c_solver c1"
  proof (cases "conn_10002 c1")
    case None
    with c1 that show ?thesis by (simp add: abort_conn_def)
  next
    case (Some i)
    then obtain b where b: "pcbs c1 i = Some b" "pcb_errf b = Some P10002"
      using c1(2) by (auto simp: pcbs_wf_def pcb_of_def)
    obtain c2 where "tcp_abort i c1 = Some c2" "pcbs_wf c2" "c_solver c2 = c_solver c1"
      "conn_10001 c2 = None" "conn_10002 c2 = None"
      using tcp_abort_wf[OF c1(2) b(1)] b(2) c1(3) by auto
    with Some that[of c2] show ?thesis by (simp add: abort_conn_def)
  qed
  have "pcbs c2 = Map.empty" using c2 by (simp add: pcbs_wf_def)
  with c1 c2 assms(2) that[of "c2\<lparr>c_state := S_NOT_CONNECTED\<rparr>"] show ?thesis
    by (simp add: contestant_tick_def)
qed

lemma state_wf_quiet: "c_state c \<noteq> S_ABORT_NEXT_TICK \<Longrightarrow> state_wf (c\<lparr>quiet := q\<rparr>) = state_wf c"
  by (simp add: state_wf_def pcb_of_def split: conn_state.splits)

lemma tick_ok:
  assumes "cinv c" "new_ok ch"
  shows "\<exists>c'. contestant_tick ch has_ip c = Some c' \<and> cinv (c'\<lparr>quiet := True\<rparr>)"
proof (cases "c_state c = S_ABORT_NEXT_TICK")
  case True
  have wf: "pcbs_wf c" using assms(1) by (simp add: cinv_def)
  show ?thesis
    by (rule tick_abort[OF wf True, of ch has_ip]) (use assms(1) in \<open>simp add: cinv_def state_wf_def\<close>)
next
  case False
  note q = state_wf_quiet[of _ True]
  show ?thesis
  proof (cases "c_state c = S_NOT_CONNECTED \<and> has_ip")
    case True
    then have c: "pcbs_wf c" "conn_10001 c = None" "conn_10002 c = None"
      using assms(1) by (auto simp: cinv_def state_wf_def)
    obtain c' where c': "start_connecting ch c = Some c'" "c_state c' = S_CONNECTING_10002"
      using start_connecting_eq[OF assms(2), of c] by simp
    from start_connecting_wf[OF c assms(2) c'(1)] c' True assms(1) show ?thesis
      by (simp add: contestant_tick_def cinv_def q)
  next
    case no: False
    then show ?thesis using False assms(1) by (auto simp: contestant_tick_def cinv_def q)
  qed
qed

lemma event_ok:
  assumes "cinv c" "lwip_may ev c"
  shows "\<exists>c'. handle_event ev c = Some c' \<and> cinv c'"
proof (cases ev)
  case (Ev_callback cb)
  then show ?thesis
    using assms tcp_connected_fn_ok recv_ok err_ok by (cases cb) fastforce+
next
  case (Ev_tick ch has_ip)
  then show ?thesis using assms tick_ok[of c ch has_ip] by fastforce
qed

lemma reachable_cinv: "reachable c0 c \<Longrightarrow> cinv c0 \<Longrightarrow> cinv c"
proof (induction rule: reachable.induct)
  case (reach_step c ev c')
  then show ?case using event_ok[of c ev] by auto
qed

section \<open>Start-up and the loop\<close>

lemma packet_ok_invalid_buffer: "packet_ok invalid_buffer"
  by (simp add: packet_ok_def invalid_buffer_def digit_bytes_def MAX_BATCH_SIZE_def)

lemma recv_1e7_from_ok: "solver_ready s \<Longrightarrow> \<exists>s'. recv_1e7_from i s = Some s' \<and> solver_ready s'"
proof (induction i s rule: recv_1e7_from.induct)
  case (1 i s)
  show ?case
  proof (cases "i < 10000000")
    case True
    have buf: "digit_bytes invalid_buffer" "1 \<le> length invalid_buffer" "length invalid_buffer \<le> MAX_BATCH_SIZE"
      using packet_ok_invalid_buffer by (auto simp: packet_ok_def)
    obtain s1 where s1: "recv_input invalid_buffer s = Some s1" "solver_base s1"
      by (rule recv_input_correct[OF 1(2) buf])
    obtain s2 where s2: "prepare s1 = Some s2" "solver_ready s2" by (rule prepare_ready[OF s1(2)])
    from 1(1)[OF True s1(1) s2] True s1 s2 show ?thesis by (subst recv_1e7_from.simps) simp
  qed (simp add: 1 recv_1e7_from.simps)
qed

lemma read_tsc_ready: "solver_ready (snd (read_tsc s)) = solver_ready s"
  by (simp add: read_tsc_def solver_ready_def solver_base_def rep_wf_def)

lemma do_benchmark_ok:
  assumes "solver_ready s" "\<And>s. solver_ready s \<Longrightarrow> \<exists>s'. func s = Some s' \<and> solver_ready s'"
  shows "\<exists>r s'. do_benchmark t func s = Some (r, s') \<and> solver_ready s'"
proof -
  obtain s1 where s1: "func (snd (read_tsc s)) = Some s1" "solver_ready s1"
    using assms read_tsc_ready by blast
  then show ?thesis
    using read_tsc_ready[of s1] by (cases "read_tsc s"; cases "read_tsc s1") (simp add: do_benchmark_def)
qed

lemma benchmark_ok: "solver_ready s \<Longrightarrow> \<exists>r s'. benchmark t s = Some (r, s') \<and> solver_ready s'"
proof -
  assume s: "solver_ready s"
  obtain r1 s1 where 1: "do_benchmark t loop_1e9 s = Some (r1, s1)" "solver_ready s1"
    using do_benchmark_ok[OF s, of loop_1e9 t] by (auto simp: loop_1e9_def)
  obtain r2 s2 where 2: "do_benchmark t recv_1e7 s1 = Some (r2, s2)" "solver_ready s2"
    using do_benchmark_ok[OF 1(2), of recv_1e7 t] recv_1e7_from_ok by (auto simp: recv_1e7_def)
  from 1 2 show ?thesis by (simp add: benchmark_def)
qed

lemma contestant_init_ok:
  assumes "4 \<le> length ip"
  obtains m' c0 where "contestant_init t ip m (zero_Contestant clock q) = Some (m', c0)" "cinv c0"
    "c_state c0 = S_NOT_CONNECTED" "server_ip c0 = take 4 ip" "do_not_send_answer c0 = q" "quiet c0"
    "pcb_next c0 = 0"
proof -
  obtain s0 where s0: "solver_init (tsc_freq t) (zero_Solver clock) = Some s0" "solver_ready s0"
    by (rule solver_boot)
  have "solver_base s0" using s0 by (simp add: solver_ready_def)
  then obtain s1 where s1: "prepare s0 = Some s1" "solver_ready s1" by (rule prepare_ready)
  obtain r2 s2 where s2: "benchmark t s1 = Some (r2, s2)" "solver_ready s2"
    using benchmark_ok[OF s1(2)] by blast
  obtain r3 s3 where s3: "benchmark t s2 = Some (r3, s3)" "solver_ready s3"
    using benchmark_ok[OF s2(2)] by blast
  obtain e m' where m': "enable_turbo_boost m = (e, m')" by (cases "enable_turbo_boost m")
  let ?c = "(zero_Contestant clock q)\<lparr>c_solver := s3, server_ip := take 4 ip\<rparr>"
  have run: "contestant_init t ip m (zero_Contestant clock q) = Some (m', ?c)"
    using s0 s1 s2 s3 m' assms
    by (simp add: contestant_init_def zero_Contestant_def rd_range_def Let_def)
  have "cinv ?c" using s3 by (simp add: cinv_def zero_Contestant_def pcbs_wf_def state_wf_def)
  with run that show ?thesis by (simp add: zero_Contestant_def)
qed

text \<open>The callbacks of one iteration, each allowed when it is made.\<close>

fun callbacks_ok :: "callback list \<Rightarrow> Contestant \<Rightarrow> bool" where
  "callbacks_ok [] c = True"
| "callbacks_ok (cb # cbs) c = (lwip_may (Ev_callback cb) c \<and>
     (case run_callback cb c of None \<Rightarrow> True | Some c \<Rightarrow> callbacks_ok cbs c))"

lemma callbacks_run:
  "cinv c \<Longrightarrow> callbacks_ok cbs c \<Longrightarrow> \<exists>c'. for_opt run_callback cbs c = Some c' \<and> cinv c'"
proof (induction cbs arbitrary: c)
  case (Cons cb cbs)
  from Cons.prems event_ok[of c "Ev_callback cb"]
  obtain c1 where "run_callback cb c = Some c1" "cinv c1" by auto
  with Cons show ?case by simp
qed simp

lemma callbacks_ok_appendD: "callbacks_ok (xs @ ys) c \<Longrightarrow> callbacks_ok xs c"
  by (induction xs arbitrary: c) (auto split: option.splits)

lemma callbacks_ok_append:
  "callbacks_ok (xs @ ys) c \<Longrightarrow> for_opt run_callback xs c = Some c' \<Longrightarrow> callbacks_ok xs c \<and> callbacks_ok ys c'"
  by (induction xs arbitrary: c) (auto split: option.splits bind_splits)

lemma run_iteration_ok:
  assumes "cinv c" "length pkt = MTU + 64" "new_ok ch"
    and "callbacks_ok ((if len > 0 then in_cbs else []) @ timer_cbs) c"
  shows "\<exists>r. run_iteration pkt len in_cbs timer_cbs ch has_ip c = Some r \<and>
    (case r of Reboot \<Rightarrow> 42 \<le> len | Continue c' \<Rightarrow> cinv c' \<and> quiet c')"
proof -
  have "is_reboot_packet pkt len = Some (42 \<le> len \<and> le16 (pkt ! 36) (pkt ! 37) = htons16 23579)"
    using assms(2) by (simp add: is_reboot_packet_def MTU_def rd_def)
  then obtain b where b: "is_reboot_packet pkt len = Some b" "b \<Longrightarrow> 42 \<le> len" by blast
  show ?thesis
  proof (cases b)
    case True
    then show ?thesis using b by (simp add: run_iteration_def)
  next
    case False
    let ?in = "if len > 0 then in_cbs else []"
    have "callbacks_ok ?in c" by (rule callbacks_ok_appendD[OF assms(4)])
    then obtain c1 where c1: "for_opt run_callback ?in c = Some c1" "cinv c1"
      using callbacks_run[OF assms(1)] by blast
    then obtain c2 where c2: "for_opt run_callback timer_cbs c1 = Some c2" "cinv c2"
      using callbacks_ok_append[OF assms(4) c1(1)] callbacks_run by blast
    obtain c3 where c3: "contestant_tick ch has_ip c2 = Some c3" "cinv (c3\<lparr>quiet := True\<rparr>)"
      using tick_ok[OF c2(2) assms(3)] by blast
    have "(if len > 0 then for_opt run_callback in_cbs c else Some c) = Some c1"
      using c1 by (auto split: if_splits)
    with False b c2 c3 show ?thesis by (simp add: run_iteration_def)
  qed
qed

text \<open>The way up: a tick opens the first connection, its handshake the second one, and the second
  handshake makes the client connected, with a fresh window of nines.\<close>

lemma connected_fn_10001:
  assumes "cinv c" "quiet c" "c_state c = S_CONNECTING_10001" "conn_10001 c = Some i"
    "pcbs c i = Some b" "pcb_phase b = Syn_sent" "new_ok ch"
  obtains c' where "run_callback (Cb_connected i ch) c = Some c'" "cinv c'" "c_state c' = S_CONNECTED"
    "conn_10001 c' = conn_10001 c" "conn_10002 c' = conn_10002 c" "do_not_send_answer c' = do_not_send_answer c"
    "take N (digits (c_solver c')) = replicate N 9"
proof -
  have "lwip_may (Ev_callback (Cb_connected i ch)) c" using assms by simp
  then obtain c' where c': "run_callback (Cb_connected i ch) c = Some c'" "cinv c'"
    using tcp_connected_fn_ok[OF assms(1)] by blast
  let ?d = "c\<lparr>quiet := False, pcbs := (pcbs c)(i \<mapsto> b\<lparr>pcb_phase := Established\<rparr>), c_state := S_CONNECTED\<rparr>"
  obtain s where s: "solver_ready (c_solver ?d)" using assms(1) by (simp add: cinv_def)
  have ca: "can_answer ?d" using assms by (auto simp: cinv_def state_wf_def pcb_of_def can_answer_def)
  let ?w = "take N (digits (c_solver ?d)) @ map char_digit invalid_buffer"
  obtain s1 s2 where f: "with_solver (recv_input invalid_buffer) ?d = Some (?d\<lparr>c_solver := s1, calls := calls ?d @
       concat (map (send_calls ?d \<circ> http_message) (submissions ?w))\<rparr>)"
    "\<forall>c'. can_answer c' \<and> c_solver c' = s1 \<longrightarrow> with_solver solver_print_stat c' = Some (c'\<lparr>c_solver := s2\<rparr>)"
    "solver_ready s2" "take N (digits s2) = drop (length invalid_buffer) ?w"
    by (rule feed_ok[OF ca s packet_ok_invalid_buffer])
  have "run_callback (Cb_connected i ch) c = Some (?d\<lparr>calls := calls ?d @
       concat (map (send_calls ?d \<circ> http_message) (submissions ?w)), c_solver := s2\<rparr>)"
    using assms ca f(1,2) by (simp add: run_callback_def use_pcb_def tcp_connected_fn_def c_assert_def Let_def)
  moreover have "take N (digits s2) = replicate N 9"
  proof -
    have "length (take N (digits (c_solver c))) = N"
      using s by (simp add: solver_ready_def solver_base_def digits_ok_def)
    then show ?thesis unfolding f(4) by (simp add: invalid_buffer_def char_digit_def N_def)
  qed
  ultimately show ?thesis using c' that by auto
qed

lemma connects:
  assumes "cinv c" "c_state c = S_NOT_CONNECTED" "new_ok ch" "connect_ok ch"
  obtains c1 c2 c3 c4 where "handle_event (Ev_tick ch True) c = Some c1"
    "run_callback (Cb_connected (pcb_next c) ch) c1 = Some c2" "handle_event (Ev_tick ch True) c2 = Some c3"
    "run_callback (Cb_connected (Suc (pcb_next c)) ch) c3 = Some c4" "c_state c4 = S_CONNECTED" "cinv c4"
    "conn_10001 c4 = Some (Suc (pcb_next c))" "conn_10002 c4 = Some (pcb_next c)"
    "do_not_send_answer c4 = do_not_send_answer c" "take N (digits (c_solver c4)) = replicate N 9"
proof -
  let ?i = "pcb_next c" and ?j = "Suc (pcb_next c)"
  let ?c1 = "c\<lparr>c_state := S_CONNECTING_10002, conn_10002 := Some ?i, pcb_next := ?j,
     pcbs := (pcbs c)(?i \<mapsto> new_pcb ch P10002),
     calls := calls c @ [Tcp_nagle_disable ?i, Tcp_connect ?i (server_ip c) 10002], quiet := True\<rparr>"
  have e1: "handle_event (Ev_tick ch True) c = Some ?c1"
    using assms by (simp add: contestant_tick_def start_connecting_eq)
  then have i1: "cinv ?c1" using event_ok[OF assms(1), of "Ev_tick ch True"] assms(3) by simp
  let ?d = "?c1\<lparr>quiet := False, pcbs := (pcbs ?c1)(?i \<mapsto> (new_pcb ch P10002)\<lparr>pcb_phase := Established\<rparr>)\<rparr>"
  let ?c2 = "?d\<lparr>c_state := S_CONNECTING_10001, conn_10001 := Some ?j, pcb_next := Suc ?j,
     pcbs := (pcbs ?d)(?j \<mapsto> new_pcb ch P10001),
     calls := calls ?d @ [Tcp_nagle_disable ?j, Tcp_connect ?j (server_ip c) 10001]\<rparr>"
  have e2: "run_callback (Cb_connected ?i ch) ?c1 = Some ?c2"
    using start_connecting_10001_eq[OF assms(3), of ?d]
    by (simp add: run_callback_def use_pcb_def Let_def tcp_connected_fn_def)
  have "lwip_may (Ev_callback (Cb_connected ?i ch)) ?c1" using assms(3,4) by (simp add: new_pcb_def)
  from event_ok[OF i1 this] e2 have i2: "cinv ?c2" by simp
  let ?c3 = "?c2\<lparr>quiet := True\<rparr>"
  have e3: "handle_event (Ev_tick ch True) ?c2 = Some ?c3" by (simp add: contestant_tick_def)
  from event_ok[OF i2, of "Ev_tick ch True"] e3 assms(3) have i3: "cinv ?c3" by simp
  obtain c4 where "run_callback (Cb_connected ?j ch) ?c3 = Some c4" "cinv c4" "c_state c4 = S_CONNECTED"
    "conn_10001 c4 = conn_10001 ?c3" "conn_10002 c4 = conn_10002 ?c3"
    "do_not_send_answer c4 = do_not_send_answer ?c3" "take N (digits (c_solver c4)) = replicate N 9"
    by (rule connected_fn_10001[OF i3, of ?j "new_pcb ch P10001" ch]) (simp_all add: assms new_pcb_def)
  with e1 e2 e3 show ?thesis by (intro that[of ?c1 ?c2 ?c3 c4]) simp_all
qed

section \<open>Two gaps\<close>

text \<open>The result of \<open>tcp_connect\<close> is ignored. When it fails, lwIP makes no callback on the pcb, and the
  client stays in \<open>S_CONNECTING_10002\<close> whatever happens.\<close>

lemma failed_connect_sticks:
  assumes "reachable c c'" "pcbs_wf c" "c_state c = S_CONNECTING_10002" "conn_10001 c = None"
    "conn_10002 c = Some j" "pcbs c j = Some b" "pcb_phase b = Closed_pcb"
  shows "c' = c\<lparr>quiet := quiet c'\<rparr>"
  using assms(1)
proof (induction rule: reachable.induct)
  case (reach_step c1 ev c2)
  have same: "pcbs c1 = pcbs c" "c_state c1 = S_CONNECTING_10002"
    using assms(3) by (subst reach_step.IH; simp)+
  have closed: "pcb_phase b' = Closed_pcb" if "pcbs c1 i = Some b'" for i b'
  proof -
    have "i = j" using that same(1) assms(2,4,5) by (auto simp: pcbs_wf_def)
    then show ?thesis using that same(1) assms(6,7) by simp
  qed
  show ?case
  proof (cases ev)
    case (Ev_tick ch ip)
    then have "c2 = c1\<lparr>quiet := True\<rparr>" using reach_step.hyps(3) same(2) by (simp add: contestant_tick_def)
    then have "c2 = c\<lparr>quiet := True\<rparr>" by (subst (asm) reach_step.IH) simp
    then show ?thesis by simp
  next
    case (Ev_callback cb)
    then show ?thesis using reach_step.hyps(2) closed by (cases cb) fastforce+
  qed
qed simp

text \<open>The check before the reboot, commented as \<open>udp and dport 23579\<close>, looks at two bytes only.\<close>

lemma reboot_check_reads_two_bytes:
  assumes "42 \<le> len" "38 \<le> length pkt"
  shows "is_reboot_packet pkt len = Some (pkt ! 36 = 0x5C \<and> pkt ! 37 = 0x1B)"
proof -
  have "htons16 23579 = le16 0x5C 0x1B" by (simp add: htons16_def le16_def)
  then show ?thesis using assms by (simp add: is_reboot_packet_def rd_def le16_inject)
qed

section \<open>Properties\<close>



text \<open>C4: while connected, a packet of 1 to 400 digits makes the client write to the answer connection
  exactly the requests of the new matching windows, each followed by an output call, in order; the
  digits are acknowledged before and the packet is freed after.\<close>

theorem digits_are_answered:
  assumes "cinv c" "c_state c = S_CONNECTED" "\<not> do_not_send_answer c" "conn_10001 c = Some i"
    "conn_10002 c = Some j" "packet_ok d"
  shows "\<exists>c'. run_callback (Cb_recv i (Some d)) c = Some c' \<and> cinv c' \<and> c_state c' = S_CONNECTED \<and>
    calls c' = calls c @ [Tcp_recved i (length d)] @
      concat (map (\<lambda>x. [Tcp_write j (http_message x), Tcp_output j])
        (submissions (take N (digits (c_solver c)) @ map char_digit d))) @ [Pbuf_free]"
proof -
  let ?c = "c\<lparr>quiet := False\<rparr>"
  have ci: "cinv ?c" using assms(1,2) by (simp add: cinv_def state_wf_quiet)
  obtain b where b: "pcbs ?c i = Some b" "pcb_recvf b = Some P10001"
    using assms(1,2,4) by (auto simp: cinv_def state_wf_def pcb_of_def)
  have c: "can_answer ?c" "solver_ready (c_solver ?c)" using ci can_answer_if by (auto simp: cinv_def)
  have run: "run_callback (Cb_recv i (Some d)) c = tcp_recv_fn_10001 i (Some d) ?c"
    using b by (simp add: run_callback_def use_pcb_def Let_def)
  have sc: "send_calls ?c = (\<lambda>x. [Tcp_write j x, Tcp_output j])"
    using assms by (simp add: send_calls_def fun_eq_iff)
  obtain s where s: "tcp_recv_fn_10001 i (Some d) ?c = Some (?c\<lparr>c_solver := s, last_recv_len := length d,
      calls := calls ?c @ [Tcp_recved i (length d)] @ concat (map (send_calls ?c \<circ> http_message)
        (submissions (take N (digits (c_solver ?c)) @ map char_digit d))) @ [Pbuf_free]\<rparr>)" "solver_ready s"
    "take N (digits s) = drop (length d) (take N (digits (c_solver ?c)) @ map char_digit d)"
    by (rule recv_fn_10001_digits[OF c b(1) assms(6)])
  show ?thesis
    unfolding run s(1) using ci s(2) assms(2) by (simp add: cinv_def sc comp_def)
qed

text \<open>C8: a lost connection never leaks: after the error callback of either connection the next tick
  aborts what is left, so that no pcb and no pointer remains, and the client is ready to connect.\<close>

theorem error_then_tick_resets:
  assumes "cinv c" "lwip_may (Ev_callback (Cb_err i)) c"
  shows "\<exists>c1 c2. run_callback (Cb_err i) c = Some c1 \<and> contestant_tick ch has_ip c1 = Some c2 \<and>
    c_state c2 = S_NOT_CONNECTED \<and> pcbs c2 = Map.empty \<and> conn_10001 c2 = None \<and> conn_10002 c2 = None"
proof -
  obtain c1 where c1: "run_callback (Cb_err i) c = Some c1" "cinv c1" "c_state c1 = S_ABORT_NEXT_TICK"
    using err_ok[OF assms] by blast
  then have "pcbs_wf c1" by (simp add: cinv_def)
  from tick_abort[OF this c1(3)] c1(1) show ?thesis by metis
qed

text \<open>C7: from the disconnected state, with an IP address and a server that answers, a tick, the first
  handshake, a tick and the second handshake bring the client up, and the window that the solver
  searches is all nines again, so that no digit of an earlier session is in it.\<close>

theorem client_connects:
  assumes "cinv c" "c_state c = S_NOT_CONNECTED" "new_ok ch" "connect_ok ch"
  shows "\<exists>c1 c2 c3 c4. handle_event (Ev_tick ch True) c = Some c1 \<and>
    run_callback (Cb_connected (pcb_next c) ch) c1 = Some c2 \<and> handle_event (Ev_tick ch True) c2 = Some c3 \<and>
    run_callback (Cb_connected (Suc (pcb_next c)) ch) c3 = Some c4 \<and> c_state c4 = S_CONNECTED \<and> cinv c4 \<and>
    take N (digits (c_solver c4)) = replicate N 9"
  by (rule connects[OF assms]) blast

lemma connected_exists:
  obtains c where "cinv c" "c_state c = S_CONNECTED" "\<not> do_not_send_answer c" "conn_10001 c = Some 1"
    "conn_10002 c = Some 0" "take N (digits (c_solver c)) = replicate N 9"
proof -
  obtain m' c0 where c0: "cinv c0" "c_state c0 = S_NOT_CONNECTED" "do_not_send_answer c0 = False" "pcb_next c0 = 0"
    using contestant_init_ok[of "[0, 0, 0, 0]" zero_Timer "\<lambda>_. 0" "\<lambda>_. 0" False] by auto
  let ?ch = "\<lparr>new_ok = True, connect_ok = True\<rparr>"
  have ch: "new_ok ?ch" "connect_ok ?ch" by simp_all
  show ?thesis
    by (rule connects[OF c0(1,2) ch]) (rule that, simp_all add: c0(3,4))
qed

theorem client_connects_witness:
  "\<exists>c c1 c2 c3 c4. cinv c \<and> c_state c = S_NOT_CONNECTED \<and>
    handle_event (Ev_tick \<lparr>new_ok = True, connect_ok = True\<rparr> True) c = Some c1 \<and>
    run_callback (Cb_connected (pcb_next c) \<lparr>new_ok = True, connect_ok = True\<rparr>) c1 = Some c2 \<and>
    handle_event (Ev_tick \<lparr>new_ok = True, connect_ok = True\<rparr> True) c2 = Some c3 \<and>
    run_callback (Cb_connected (Suc (pcb_next c)) \<lparr>new_ok = True, connect_ok = True\<rparr>) c3 = Some c4 \<and>
    c_state c4 = S_CONNECTED"
proof -
  obtain c0 where c0: "cinv c0" "c_state c0 = S_NOT_CONNECTED"
    using contestant_init_ok[of "[0, 0, 0, 0]" zero_Timer "\<lambda>_. 0" "\<lambda>_. 0" False] by auto
  from client_connects[OF this, of "\<lparr>new_ok = True, connect_ok = True\<rparr>"] this show ?thesis by auto
qed

theorem digits_are_answered_witness:
  "\<exists>c c'. c_state c = S_CONNECTED \<and> run_callback (Cb_recv 1 (Some [49, 50])) c = Some c' \<and>
    calls c' = calls c @ [Tcp_recved 1 2] @ concat (map (\<lambda>x. [Tcp_write 0 (http_message x), Tcp_output 0])
      (submissions (replicate N 9 @ [1, 2]))) @ [Pbuf_free]"
proof -
  obtain c where c: "cinv c" "c_state c = S_CONNECTED" "\<not> do_not_send_answer c" "conn_10001 c = Some 1"
    "conn_10002 c = Some 0" "take N (digits (c_solver c)) = replicate N 9" by (rule connected_exists)
  have "packet_ok [49, 50]" by (simp add: packet_ok_def digit_bytes_def MAX_BATCH_SIZE_def)
  from digits_are_answered[OF c(1-5) this] c(2,6) show ?thesis by (auto simp: char_digit_def numeral_2_eq_2)
qed

theorem error_then_tick_resets_witness:
  "\<exists>c c1 c2. c_state c = S_CONNECTED \<and> run_callback (Cb_err 0) c = Some c1 \<and>
    contestant_tick \<lparr>new_ok = True, connect_ok = True\<rparr> True c1 = Some c2 \<and> pcbs c2 = Map.empty"
proof -
  obtain c where c: "cinv c" "c_state c = S_CONNECTED" "conn_10002 c = Some 0" by (rule connected_exists)
  then have "lwip_may (Ev_callback (Cb_err 0)) c" by (auto simp: cinv_def state_wf_def pcb_of_def)
  from error_then_tick_resets[OF c(1) this] c(2) show ?thesis by metis
qed

text \<open>C10: a digit packet of more than 400 bytes, which TCP is free to deliver in one segment, stops
  the kernel: the assertion of the solver fails in the receive callback.\<close>

theorem long_digit_packet_fails:
  assumes "cinv c" "conn_10001 c = Some i" "digit_bytes d" "MAX_BATCH_SIZE < length d"
  shows "run_callback (Cb_recv i (Some d)) c = None"
proof -
  obtain b where b: "pcbs c i = Some b" "pcb_recvf b = Some P10001"
    using assms(1,2) by (auto simp: cinv_def pcbs_wf_def pcb_of_def)
  have "recv_input d s = None" for s using assms(4) by (simp add: recv_input_def)
  moreover have "take (length d) (blit (replicate MTU 0) 0 d) = d" if "length d \<le> MTU"
    using that by (simp add: blit_def)
  ultimately show ?thesis
    using b assms(3) by (auto simp: run_callback_def use_pcb_def Let_def tcp_recv_fn_10001_def tcp_recved_def
        log_call_def wr_range_def has_non_digits_iff with_solver_def)
qed

theorem long_digit_packet_fails_witness:
  "\<exists>c. c_state c = S_CONNECTED \<and> run_callback (Cb_recv 1 (Some (replicate 401 48))) c = None"
proof -
  obtain c where c: "cinv c" "c_state c = S_CONNECTED" "conn_10001 c = Some 1" by (rule connected_exists)
  from long_digit_packet_fails[OF c(1,3), of "replicate 401 48"] c(2) show ?thesis
    by (auto simp: digit_bytes_def MAX_BATCH_SIZE_def)
qed



end
