(* ===== verification/Net_Utils.thy ===== *)
theory Net_Utils
  imports Kern_Timer
begin

text \<open>
  \<open>ducknet/lib/utils.cpp\<close> and \<open>ducknet/inc/ducknet_utils.h\<close>: byte order, time arithmetic and the
  Internet checksum.
\<close>

section \<open>Byte order\<close>

definition ducknet_htons :: "u16 \<Rightarrow> u16" where
  "ducknet_htons x = drop_bit 8 (x AND 0xff00) OR push_bit 8 (x AND 0x00ff)"

definition ducknet_htonl :: "u32 \<Rightarrow> u32" where
  "ducknet_htonl x = drop_bit 24 (x AND 0xff000000) OR drop_bit 8 (x AND 0x00ff0000) OR
     push_bit 8 (x AND 0x0000ff00) OR push_bit 24 (x AND 0x000000ff)"

definition ducknet_htonll :: "u64 \<Rightarrow> u64" where
  "ducknet_htonll x = drop_bit 56 (x AND 0xff00000000000000) OR drop_bit 40 (x AND 0x00ff000000000000) OR
     drop_bit 24 (x AND 0x0000ff0000000000) OR drop_bit 8 (x AND 0x000000ff00000000) OR
     push_bit 8 (x AND 0x00000000ff000000) OR push_bit 24 (x AND 0x0000000000ff0000) OR
     push_bit 40 (x AND 0x000000000000ff00) OR push_bit 56 (x AND 0x00000000000000ff)"

section \<open>Time\<close>

definition mul_div :: "u64 \<Rightarrow> u64 \<Rightarrow> u64 \<Rightarrow> u64 option" where
  "mul_div a b d = do {
     x \<leftarrow> c_div a d;
     let y = a mod d;
     u \<leftarrow> c_div b d;
     let v = b mod d;
     w \<leftarrow> c_div (y * v) d;
     Some (x * u * d + x * v + y * u + w)
   }"

definition ducknet_time_add_ns :: "u64 \<Rightarrow> u64 \<Rightarrow> u64 \<Rightarrow> u64 option" where
  "ducknet_time_add_ns freq t ns = do { d \<leftarrow> mul_div ns freq 1000000000; Some (t + d) }"

definition ducknet_time_add_us :: "u64 \<Rightarrow> u64 \<Rightarrow> u64 \<Rightarrow> u64 option" where
  "ducknet_time_add_us freq t us = do { d \<leftarrow> mul_div us freq 1000000; Some (t + d) }"

definition ducknet_time_add_ms :: "u64 \<Rightarrow> u64 \<Rightarrow> u64 \<Rightarrow> u64 option" where
  "ducknet_time_add_ms freq t ms = do { d \<leftarrow> mul_div ms freq 1000; Some (t + d) }"

definition ducknet_time_add_sec :: "u64 \<Rightarrow> u64 \<Rightarrow> u64 \<Rightarrow> u64" where
  "ducknet_time_add_sec freq t sec = t + sec * freq"

definition ducknet_time_to_ns :: "u64 \<Rightarrow> u64 \<Rightarrow> u64 option" where
  "ducknet_time_to_ns freq t = mul_div t 1000000000 freq"

definition ducknet_time_to_us :: "u64 \<Rightarrow> u64 \<Rightarrow> u64 option" where
  "ducknet_time_to_us freq t = mul_div t 1000000 freq"

definition ducknet_time_to_ms :: "u64 \<Rightarrow> u64 \<Rightarrow> u64 option" where
  "ducknet_time_to_ms freq t = mul_div t 1000 freq"

definition ducknet_time_to_sec :: "u64 \<Rightarrow> u64 \<Rightarrow> u64 option" where
  "ducknet_time_to_sec freq t = c_div t freq"

section \<open>Checksum\<close>

text \<open>The sum of the 16-bit words of a buffer; the last byte of an odd one counts alone.\<close>

fun checksum_words :: "u32 \<Rightarrow> bytes \<Rightarrow> u32" where
  "checksum_words sm (a # b # r) = checksum_words (sm + ucast (le16 a b)) r"
| "checksum_words sm [a] = sm + ucast a"
| "checksum_words sm [] = sm"

definition ducknet_checksum_sum :: "bytes \<Rightarrow> u32" where
  "ducknet_checksum_sum a = checksum_words 0 a"

lemma unat_fold_step: "unat ((sm AND 0xffff) + drop_bit 16 sm :: u32) = unat sm mod 65536 + unat sm div 65536"
proof -
  have lo: "unat (sm AND 0xffff) = unat sm mod 65536"
  proof -
    have "sm AND 0xffff = take_bit 16 sm" by (simp add: take_bit_eq_mask mask_eq_exp_minus_1)
    then show ?thesis by (simp add: take_bit_eq_mod unat_mod)
  qed
  have hi: "unat (drop_bit 16 sm) = unat sm div 65536"
    by (simp add: unsigned_drop_bit_eq drop_bit_eq_div take_bit_nat_eq_self unat_div)
  have "unat sm div 65536 < 65536" using unsigned_less[of sm, where 'a = nat] by simp
  moreover have "unat sm mod 65536 < 65536" by simp
  ultimately show ?thesis by (subst unat_add_fits) (simp_all add: lo hi)
qed

lemma drop_bit_16_0_iff: "drop_bit 16 (sm :: u32) = 0 \<longleftrightarrow> unat sm < 65536"
proof -
  have "unat (drop_bit 16 sm) = unat sm div 65536"
    by (simp add: unsigned_drop_bit_eq drop_bit_eq_div take_bit_nat_eq_self unat_div)
  then show ?thesis by (metis div_eq_0_iff unat_eq_zero zero_neq_numeral)
qed

function fold_carries :: "u32 \<Rightarrow> u32" where
  "fold_carries sm = (if drop_bit 16 sm \<noteq> 0 then fold_carries ((sm AND 0xffff) + drop_bit 16 sm) else sm)"
  by pat_completeness auto
termination
proof (relation "measure unat")
  fix sm :: u32 assume "drop_bit 16 sm \<noteq> 0"
  then have "65536 \<le> unat sm" by (simp add: drop_bit_16_0_iff)
  then have "unat sm mod 65536 + unat sm div 65536 < unat sm"
    using div_mult_mod_eq[of "unat sm" 65536] by linarith
  then show "((sm AND 0xffff) + drop_bit 16 sm, sm) \<in> measure unat" by (simp only: in_measure unat_fold_step)
qed simp

declare fold_carries.simps [simp del]

definition ducknet_checksum :: "bytes \<Rightarrow> u32 \<Rightarrow> u16" where
  "ducknet_checksum a sm = NOT (ucast (fold_carries (sm + ducknet_checksum_sum a)))"

section \<open>Lemmas\<close>

lemma mask_bytes: "(0x00ff :: u16) = mask 8" "(0xff00 :: u16) = push_bit 8 (mask 8)"
  "(0x000000ff :: u32) = mask 8" "(0x0000ff00 :: u32) = push_bit 8 (mask 8)"
  "(0x00ff0000 :: u32) = push_bit 16 (mask 8)" "(0xff000000 :: u32) = push_bit 24 (mask 8)"
  by (simp_all add: mask_eq_exp_minus_1)

lemma htons_le16: "ducknet_htons (le16 a b) = le16 b a"
  unfolding ducknet_htons_def mask_bytes
  by (auto simp: le16_def bit_simps bit_u8_ge intro!: bit_word_eqI)

lemma htonl_le32: "ducknet_htonl (le32 a b c d) = le32 d c b a"
proof (rule bit_word_eqI)
  fix n assume "n < LENGTH(32)"
  then consider "n < 8" | "8 \<le> n" "n < 16" | "16 \<le> n" "n < 24" | "24 \<le> n" "n < 32" by force
  then show "bit (ducknet_htonl (le32 a b c d)) n = bit (le32 d c b a) n"
    unfolding ducknet_htonl_def mask_bytes
    by cases (simp_all add: le32_def bit_simps bit_u8_ge less_diff_conv2)
qed

lemma htons_htons [simp]: "ducknet_htons (ducknet_htons x) = x"
  using htons_le16 by (metis le16_bytes16)

lemma htonl_htonl [simp]: "ducknet_htonl (ducknet_htonl x) = x"
  using htonl_le32 by (metis le32_bytes32)

lemma bytes16_htons: "bytes16 (ducknet_htons x) = rev (bytes16 x)"
proof -
  obtain a b where "x = le16 a b" by (metis le16_bytes16)
  then show ?thesis by (simp add: htons_le16)
qed

lemma bytes32_htonl: "bytes32 (ducknet_htonl x) = rev (bytes32 x)"
proof -
  obtain a b c d where "x = le32 a b c d" by (metis le32_bytes32)
  then show ?thesis by (simp add: htonl_le32)
qed

text \<open>The product of \<open>mul_div\<close> is exact as long as the result fits.\<close>

lemma mul_div_nat:
  fixes a b d :: nat assumes "0 < d"
  shows "a * b div d = (a div d) * (b div d) * d + (a div d) * (b mod d) + (a mod d) * (b div d) + (a mod d) * (b mod d) div d"
proof -
  define x y u v where xyuv: "x = a div d" "y = a mod d" "u = b div d" "v = b mod d"
  have ab: "a = x * d + y" "b = u * d + v" by (simp_all add: xyuv)
  have "a * b = y * v + (x * u * d + x * v + y * u) * d" unfolding ab by (simp add: algebra_simps)
  then have "a * b div d = x * u * d + x * v + y * u + y * v div d" using assms by simp
  then show ?thesis by (simp add: xyuv)
qed

lemma mul_div_exact:
  assumes d: "0 < d" "unat d \<le> 2 ^ 32" and fit: "unat a * unat b div unat d < 2 ^ 64"
  shows "\<exists>r. mul_div a b d = Some r \<and> unat r = unat a * unat b div unat d"
proof -
  let ?x = "unat a div unat d" and ?y = "unat a mod unat d" and ?u = "unat b div unat d" and ?v = "unat b mod unat d"
  have d0: "0 < unat d" using d(1) by (simp add: word_less_nat_alt)
  note eq = mul_div_nat[OF d0, of "unat a" "unat b"]
  have le: "?x * ?u * unat d + ?x * ?v + ?y * ?u + ?y * ?v div unat d < 2 ^ 64" using fit eq by simp
  have yv: "?y * ?v < 2 ^ 64"
  proof -
    have "?y < 2 ^ 32" "?v < 2 ^ 32" using d0 d(2) by (auto intro: order_less_le_trans[OF mod_less_divisor])
    then have "?y * ?v < 2 ^ 32 * 2 ^ 32" by (intro mult_strict_mono) auto
    then show ?thesis by simp
  qed
  have w: "unat ((a mod d) * (b mod d)) = ?y * ?v"
    using yv by (subst unat_mult_fits) (simp_all add: unat_mod)
  have "?x * ?u \<le> ?x * ?u * unat d" using d0 by simp
  then have "?x * ?u < 2 ^ 64" using le by linarith
  then have xu: "unat ((a div d) * (b div d)) = ?x * ?u"
    by (subst unat_mult_fits) (simp_all add: unat_div)
  have xud: "unat ((a div d) * (b div d) * d) = ?x * ?u * unat d"
    using le xu by (subst unat_mult_fits) simp_all
  have xv: "unat ((a div d) * (b mod d)) = ?x * ?v"
    using le by (subst unat_mult_fits) (simp_all add: unat_div unat_mod)
  have yu: "unat ((a mod d) * (b div d)) = ?y * ?u"
    using le by (subst unat_mult_fits) (simp_all add: unat_div unat_mod)
  have s1: "unat ((a div d) * (b div d) * d + (a div d) * (b mod d)) = ?x * ?u * unat d + ?x * ?v"
    using le xud xv by (subst unat_add_fits) simp_all
  have s2: "unat ((a div d) * (b div d) * d + (a div d) * (b mod d) + (a mod d) * (b div d)) = ?x * ?u * unat d + ?x * ?v + ?y * ?u"
    using le s1 yu by (subst unat_add_fits) simp_all
  have "unat ((a div d) * (b div d) * d + (a div d) * (b mod d) + (a mod d) * (b div d) + (a mod d) * (b mod d) div d) =
      ?x * ?u * unat d + ?x * ?v + ?y * ?u + ?y * ?v div unat d"
    using le s2 w by (subst unat_add_fits) (simp_all add: unat_div)
  then show ?thesis using d eq by (simp add: mul_div_def c_div_def Let_def)
qed

subsection \<open>The checksum verifies\<close>

fun nsum :: "bytes \<Rightarrow> nat" where
  "nsum (a # b # r) = unat (le16 a b) + nsum r"
| "nsum [a] = unat a"
| "nsum [] = 0"

lemma nsum_append: "even (length xs) \<Longrightarrow> nsum (xs @ ys) = nsum xs + nsum ys"
  by (induction xs rule: nsum.induct) auto

lemma nsum_bytes16 [simp]: "nsum (bytes16 c) = unat c"
proof -
  have "bytes16 c = [bytes16 c ! 0, bytes16 c ! 1]" by (simp add: bytes16_def)
  then have "nsum (bytes16 c) = unat (le16 (bytes16 c ! 0) (bytes16 c ! 1))"
    by (metis nsum.simps(1,3) add.right_neutral)
  then show ?thesis by (simp only: le16_bytes16)
qed

lemma nsum_le: "nsum xs \<le> 65535 * length xs"
proof (induction xs rule: nsum.induct)
  case (1 a b r)
  have "unat (le16 a b) < 2 ^ 16" using unsigned_less[of "le16 a b", where 'a = nat] by simp
  then show ?case using 1 by simp
next
  case (2 a)
  have "unat a < 2 ^ 8" using unsigned_less[of a, where 'a = nat] by simp
  then show ?case by simp
qed simp

lemma checksum_words_nsum:
  "unat sm + nsum xs < 2 ^ 32 \<Longrightarrow> unat (checksum_words sm xs) = unat sm + nsum xs"
proof (induction sm xs rule: checksum_words.induct)
  case (1 sm a b r)
  have "unat (ucast (le16 a b) :: u32) = unat (le16 a b)" by (simp add: unat_ucast_up)
  then have "unat (sm + ucast (le16 a b)) = unat sm + unat (le16 a b)"
    using 1(2) by (subst unat_add_fits) simp_all
  with 1 show ?case by simp
next
  case (2 sm a)
  then show ?case by (subst checksum_words.simps, subst unat_add_fits) (simp_all add: unat_ucast_up)
qed simp

lemma fold_carries_spec:
  "unat (fold_carries sm) < 65536 \<and> unat (fold_carries sm) mod 65535 = unat sm mod 65535 \<and>
   (fold_carries sm = 0 \<longleftrightarrow> sm = 0)"
proof (induction sm rule: fold_carries.induct)
  case (1 sm)
  show ?case
  proof (cases "drop_bit 16 sm = 0")
    case True
    then show ?thesis using drop_bit_16_0_iff by (subst (1 2 3) fold_carries.simps) auto
  next
    case False
    let ?s = "(sm AND 0xffff) + drop_bit 16 sm"
    have big: "65536 \<le> unat sm" using False by (simp add: drop_bit_16_0_iff)
    have eq: "fold_carries sm = fold_carries ?s" using False by (subst fold_carries.simps) simp
    have "unat sm = 65536 * (unat sm div 65536) + unat sm mod 65536" by simp
    then have "unat sm = 65535 * (unat sm div 65536) + unat ?s" unfolding unat_fold_step by linarith
    then have "unat sm mod 65535 = unat ?s mod 65535" by (metis mod_mult_self4)
    moreover have "unat ?s \<noteq> 0" using big unfolding unat_fold_step by (simp add: div_greater_zero_iff)
    then have "?s \<noteq> 0" using unat_eq_zero by metis
    moreover have "sm \<noteq> 0" using big by auto
    ultimately show ?thesis unfolding eq using 1 False by simp
  qed
qed

lemma unat_checksum: "unat (ducknet_checksum bs sm) = 65535 - unat (fold_carries (sm + ducknet_checksum_sum bs))"
proof -
  let ?f = "fold_carries (sm + ducknet_checksum_sum bs)"
  have "unat ?f < 65536" using fold_carries_spec by blast
  then have u: "unat (ucast ?f :: u16) = unat ?f" by (intro unat_ucast_fits) simp
  have "NOT (ucast ?f :: u16) = - 1 - ucast ?f" by (simp add: not_eq_complement)
  moreover have "unat (- 1 - ucast ?f :: u16) = unat (- 1 :: u16) - unat (ucast ?f :: u16)"
    by (rule unat_minus_fits) (simp add: word_le_nat_alt[symmetric])
  moreover have "unat (- 1 :: u16) = 65535" by (simp add: unsigned_minus_1_eq_mask mask_eq_exp_minus_1)
  ultimately show ?thesis by (simp add: ducknet_checksum_def u)
qed

text \<open>Writing the checksum of a message into its zeroed field makes the message sum up to zero. \<open>sm\<close>
  is the sum of a pseudo header that is not part of the message.\<close>

lemma checksum_verifies:
  assumes even: "even (length pre)" and len: "unat sm + 65535 * (length pre + 2 + length post) < 2 ^ 32"
  shows "ducknet_checksum (pre @ bytes16 (ducknet_checksum (pre @ [0, 0] @ post) sm) @ post) sm = 0"
proof -
  let ?c = "ducknet_checksum (pre @ [0, 0] @ post) sm"
  let ?S = "unat sm + nsum pre + nsum post"
  let ?f = "fold_carries (sm + ducknet_checksum_sum (pre @ [0, 0] @ post))"
  have n0: "nsum (pre @ [0, 0] @ post) = nsum pre + nsum post"
    using even by (simp add: nsum_append le16_def)
  have n1: "nsum (pre @ bytes16 ?c @ post) = nsum pre + unat ?c + nsum post"
    using even by (simp add: nsum_append)
  have c16: "unat ?c \<le> 65535" using unsigned_less[of ?c, where 'a = nat] by simp
  have bound: "?S + 65535 < 2 ^ 32" using len nsum_le[of pre] nsum_le[of post] by simp
  have sum: "unat (sm + ducknet_checksum_sum xs) = unat sm + nsum xs" if "unat sm + nsum xs < 2 ^ 32" for xs
  proof -
    have "unat (ducknet_checksum_sum xs) = nsum xs"
      using that by (simp add: ducknet_checksum_sum_def checksum_words_nsum)
    then show ?thesis using that by (subst unat_add_fits) simp_all
  qed
  have t0: "unat (sm + ducknet_checksum_sum (pre @ [0, 0] @ post)) = ?S"
    using bound sum[of "pre @ [0, 0] @ post"] unfolding n0 by simp
  have f: "unat ?f < 65536" "unat ?f mod 65535 = ?S mod 65535" "?f = 0 \<longleftrightarrow> sm + ducknet_checksum_sum (pre @ [0, 0] @ post) = 0"
    using fold_carries_spec[of "sm + ducknet_checksum_sum (pre @ [0, 0] @ post)"] unfolding t0 by blast+
  have c: "unat ?c = 65535 - unat ?f" by (rule unat_checksum)
  let ?g = "fold_carries (sm + ducknet_checksum_sum (pre @ bytes16 ?c @ post))"
  have t: "unat (sm + ducknet_checksum_sum (pre @ bytes16 ?c @ post)) = ?S + (65535 - unat ?f)"
    using bound c16 sum[of "pre @ bytes16 ?c @ post"] unfolding n1 c by simp
  have "(?S + (65535 - unat ?f)) mod 65535 = 0"
  proof -
    have "(?S + (65535 - unat ?f)) mod 65535 = (unat ?f + (65535 - unat ?f)) mod 65535"
      using f(2) by (metis mod_add_left_eq)
    then show ?thesis using f(1) by simp
  qed
  moreover have "?S + (65535 - unat ?f) \<noteq> 0"
  proof
    assume 0: "?S + (65535 - unat ?f) = 0"
    then have "?S = 0" "unat ?f = 65535" using f(1) by auto
    moreover from this have "sm + ducknet_checksum_sum (pre @ [0, 0] @ post) = 0"
      using t0 by (simp only: unat_eq_zero)
    ultimately show False using f(3) by (metis unat_0 zero_neq_numeral)
  qed
  ultimately have g: "unat ?g mod 65535 = 0" "?g \<noteq> 0" "unat ?g < 65536"
    using fold_carries_spec[of "sm + ducknet_checksum_sum (pre @ bytes16 ?c @ post)"] t
    by (metis unat_0)+
  then have "unat ?g \<noteq> 0" by (metis unat_eq_zero)
  with g(1,3) have "unat ?g = 65535" by (auto elim!: dvdE simp: mod_eq_0_iff_dvd)
  then have "unat (ducknet_checksum (pre @ bytes16 ?c @ post) sm) = 0" unfolding unat_checksum by simp
  then show ?thesis by (simp only: unat_eq_zero)
qed

end
