(* ===== verification/Net_Phy.thy ===== *)
theory Net_Phy
  imports Net_Utils
begin

text \<open>
  The state of the network stack and its two lowest layers: \<open>ducknet/lib/phy.cpp\<close> and the sending
  half of \<open>ducknet/lib/ether.cpp\<close>, with the globals of \<open>ducknet/lib/ducknet_impl.cpp\<close>.

  A configuration \<open>hooks\<close> holds the function pointers of \<open>DucknetConfig\<close>, \<^term>\<open>None\<close> for a null
  pointer. A hook that inspects a packet is a function from its bytes to the returned integer; the
  hook for UDP also names the datagrams that it sends in response. Frames handed to the driver are
  logged in \<open>dn_sent\<close>, calls of its flush function are counted in \<open>dn_flushes\<close>.
\<close>

section \<open>State\<close>

definition MAX_MTU :: nat where "MAX_MTU = 1500"
definition ARP_TABLE_SIZE :: nat where "ARP_TABLE_SIZE = 100"
definition TOSEND_TABLE_SIZE :: nat where "TOSEND_TABLE_SIZE = 64"

record ArpEntry =
  ae_ip :: u32
  ae_mac :: bytes
  ae_expire :: u64

record ArpQuery =
  aq_ip :: u32
  aq_expire :: u64

record Tosend =
  ts_dst :: u32
  ts_expire :: u64
  ts_len :: nat
  ts_pkt :: bytes

record Ducknet =
  currenttime :: u64
  dn_tsc_freq :: u64
  flushed :: bool
  last_flush_time :: u64
  flush_delay :: u64
  flush_cnt :: nat
  sendbuf :: bytes
  dn_mac :: bytes
  dn_MTU :: int
  arp_table :: "ArpEntry list"
  n_arp_entries :: nat
  arp_query_table :: "ArpQuery list"
  n_arp_queries :: nat
  arp_last_idle :: u64
  arp_idle_delay :: u64
  arp_cnt :: nat
  dn_ip :: u32
  gateway_ip :: u32
  dn_prefix_len :: u8
  tosend_table :: "Tosend list"
  tosend_free :: "u32 list"
  ip_last_idle :: u64
  ip_idle_delay :: u64
  ip_cnt :: nat
  udp_buf :: bytes
  dn_sent :: "bytes list"
  dn_flushes :: nat

text \<open>A datagram to send: destination, destination port, source port, payload.\<close>

type_synonym udp_request = "u32 \<times> u16 \<times> u16 \<times> bytes"

record hooks =
  phy_send_fn :: "(bytes \<Rightarrow> int) option"
  phy_flush_fn :: "int option"
  phy_packet_hook :: "(bytes \<Rightarrow> int) option"
  phy_send_hook :: "(bytes \<Rightarrow> int) option"
  ether_hook :: "(bytes \<Rightarrow> int) option"
  arp_hook :: "(bytes \<Rightarrow> int) option"
  ipv4_hook :: "(bytes \<Rightarrow> int) option"
  icmp_hook :: "(u32 \<Rightarrow> u32 \<Rightarrow> bytes \<Rightarrow> int) option"
  udp_hook :: "(u32 \<Rightarrow> u32 \<Rightarrow> bytes \<Rightarrow> int \<Rightarrow> int \<times> udp_request list) option"

text \<open>The outcome of a hook that stops the processing of a packet.\<close>

definition hook_stops :: "(bytes \<Rightarrow> int) option \<Rightarrow> bytes \<Rightarrow> int option" where
  "hook_stops h b = (case h of None \<Rightarrow> None | Some f \<Rightarrow> if f b < 0 then Some (f b) else None)"

section \<open>The physical layer\<close>

definition ducknet_phy_init :: "Ducknet \<Rightarrow> Ducknet" where
  "ducknet_phy_init n = n\<lparr>flushed := False, last_flush_time := currenttime n,
     flush_delay := dn_tsc_freq n * 100 div 1000 div 1000\<rparr>"

text \<open>In \<open>r = send_packet_handle(a, len) < 0\<close> the comparison binds tighter than the assignment, so a
  negative result of the hook makes the function return 1.\<close>

definition ducknet_phy_send :: "hooks \<Rightarrow> bytes \<Rightarrow> Ducknet \<Rightarrow> int \<times> Ducknet" where
  "ducknet_phy_send hk a n =
     (if hook_stops (phy_send_hook hk) a \<noteq> None then (1, n)
      else let n = n\<lparr>flushed := False\<rparr> in
        (case phy_send_fn hk of None \<Rightarrow> (- 1, n)
         | Some f \<Rightarrow> (f a, n\<lparr>dn_sent := dn_sent n @ [a]\<rparr>)))"

definition ducknet_phy_flush :: "hooks \<Rightarrow> Ducknet \<Rightarrow> int \<times> Ducknet" where
  "ducknet_phy_flush hk n =
     (if flushed n then (0, n)
      else (case phy_flush_fn hk of None \<Rightarrow> (- 1, n)
        | Some r \<Rightarrow> let n = n\<lparr>dn_flushes := dn_flushes n + 1\<rparr> in
            (r, if r = 0 then n\<lparr>flushed := True\<rparr> else n)))"

definition ducknet_phy_idle :: "hooks \<Rightarrow> Ducknet \<Rightarrow> int \<times> Ducknet" where
  "ducknet_phy_idle hk n = (let n = n\<lparr>flush_cnt := flush_cnt n + 1\<rparr> in
     if flush_cnt n \<ge> 128 \<or> currenttime n - last_flush_time n > flush_delay n
     then let n = snd (ducknet_phy_flush hk n) in
       (0, n\<lparr>flush_cnt := 0, last_flush_time := currenttime n\<rparr>)
     else (0, n))"

section \<open>Ethernet: sending\<close>

definition ETHERTYPE_IPv4 :: u16 where "ETHERTYPE_IPv4 = 0x0800"
definition ETHERTYPE_ARP :: u16 where "ETHERTYPE_ARP = 0x0806"

definition ducknet_ether_init :: "bytes \<Rightarrow> Ducknet \<Rightarrow> Ducknet" where
  "ducknet_ether_init mac n = n\<lparr>dn_mac := mac, dn_MTU := 1500\<rparr>"

definition ducknet_ether_broadcast_addr :: bytes where
  "ducknet_ether_broadcast_addr = replicate 6 255"

definition ducknet_ether_send :: "hooks \<Rightarrow> bytes \<Rightarrow> u16 \<Rightarrow> bytes \<Rightarrow> int \<Rightarrow> Ducknet \<Rightarrow> (int \<times> Ducknet) option" where
  "ducknet_ether_send hk dst ethertype payload len n =
     (if len < 0 then Some (- 1, n)
      else if len > dn_MTU n then Some (- 1, n)
      else do {
        buf \<leftarrow> wr_range (sendbuf n) 0 dst;
        buf \<leftarrow> wr_range buf 6 (dn_mac n);
        buf \<leftarrow> put16 buf 12 (ducknet_htons ethertype);
        data \<leftarrow> rd_range payload 0 (nat len);
        buf \<leftarrow> wr_range buf 14 data;
        let n = n\<lparr>sendbuf := buf\<rparr>;
        frame \<leftarrow> rd_range buf 0 (nat len + 14);
        Some (ducknet_phy_send hk frame n)
      })"

definition is_equal_mac :: "bytes \<Rightarrow> bytes \<Rightarrow> bool option" where
  "is_equal_mac a b = do {
     x \<leftarrow> get32 a 0; y \<leftarrow> get32 b 0;
     if x = y then do { u \<leftarrow> get16 a 4; v \<leftarrow> get16 b 4; Some (u = v) } else Some False
   }"

section \<open>Well-formed states\<close>

definition tosend_wf :: "Tosend \<Rightarrow> bool" where
  "tosend_wf t \<longleftrightarrow> length (ts_pkt t) = MAX_MTU + 64 \<and> 14 \<le> ts_len t \<and> ts_len t \<le> MAX_MTU + 64"

text \<open>The arrays have their declared sizes, the counters stay in range, and every queued frame fits
  its slot.\<close>

definition net_wf :: "Ducknet \<Rightarrow> bool" where
  "net_wf n \<longleftrightarrow> length (sendbuf n) = MAX_MTU + 64 \<and> length (dn_mac n) = 6 \<and> dn_MTU n = 1500 \<and>
     length (arp_table n) = ARP_TABLE_SIZE \<and> n_arp_entries n \<le> ARP_TABLE_SIZE \<and>
     (\<forall>e \<in> set (take (n_arp_entries n) (arp_table n)). length (ae_mac e) = 6) \<and>
     length (arp_query_table n) = ARP_TABLE_SIZE \<and> n_arp_queries n \<le> ARP_TABLE_SIZE \<and>
     length (tosend_table n) = TOSEND_TABLE_SIZE \<and> length (tosend_free n) = 2 \<and>
     (\<forall>t \<in> set (tosend_table n). length (ts_pkt t) = MAX_MTU + 64) \<and>
     (\<forall>i < TOSEND_TABLE_SIZE. \<not> bit (tosend_free n ! (i div 32)) (i mod 32) \<longrightarrow> tosend_wf (tosend_table n ! i)) \<and>
     dn_prefix_len n \<le> 32 \<and> length (udp_buf n) = MAX_MTU + 64"

lemma net_wf_simps [simp]:
  "net_wf (n\<lparr>flushed := a\<rparr>) = net_wf n" "net_wf (n\<lparr>dn_sent := b\<rparr>) = net_wf n"
  "net_wf (n\<lparr>dn_flushes := c\<rparr>) = net_wf n" "net_wf (n\<lparr>flush_cnt := d\<rparr>) = net_wf n"
  "net_wf (n\<lparr>last_flush_time := e\<rparr>) = net_wf n" "net_wf (n\<lparr>currenttime := e\<rparr>) = net_wf n"
  "net_wf (n\<lparr>arp_cnt := d\<rparr>) = net_wf n" "net_wf (n\<lparr>arp_last_idle := e\<rparr>) = net_wf n"
  "net_wf (n\<lparr>ip_cnt := d\<rparr>) = net_wf n" "net_wf (n\<lparr>ip_last_idle := e\<rparr>) = net_wf n"
  by (simp_all add: net_wf_def)

lemma net_wf_sendbuf: "net_wf n \<Longrightarrow> length buf = MAX_MTU + 64 \<Longrightarrow> net_wf (n\<lparr>sendbuf := buf\<rparr>)"
  by (simp add: net_wf_def)

lemma phy_send_wf [simp]: "net_wf (snd (ducknet_phy_send hk a n)) = net_wf n"
  by (simp add: ducknet_phy_send_def Let_def split: option.splits)

lemma phy_flush_wf [simp]: "net_wf (snd (ducknet_phy_flush hk n)) = net_wf n"
  by (simp add: ducknet_phy_flush_def Let_def split: option.splits)

lemma phy_idle_wf [simp]: "net_wf (snd (ducknet_phy_idle hk n)) = net_wf n"
  by (simp add: ducknet_phy_idle_def Let_def)

lemma phy_send_keeps [simp]:
  "dn_ip (snd (ducknet_phy_send hk a n)) = dn_ip n" "dn_mac (snd (ducknet_phy_send hk a n)) = dn_mac n"
  "gateway_ip (snd (ducknet_phy_send hk a n)) = gateway_ip n"
  "arp_table (snd (ducknet_phy_send hk a n)) = arp_table n"
  "n_arp_entries (snd (ducknet_phy_send hk a n)) = n_arp_entries n"
  "tosend_table (snd (ducknet_phy_send hk a n)) = tosend_table n"
  "tosend_free (snd (ducknet_phy_send hk a n)) = tosend_free n"
  by (simp_all add: ducknet_phy_send_def Let_def split: option.splits)

text \<open>Without a hook that refuses the frame, sending hands it to the driver.\<close>

definition sends :: "hooks \<Rightarrow> bool" where
  "sends hk \<longleftrightarrow> phy_send_fn hk \<noteq> None \<and> (case phy_send_hook hk of None \<Rightarrow> True | Some f \<Rightarrow> \<forall>b. \<not> f b < 0)"

lemma phy_send_sends:
  "sends hk \<Longrightarrow> snd (ducknet_phy_send hk a n) = n\<lparr>flushed := False, dn_sent := dn_sent n @ [a]\<rparr>"
  by (auto simp: sends_def ducknet_phy_send_def hook_stops_def Let_def split: option.splits)

text \<open>The frame that \<open>ducknet_ether_send\<close> builds.\<close>

definition ether_frame :: "bytes \<Rightarrow> bytes \<Rightarrow> u16 \<Rightarrow> bytes \<Rightarrow> bytes" where
  "ether_frame dst src ethertype payload = dst @ src @ bytes16 (ducknet_htons ethertype) @ payload"

lemma take_blits_ether:
  assumes "length buf = MAX_MTU + 64" "length dst = 6" "length src = 6" "length data \<le> MAX_MTU"
  shows "take (length data + 14) (blit (blit (blit (blit buf 0 dst) 6 src) 12 (bytes16 x)) 14 data) =
    dst @ src @ bytes16 x @ data"
  using assms by (simp add: blit_def)

lemma ether_send_frame:
  assumes "net_wf n" "length dst = 6" "length payload \<le> MAX_MTU"
  shows "\<exists>buf. length buf = MAX_MTU + 64 \<and>
    ducknet_ether_send hk dst ty payload (int (length payload)) n =
    Some (ducknet_phy_send hk (ether_frame dst (dn_mac n) ty payload) (n\<lparr>sendbuf := buf\<rparr>))"
proof -
  let ?buf = "blit (blit (blit (blit (sendbuf n) 0 dst) 6 (dn_mac n)) 12 (bytes16 (ducknet_htons ty))) 14 payload"
  have wf: "length (sendbuf n) = MAX_MTU + 64" "length (dn_mac n) = 6" "dn_MTU n = 1500"
    using assms(1) by (simp_all add: net_wf_def)
  have len: "length ?buf = MAX_MTU + 64" using wf assms by (simp add: MAX_MTU_def)
  have fr: "take (length payload + 14) ?buf = ether_frame dst (dn_mac n) ty payload"
    using take_blits_ether[OF wf(1) assms(2) wf(2) assms(3)] by (simp add: ether_frame_def)
  have "ducknet_ether_send hk dst ty payload (int (length payload)) n =
      Some (ducknet_phy_send hk (take (length payload + 14) ?buf) (n\<lparr>sendbuf := ?buf\<rparr>))"
    using wf assms len by (simp add: ducknet_ether_send_def MAX_MTU_def opt_simps)
  with fr len show ?thesis by auto
qed

end
