(* ===== verification/Net_Arp.thy ===== *)
theory Net_Arp
  imports Net_Phy
begin

text \<open>
  Address resolution, \<open>ducknet/lib/arp.cpp\<close>: the table of known neighbours, the table of pending
  queries, the packets, and expiry.
\<close>

section \<open>Operations\<close>

definition ARP_EXPIRE_TIMEOUT_MS :: u64 where "ARP_EXPIRE_TIMEOUT_MS = 30000"
definition ARP_QUERY_TIMEOUT_MS :: u64 where "ARP_QUERY_TIMEOUT_MS = 1000"
definition ARP_NEVER_EXPIRE :: bool where "ARP_NEVER_EXPIRE = True"
definition ARP_REQUEST :: u16 where "ARP_REQUEST = 1"
definition ARP_REPLY :: u16 where "ARP_REPLY = 2"

definition ducknet_arp_init :: "Ducknet \<Rightarrow> Ducknet" where
  "ducknet_arp_init n = n\<lparr>n_arp_entries := 0, n_arp_queries := 0, arp_last_idle := currenttime n,
     arp_idle_delay := dn_tsc_freq n * 100 div 1000 div 1000\<rparr>"

definition ducknet_arp_hton :: "bytes \<Rightarrow> bytes option" where
  "ducknet_arp_hton b = do {
     htype \<leftarrow> get16 b 0; b \<leftarrow> put16 b 0 (ducknet_htons htype);
     ptype \<leftarrow> get16 b 2; b \<leftarrow> put16 b 2 (ducknet_htons ptype);
     op \<leftarrow> get16 b 6; put16 b 6 (ducknet_htons op)
   }"

definition ducknet_arp_send :: "hooks \<Rightarrow> bytes \<Rightarrow> u16 \<Rightarrow> bytes \<Rightarrow> int \<Rightarrow> Ducknet \<Rightarrow> (int \<times> Ducknet) option" where
  "ducknet_arp_send hk dst op payload len n =
     (if len < 0 then Some (- 1, n)
      else if len + 8 > dn_MTU n then Some (- 1, n)
      else do {
        buf \<leftarrow> wr_range (sendbuf n) 0 dst;
        buf \<leftarrow> wr_range buf 6 (dn_mac n);
        buf \<leftarrow> put16 buf 12 (ducknet_htons ETHERTYPE_ARP);
        buf \<leftarrow> put16 buf 14 (ducknet_htons 1);
        buf \<leftarrow> put16 buf 16 (ducknet_htons 0x0800);
        buf \<leftarrow> wr buf 18 6;
        buf \<leftarrow> wr buf 19 4;
        buf \<leftarrow> put16 buf 20 (ducknet_htons op);
        data \<leftarrow> rd_range payload 0 (nat len);
        buf \<leftarrow> wr_range buf 22 data;
        let n = n\<lparr>sendbuf := buf\<rparr>;
        frame \<leftarrow> rd_range buf 0 (nat len + 8 + 14);
        Some (ducknet_phy_send hk frame n)
      })"

text \<open>The binary search that the three table operations share.\<close>

function lower_bound :: "u32 list \<Rightarrow> u32 \<Rightarrow> int \<Rightarrow> int \<Rightarrow> int option" where
  "lower_bound ks ip l r = (if l < r then
       (let mid = (l + r) div 2 in
        case rd_int ks mid of None \<Rightarrow> None
        | Some k \<Rightarrow> if k < ip then lower_bound ks ip (mid + 1) r else lower_bound ks ip l mid)
     else Some l)"
  by pat_completeness auto
termination by (relation "measure (\<lambda>(ks, ip, l, r). nat (r - l))") auto

declare lower_bound.simps [simp del]

text \<open>Whether the found position does not hold the address.\<close>

definition arp_miss :: "u32 list \<Rightarrow> nat \<Rightarrow> u32 \<Rightarrow> int \<Rightarrow> bool option" where
  "arp_miss ks cnt ip l = (if l \<ge> int cnt then Some True else do { k \<leftarrow> rd_int ks l; Some (k \<noteq> ip) })"

definition ducknet_arp_update :: "u32 \<Rightarrow> bytes \<Rightarrow> Ducknet \<Rightarrow> (int \<times> Ducknet) option" where
  "ducknet_arp_update ip mac n = do {
     let ks = map ae_ip (arp_table n);
     let cnt = n_arp_entries n;
     l \<leftarrow> lower_bound ks ip 0 (int cnt - 1);
     miss \<leftarrow> arp_miss ks cnt ip l;
     if miss \<and> cnt = ARP_TABLE_SIZE then Some (- 1, n)
     else do {
       tab \<leftarrow> (if miss then do {
           tail \<leftarrow> rd_range (arp_table n) (nat l) (cnt - nat l);
           wr_range (arp_table n) (nat l + 1) tail
         } else Some (arp_table n));
       t \<leftarrow> ducknet_time_add_ms (dn_tsc_freq n) (currenttime n) ARP_EXPIRE_TIMEOUT_MS;
       tab \<leftarrow> wr tab (nat l) \<lparr>ae_ip = ip, ae_mac = mac, ae_expire = t\<rparr>;
       Some (0, n\<lparr>arp_table := tab, n_arp_entries := (if miss then cnt + 1 else cnt)\<rparr>)
     }
   }"

text \<open>The MAC address found, or nothing where the code returns -1.\<close>

definition ducknet_arp_lookup :: "u32 \<Rightarrow> Ducknet \<Rightarrow> bytes option option" where
  "ducknet_arp_lookup ip n = do {
     let ks = map ae_ip (arp_table n);
     l \<leftarrow> lower_bound ks ip 0 (int (n_arp_entries n) - 1);
     miss \<leftarrow> arp_miss ks (n_arp_entries n) ip l;
     if miss then Some None else do { e \<leftarrow> rd_int (arp_table n) l; Some (Some (ae_mac e)) }
   }"

definition arp_payload :: "bytes \<Rightarrow> u32 \<Rightarrow> bytes \<Rightarrow> u32 \<Rightarrow> bytes" where
  "arp_payload sha spa tha tpa =
     sha @ bytes32 (ducknet_htonl spa) @ tha @ bytes32 (ducknet_htonl tpa)"

definition ducknet_arp_query :: "hooks \<Rightarrow> u32 \<Rightarrow> Ducknet \<Rightarrow> (int \<times> Ducknet) option" where
  "ducknet_arp_query hk ip n = do {
     let ks = map aq_ip (arp_query_table n);
     let cnt = n_arp_queries n;
     l \<leftarrow> lower_bound ks ip 0 (int cnt - 1);
     miss \<leftarrow> arp_miss ks cnt ip l;
     if miss then
       (if cnt = ARP_TABLE_SIZE then Some (- 1, n)
        else do {
          tail \<leftarrow> rd_range (arp_query_table n) (nat l) (cnt - nat l);
          tab \<leftarrow> wr_range (arp_query_table n) (nat l + 1) tail;
          t \<leftarrow> ducknet_time_add_ms (dn_tsc_freq n) (currenttime n) ARP_QUERY_TIMEOUT_MS;
          tab \<leftarrow> wr tab (nat l) \<lparr>aq_ip = ip, aq_expire = t\<rparr>;
          let n = n\<lparr>arp_query_table := tab, n_arp_queries := cnt + 1\<rparr>;
          let payload = arp_payload (dn_mac n) (dn_ip n) (replicate 6 0) ip;
          ducknet_arp_send hk ducknet_ether_broadcast_addr ARP_REQUEST payload 20 n
        })
     else Some (0, n)
   }"

definition ducknet_arp_packet_handle :: "hooks \<Rightarrow> bytes \<Rightarrow> int \<Rightarrow> Ducknet \<Rightarrow> (int \<times> Ducknet) option" where
  "ducknet_arp_packet_handle hk pkt len n =
     (if len < 8 then Some (- 1, n) else do {
        b \<leftarrow> ducknet_arp_hton pkt;
        case hook_stops (arp_hook hk) b of Some r \<Rightarrow> Some (r, n)
        | None \<Rightarrow> do {
          htype \<leftarrow> get16 b 0; ptype \<leftarrow> get16 b 2; hlen \<leftarrow> rd b 4; plen \<leftarrow> rd b 5; op \<leftarrow> get16 b 6;
          if htype = 1 \<and> ptype = 0x0800 then
            (if hlen \<noteq> 6 then Some (- 1, n)
             else if plen \<noteq> 4 then Some (- 1, n)
             else if len - 8 < 20 then Some (- 1, n)
             else do {
               p \<leftarrow> rd_range b 8 20;
               sha \<leftarrow> rd_range p 0 6; spa \<leftarrow> get32 p 6; tpa \<leftarrow> get32 p 16;
               let spa = ducknet_htonl spa; let tpa = ducknet_htonl tpa;
               if op = ARP_REQUEST then
                 (if tpa = dn_ip n then do {
                    (_, n) \<leftarrow> ducknet_arp_send hk sha ARP_REPLY (arp_payload (dn_mac n) tpa sha spa) 20 n;
                    Some (0, n)
                  } else Some (- 1, n))
               else if op = ARP_REPLY then do {
                 (_, n) \<leftarrow> ducknet_arp_update spa sha n;
                 Some (0, n)
               } else Some (- 1, n)
             })
          else Some (- 1, n)
        }
      })"

text \<open>Removing the expired entries of a table in place.\<close>

definition arp_compact :: "('a \<Rightarrow> bool) \<Rightarrow> nat \<Rightarrow> 'a list \<Rightarrow> (nat \<times> 'a list) option" where
  "arp_compact expired cnt tab = for_opt (\<lambda>i (id, tab). do {
       e \<leftarrow> rd tab i;
       if expired e then Some (id, tab) else do { tab \<leftarrow> wr tab id e; Some (id + 1, tab) }
     }) [0..<cnt] (0, tab)"

definition ducknet_arp_idle :: "Ducknet \<Rightarrow> (int \<times> Ducknet) option" where
  "ducknet_arp_idle n = (let n = n\<lparr>arp_cnt := arp_cnt n + 1\<rparr> in
     if arp_cnt n < 128 \<and> currenttime n - arp_last_idle n \<le> arp_idle_delay n then Some (0, n)
     else do {
       let n = n\<lparr>arp_cnt := 0, arp_last_idle := currenttime n\<rparr>;
       (ne, tab) \<leftarrow> arp_compact (\<lambda>e. \<not> ARP_NEVER_EXPIRE \<and> currenttime n > ae_expire e) (n_arp_entries n) (arp_table n);
       (nq, qtab) \<leftarrow> arp_compact (\<lambda>q. currenttime n > aq_expire q) (n_arp_queries n) (arp_query_table n);
       Some (0, n\<lparr>arp_table := tab, n_arp_entries := ne, arp_query_table := qtab, n_arp_queries := nq\<rparr>)
     })"

section \<open>The search\<close>

lemma lower_bound_range:
  "0 \<le> l \<Longrightarrow> r < int (length ks) \<Longrightarrow> \<exists>i. lower_bound ks ip l r = Some i \<and> l \<le> i \<and> i \<le> max l r"
proof (induction ks ip l r rule: lower_bound.induct)
  case (1 ks ip l r)
  show ?case
  proof (cases "l < r")
    case True
    define mid where "mid = (l + r) div 2"
    have mid: "l \<le> mid" "mid < r" using True by (auto simp: mid_def)
    then have rdm: "rd_int ks mid = Some (ks ! nat mid)" using 1(3,4) by (simp add: rd_int_def rd_def)
    show ?thesis
    proof (cases "ks ! nat mid < ip")
      case T: True
      have "\<exists>i. lower_bound ks ip (mid + 1) r = Some i \<and> mid + 1 \<le> i \<and> i \<le> max (mid + 1) r"
        using 1(1)[OF True mid_def rdm T] mid 1(3,4) by simp
      then show ?thesis using True T rdm mid by (subst lower_bound.simps) (auto simp: Let_def simp flip: mid_def)
    next
      case F: False
      have "\<exists>i. lower_bound ks ip l mid = Some i \<and> l \<le> i \<and> i \<le> max l mid"
        using 1(2)[OF True mid_def rdm F] mid 1(3,4) by simp
      then show ?thesis using True F rdm mid by (subst lower_bound.simps) (auto simp: Let_def simp flip: mid_def)
    qed
  qed (subst lower_bound.simps, simp)
qed

lemma lower_bound_sorted:
  assumes "sorted ks"
  shows "0 \<le> l \<Longrightarrow> l \<le> r \<Longrightarrow> r < int (length ks) \<Longrightarrow> \<forall>j < nat l. ks ! j < ip \<Longrightarrow> lower_bound ks ip l r = Some i \<Longrightarrow>
    (\<forall>j < nat i. ks ! j < ip) \<and> (i < r \<longrightarrow> ip \<le> ks ! nat i)"
  using assms
proof (induction ks ip l r rule: lower_bound.induct)
  case (1 ks ip l r)
  show ?case
  proof (cases "l < r")
    case True
    define mid where "mid = (l + r) div 2"
    have mid: "l \<le> mid" "mid < r" using True by (auto simp: mid_def)
    then have rdm: "rd_int ks mid = Some (ks ! nat mid)" using 1(3,5) by (simp add: rd_int_def rd_def)
    show ?thesis
    proof (cases "ks ! nat mid < ip")
      case T: True
      have "\<forall>j < nat (mid + 1). ks ! j < ip"
      proof (intro allI impI)
        fix j assume "j < nat (mid + 1)"
        then have "j \<le> nat mid" using mid 1(3) by linarith
        then have "ks ! j \<le> ks ! nat mid" using 1(3,5,8) mid by (intro sorted_nth_mono) auto
        then show "ks ! j < ip" using T by simp
      qed
      moreover have "lower_bound ks ip (mid + 1) r = Some i"
        using 1(7) True T rdm by (subst (asm) lower_bound.simps) (simp add: Let_def flip: mid_def)
      ultimately show ?thesis using 1(1)[OF True mid_def rdm T] mid 1(3-8) by simp
    next
      case F: False
      have eq: "lower_bound ks ip l mid = Some i"
        using 1(7) True F rdm by (subst (asm) lower_bound.simps) (simp add: Let_def flip: mid_def)
      have "(\<forall>j < nat i. ks ! j < ip) \<and> (i < mid \<longrightarrow> ip \<le> ks ! nat i)"
        using 1(2)[OF True mid_def rdm F] mid 1(3-8) eq by simp
      moreover have "i \<le> mid" using lower_bound_range[of l mid ks ip] eq mid 1(3,5) by auto
      ultimately show ?thesis using F by (cases "i = mid") auto
    qed
  next
    case False
    then have "i = l" using 1(7) by (subst (asm) lower_bound.simps) simp
    then show ?thesis using 1(4,6) False by simp
  qed
qed

text \<open>On the first \<open>cnt\<close> keys of a table the search returns a position, and it is a miss when the key
  there differs or there is none.\<close>

lemma arp_search:
  assumes "cnt \<le> length ks"
  obtains l where "lower_bound ks ip 0 (int cnt - 1) = Some (int l)" "l \<le> cnt - 1"
    "arp_miss ks cnt ip (int l) = Some (cnt = 0 \<or> ks ! l \<noteq> ip)"
proof -
  obtain i where i: "lower_bound ks ip 0 (int cnt - 1) = Some i" "0 \<le> i" "i \<le> max 0 (int cnt - 1)"
    using lower_bound_range[of 0 "int cnt - 1" ks ip] assms by auto
  show ?thesis
  proof (rule that[of "nat i"])
    show "arp_miss ks cnt ip (int (nat i)) = Some (cnt = 0 \<or> ks ! nat i \<noteq> ip)"
      using i assms by (auto simp: arp_miss_def rd_int_def rd_def)
  qed (use i in auto)
qed

lemma time_add_ms_Some: "\<exists>t'. ducknet_time_add_ms f t ms = Some t'"
  by (simp add: ducknet_time_add_ms_def mul_div_def c_div_def Let_def)

section \<open>Sending\<close>

definition arp_frame :: "bytes \<Rightarrow> bytes \<Rightarrow> u16 \<Rightarrow> bytes \<Rightarrow> bytes" where
  "arp_frame dst src op payload = ether_frame dst src ETHERTYPE_ARP
     (bytes16 (ducknet_htons 1) @ bytes16 (ducknet_htons 0x0800) @ [6, 4] @ bytes16 (ducknet_htons op) @ payload)"

lemma take_blits_arp:
  assumes "length buf = MAX_MTU + 64" "length dst = 6" "length src = 6" "length data + 8 \<le> MAX_MTU"
  shows "take (length data + 22) (blit (blit ((blit (blit (blit (blit (blit buf 0 dst) 6 src) 12 (bytes16 x)) 14 (bytes16 y)) 16
      (bytes16 z))[18 := h, 19 := p]) 20 (bytes16 w)) 22 data) =
    dst @ src @ bytes16 x @ bytes16 y @ bytes16 z @ [h, p] @ bytes16 w @ data"
proof -
  have buf: "blit (blit (blit (blit (blit buf 0 dst) 6 src) 12 (bytes16 x)) 14 (bytes16 y)) 16 (bytes16 z) =
      dst @ src @ bytes16 x @ bytes16 y @ bytes16 z @ drop 18 buf" (is "?b = _")
    using assms by (simp add: blit_def)
  have r: "drop 18 buf = buf ! 18 # buf ! 19 # drop 20 buf"
    using Cons_nth_drop_Suc[of 18 buf] Cons_nth_drop_Suc[of 19 buf] assms(1) by simp
  define hp where "hp = [h, p]"
  have "?b[18 := h, 19 := p] = dst @ src @ bytes16 x @ bytes16 y @ bytes16 z @ hp @ drop 20 buf"
    using assms by (simp add: buf r list_update_append hp_def)
  moreover have "length hp = 2" by (simp add: hp_def)
  ultimately show ?thesis unfolding hp_def[symmetric] using assms by (simp add: blit_def)
qed

lemma arp_send_frame:
  assumes "net_wf n" "length dst = 6" "length payload + 8 \<le> MAX_MTU"
  obtains buf where "length buf = MAX_MTU + 64"
    "ducknet_arp_send hk dst op payload (int (length payload)) n =
     Some (ducknet_phy_send hk (arp_frame dst (dn_mac n) op payload) (n\<lparr>sendbuf := buf\<rparr>))"
proof -
  have wf: "length (sendbuf n) = MAX_MTU + 64" "length (dn_mac n) = 6" "dn_MTU n = 1500"
    using assms(1) by (simp_all add: net_wf_def)
  let ?b1 = "blit (blit (blit (blit (blit (sendbuf n) 0 dst) 6 (dn_mac n)) 12 (bytes16 (ducknet_htons ETHERTYPE_ARP))) 14
      (bytes16 (ducknet_htons 1))) 16 (bytes16 (ducknet_htons 0x0800))"
  let ?b2 = "blit (?b1[18 := 6, 19 := 4]) 20 (bytes16 (ducknet_htons op))"
  let ?buf = "blit ?b2 22 payload"
  have len: "length ?b1 = MAX_MTU + 64" "length ?b2 = MAX_MTU + 64" "length ?buf = MAX_MTU + 64"
    using wf assms by (simp_all add: MAX_MTU_def)
  have "ducknet_arp_send hk dst op payload (int (length payload)) n =
      Some (ducknet_phy_send hk (take (22 + length payload) ?buf) (n\<lparr>sendbuf := ?buf\<rparr>))"
    using wf assms len by (simp add: ducknet_arp_send_def MAX_MTU_def opt_simps)
  moreover have "take (22 + length payload) ?buf = arp_frame dst (dn_mac n) op payload"
    using take_blits_arp[OF wf(1) assms(2) wf(2) assms(3)] by (simp add: arp_frame_def ether_frame_def add.commute)
  ultimately show ?thesis using that len(3) by simp
qed

lemma length_arp_payload: "length sha = 6 \<Longrightarrow> length tha = 6 \<Longrightarrow> length (arp_payload sha spa tha tpa) = 20"
  by (simp add: arp_payload_def)

section \<open>Well-formedness\<close>

lemma arp_update_wf:
  assumes "net_wf n" "length mac = 6"
  obtains r n' where "ducknet_arp_update ip mac n = Some (r, n')" "net_wf n'" "r \<in> {0, - 1}"
    "dn_sent n' = dn_sent n" "dn_ip n' = dn_ip n" "dn_mac n' = dn_mac n"
proof -
  let ?ks = "map ae_ip (arp_table n)" and ?cnt = "n_arp_entries n"
  have tab: "length (arp_table n) = ARP_TABLE_SIZE" "?cnt \<le> ARP_TABLE_SIZE"
    "\<forall>e \<in> set (take ?cnt (arp_table n)). length (ae_mac e) = 6"
    using assms(1) by (simp_all add: net_wf_def)
  have "?cnt \<le> length ?ks" using tab by simp
  then obtain l where l: "lower_bound ?ks ip 0 (int ?cnt - 1) = Some (int l)" "l \<le> ?cnt - 1"
    "arp_miss ?ks ?cnt ip (int l) = Some (?cnt = 0 \<or> ?ks ! l \<noteq> ip)" by (rule arp_search)
  obtain t where t: "ducknet_time_add_ms (dn_tsc_freq n) (currenttime n) ARP_EXPIRE_TIMEOUT_MS = Some t"
    using time_add_ms_Some by blast
  let ?e = "\<lparr>ae_ip = ip, ae_mac = mac, ae_expire = t\<rparr>"
  show ?thesis
  proof (cases "?cnt = 0 \<or> ?ks ! l \<noteq> ip")
    case miss: True
    show ?thesis
    proof (cases "?cnt = ARP_TABLE_SIZE")
      case True
      then show ?thesis using that[of "- 1" n] l miss assms(1) by (simp add: ducknet_arp_update_def Let_def)
    next
      case False
      then have lt: "?cnt < ARP_TABLE_SIZE" using tab by simp
      let ?tab = "(blit (arp_table n) (l + 1) (take (?cnt - l) (drop l (arp_table n))))[l := ?e]"
      have run: "ducknet_arp_update ip mac n = Some (0, n\<lparr>arp_table := ?tab, n_arp_entries := ?cnt + 1\<rparr>)"
        using l miss lt tab t by (simp add: ducknet_arp_update_def opt_simps Let_def)
      have "set (take (?cnt + 1) ?tab) \<subseteq> insert ?e (set (take ?cnt (arp_table n)))"
        using table_insert_set[of l ?cnt "arp_table n" ?e] l(2) lt tab by simp
      then have "net_wf (n\<lparr>arp_table := ?tab, n_arp_entries := ?cnt + 1\<rparr>)"
        using assms tab lt l(2) by (auto simp: net_wf_def)
      with run that show ?thesis by simp
    qed
  next
    case hit: False
    let ?tab = "(arp_table n)[l := ?e]"
    have "l < ?cnt" using l(2) hit by auto
    then have run: "ducknet_arp_update ip mac n = Some (0, n\<lparr>arp_table := ?tab, n_arp_entries := ?cnt\<rparr>)"
      using l hit tab t by (simp add: ducknet_arp_update_def opt_simps Let_def)
    have "set (take ?cnt ?tab) \<subseteq> insert ?e (set (take ?cnt (arp_table n)))"
      by (simp add: take_update_swap set_update_subset_insert)
    then have "net_wf (n\<lparr>arp_table := ?tab, n_arp_entries := ?cnt\<rparr>)"
      using assms tab by (auto simp: net_wf_def)
    with run that show ?thesis by simp
  qed
qed

lemma arp_lookup_wf:
  assumes "net_wf n"
  obtains r where "ducknet_arp_lookup ip n = Some r" "\<And>mac. r = Some mac \<Longrightarrow> length mac = 6"
proof -
  let ?ks = "map ae_ip (arp_table n)" and ?cnt = "n_arp_entries n"
  have tab: "length (arp_table n) = ARP_TABLE_SIZE" "?cnt \<le> ARP_TABLE_SIZE"
    "\<forall>e \<in> set (take ?cnt (arp_table n)). length (ae_mac e) = 6"
    using assms(1) by (simp_all add: net_wf_def)
  have "?cnt \<le> length ?ks" using tab by simp
  then obtain l where l: "lower_bound ?ks ip 0 (int ?cnt - 1) = Some (int l)" "l \<le> ?cnt - 1"
    "arp_miss ?ks ?cnt ip (int l) = Some (?cnt = 0 \<or> ?ks ! l \<noteq> ip)" by (rule arp_search)
  show ?thesis
  proof (cases "?cnt = 0 \<or> ?ks ! l \<noteq> ip")
    case True
    then show ?thesis using that[of None] l by (simp add: ducknet_arp_lookup_def)
  next
    case False
    then have "l < ?cnt" using l(2) by auto
    then have "arp_table n ! l \<in> set (take ?cnt (arp_table n))" using tab by (auto simp: in_set_conv_nth)
    then show ?thesis
      using that[of "Some (ae_mac (arp_table n ! l))"] False l tab \<open>l < ?cnt\<close>
      by (simp add: ducknet_arp_lookup_def rd_int_def rd_def)
  qed
qed

lemma arp_query_wf:
  assumes "net_wf n"
  obtains r n' where "ducknet_arp_query hk ip n = Some (r, n')" "net_wf n'" "dn_ip n' = dn_ip n" "dn_mac n' = dn_mac n"
    "tosend_table n' = tosend_table n" "tosend_free n' = tosend_free n"
proof -
  let ?ks = "map aq_ip (arp_query_table n)" and ?cnt = "n_arp_queries n"
  have tab: "length (arp_query_table n) = ARP_TABLE_SIZE" "?cnt \<le> ARP_TABLE_SIZE" "length (dn_mac n) = 6"
    using assms(1) by (simp_all add: net_wf_def)
  have "?cnt \<le> length ?ks" using tab by simp
  then obtain l where l: "lower_bound ?ks ip 0 (int ?cnt - 1) = Some (int l)" "l \<le> ?cnt - 1"
    "arp_miss ?ks ?cnt ip (int l) = Some (?cnt = 0 \<or> ?ks ! l \<noteq> ip)" by (rule arp_search)
  obtain t where t: "ducknet_time_add_ms (dn_tsc_freq n) (currenttime n) ARP_QUERY_TIMEOUT_MS = Some t"
    using time_add_ms_Some by blast
  show ?thesis
  proof (cases "?cnt = 0 \<or> ?ks ! l \<noteq> ip")
    case miss: True
    show ?thesis
    proof (cases "?cnt = ARP_TABLE_SIZE")
      case True
      then show ?thesis using that[of "- 1" n] l miss assms(1) by (simp add: ducknet_arp_query_def Let_def)
    next
      case False
      then have lt: "?cnt < ARP_TABLE_SIZE" using tab by simp
      let ?tab = "(blit (arp_query_table n) (l + 1) (take (?cnt - l) (drop l (arp_query_table n))))
        [l := \<lparr>aq_ip = ip, aq_expire = t\<rparr>]"
      let ?n = "n\<lparr>arp_query_table := ?tab, n_arp_queries := ?cnt + 1\<rparr>"
      let ?p = "arp_payload (dn_mac n) (dn_ip n) (replicate 6 0) ip"
      have wf: "net_wf ?n" using assms tab lt l(2) by (simp add: net_wf_def)
      have p: "length ?p = 20" using tab by (simp add: length_arp_payload)
      have run: "ducknet_arp_query hk ip n =
          ducknet_arp_send hk ducknet_ether_broadcast_addr ARP_REQUEST ?p (int (length ?p)) ?n"
        using l miss lt tab t p by (simp add: ducknet_arp_query_def opt_simps Let_def)
      obtain buf where buf: "length buf = MAX_MTU + 64"
        "ducknet_arp_send hk ducknet_ether_broadcast_addr ARP_REQUEST ?p (int (length ?p)) ?n =
         Some (ducknet_phy_send hk (arp_frame ducknet_ether_broadcast_addr (dn_mac ?n) ARP_REQUEST ?p) (?n\<lparr>sendbuf := buf\<rparr>))"
        by (rule arp_send_frame[OF wf, of ducknet_ether_broadcast_addr ?p hk ARP_REQUEST])
          (simp_all add: ducknet_ether_broadcast_addr_def p MAX_MTU_def)
      let ?s = "ducknet_phy_send hk (arp_frame ducknet_ether_broadcast_addr (dn_mac ?n) ARP_REQUEST ?p) (?n\<lparr>sendbuf := buf\<rparr>)"
      have "ducknet_arp_query hk ip n = Some (fst ?s, snd ?s)" unfolding run buf(2) by simp
      then show ?thesis by (rule that) (use net_wf_sendbuf[OF wf buf(1)] in simp_all)
    qed
  next
    case hit: False
    then show ?thesis using that[of 0 n] l assms(1) by (simp add: ducknet_arp_query_def Let_def)
  qed
qed

lemma arp_compact_filter:
  assumes "cnt \<le> length tab"
  obtains tab' where "arp_compact P cnt tab = Some (length (filter (\<lambda>e. \<not> P e) (take cnt tab)), tab')" "length tab' = length tab"
    "take (length (filter (\<lambda>e. \<not> P e) (take cnt tab))) tab' = filter (\<lambda>e. \<not> P e) (take cnt tab)"
proof -
  let ?F = "\<lambda>i. filter (\<lambda>e. \<not> P e) (take i tab)"
  let ?I = "\<lambda>i (id, t). id = length (?F i) \<and> length t = length tab \<and> take id t = ?F i \<and> drop i t = drop i tab"
  let ?f = "\<lambda>i (id, tab). do { e \<leftarrow> rd tab i; if P e then Some (id, tab) else do { tab \<leftarrow> wr tab id e; Some (id + 1, tab) } }"
  have "\<exists>st. for_opt ?f [0..<cnt] (0, tab) = Some st \<and> ?I cnt st"
  proof (rule for_opt_upt_inv[where P = ?I])
    fix i st assume i: "i < cnt" and I: "?I i st"
    obtain id t where st: "st = (id, t)" by (cases st)
    have it: "i < length tab" using i assms by simp
    have I': "id = length (?F i)" "length t = length tab" "take id t = ?F i" "drop i t = drop i tab"
      using I unfolding st by auto
    have ti: "t ! i = tab ! i" using hd_drop_conv_nth[of i t] hd_drop_conv_nth[of i tab] it I'(2,4) by simp
    have id: "id \<le> i" using I'(1) length_filter_le[of "\<lambda>e. \<not> P e" "take i tab"] it by simp
    have dropt: "drop (Suc i) t = drop (Suc i) tab" using arg_cong[OF I'(4), of tl] by (simp add: drop_Suc tl_drop)
    have idlt: "id < length t" using id it I'(2) by simp
    have F: "?F (Suc i) = ?F i @ (if P (tab ! i) then [] else [tab ! i])"
      using it by (simp add: take_Suc_conv_app_nth)
    have tk: "take (Suc id) (t[id := tab ! i]) = ?F i @ [tab ! i]"
      using idlt by (simp add: take_Suc_conv_app_nth I'(3))
    show "\<exists>st'. ?f i st = Some st' \<and> ?I (Suc i) st'"
    proof (cases "P (tab ! i)")
      case True
      then show ?thesis using I' ti it dropt F unfolding st by (simp add: rd_def)
    next
      case False
      then show ?thesis using I' ti it id idlt dropt F tk unfolding st by (simp add: rd_def wr_def)
    qed
  qed simp_all
  then show ?thesis using that by (auto simp: arp_compact_def)
qed

lemma arp_idle_wf:
  assumes "net_wf n"
  obtains n' where "ducknet_arp_idle n = Some (0, n')" "net_wf n'" "dn_sent n' = dn_sent n"
proof -
  let ?m = "n\<lparr>arp_cnt := arp_cnt n + 1\<rparr>"
  show ?thesis
  proof (cases "arp_cnt ?m < 128 \<and> currenttime ?m - arp_last_idle ?m \<le> arp_idle_delay ?m")
    case True
    then show ?thesis using that[of ?m] assms by (simp add: ducknet_arp_idle_def Let_def)
  next
    case False
    let ?k = "n\<lparr>arp_cnt := 0, arp_last_idle := currenttime n\<rparr>"
    have tab: "n_arp_entries n \<le> length (arp_table n)" "n_arp_queries n \<le> length (arp_query_table n)"
      using assms by (simp_all add: net_wf_def)
    let ?P = "\<lambda>e. \<not> ARP_NEVER_EXPIRE \<and> currenttime n > ae_expire e" and ?Q = "\<lambda>q. currenttime n > aq_expire q"
    let ?es = "filter (\<lambda>e. \<not> ?P e) (take (n_arp_entries n) (arp_table n))"
    let ?qs = "filter (\<lambda>q. \<not> ?Q q) (take (n_arp_queries n) (arp_query_table n))"
    obtain t where t: "arp_compact ?P (n_arp_entries n) (arp_table n) = Some (length ?es, t)"
      "length t = length (arp_table n)" "take (length ?es) t = ?es" by (rule arp_compact_filter[OF tab(1)])
    obtain q where q: "arp_compact ?Q (n_arp_queries n) (arp_query_table n) = Some (length ?qs, q)"
      "length q = length (arp_query_table n)" "take (length ?qs) q = ?qs" by (rule arp_compact_filter[OF tab(2)])
    let ?n' = "?k\<lparr>arp_table := t, n_arp_entries := length ?es, arp_query_table := q, n_arp_queries := length ?qs\<rparr>"
    have run: "ducknet_arp_idle n = Some (0, ?n')"
      unfolding ducknet_arp_idle_def Let_def if_not_P[OF False] using t(1) q(1) by simp
    have "length ?es \<le> n_arp_entries n" "length ?qs \<le> n_arp_queries n"
      using length_filter_le[of _ "take (n_arp_entries n) (arp_table n)"]
        length_filter_le[of _ "take (n_arp_queries n) (arp_query_table n)"] tab by (auto intro: le_trans)
    moreover have "\<forall>e \<in> set (take (length ?es) t). length (ae_mac e) = 6"
      unfolding t(3) using assms by (simp add: net_wf_def)
    ultimately have "net_wf ?n'" using assms t(2) q(2) unfolding net_wf_def by simp
    with run that show ?thesis by simp
  qed
qed

section \<open>The table as a map\<close>

lemma lower_bound_take:
  "0 \<le> l \<Longrightarrow> r < int m \<Longrightarrow> m \<le> length ks \<Longrightarrow> lower_bound (take m ks) ip l r = lower_bound ks ip l r"
proof (induction ks ip l r rule: lower_bound.induct)
  case (1 ks ip l r)
  show ?case
  proof (cases "l < r")
    case True
    define mid where "mid = (l + r) div 2"
    have mid: "l \<le> mid" "mid < r" using True by (auto simp: mid_def)
    then have rdm: "rd_int ks mid = Some (ks ! nat mid)" "rd_int (take m ks) mid = Some (ks ! nat mid)"
      using 1(3-5) by (simp_all add: rd_int_def rd_def)
    show ?thesis
      using True rdm mid 1(1)[OF True mid_def rdm(1)] 1(2)[OF True mid_def rdm(1)] 1(3-5)
      by (subst (1 2) lower_bound.simps) (simp add: Let_def flip: mid_def)
  qed (subst (1 2) lower_bound.simps, simp)
qed

definition known :: "Ducknet \<Rightarrow> ArpEntry list" where
  "known n = take (n_arp_entries n) (arp_table n)"

definition neighbours :: "Ducknet \<Rightarrow> u32 \<Rightarrow> bytes option" where
  "neighbours n = map_of (map (\<lambda>e. (ae_ip e, ae_mac e)) (known n))"

definition arp_sorted :: "Ducknet \<Rightarrow> bool" where
  "arp_sorted n \<longleftrightarrow> sorted_wrt (<) (map ae_ip (known n))"

text \<open>A search in a strictly sorted table finds the key or the place where it belongs, except that a
  key above all others ends at the last entry instead of behind it.\<close>

lemma sorted_search:
  assumes wf: "net_wf n" and sorted: "arp_sorted n"
  obtains l where "lower_bound (map ae_ip (arp_table n)) ip 0 (int (n_arp_entries n) - 1) = Some (int l)"
    "arp_miss (map ae_ip (arp_table n)) (n_arp_entries n) ip (int l) = Some (known n = [] \<or> ae_ip (known n ! l) \<noteq> ip)"
    "known n \<noteq> [] \<Longrightarrow> l < length (known n)" "known n = [] \<Longrightarrow> l = 0"
    "\<And>j. j < l \<Longrightarrow> ae_ip (known n ! j) < ip" "l + 1 < length (known n) \<Longrightarrow> ip \<le> ae_ip (known n ! l)"
proof -
  let ?cnt = "n_arp_entries n" and ?t = "map ae_ip (arp_table n)" and ?ks = "map ae_ip (known n)"
  have tab: "?cnt \<le> length ?t" using wf by (simp add: net_wf_def)
  have len: "length (known n) = ?cnt" using tab by (simp add: known_def)
  obtain l where l: "lower_bound ?t ip 0 (int ?cnt - 1) = Some (int l)" "l \<le> ?cnt - 1"
    "arp_miss ?t ?cnt ip (int l) = Some (?cnt = 0 \<or> ?t ! l \<noteq> ip)" by (rule arp_search[OF tab])
  have nth: "known n ! j = arp_table n ! j" if "j < ?cnt" for j using that by (simp add: known_def)
  show ?thesis
  proof (cases "?cnt = 0")
    case True
    then show ?thesis using that[of l] l len by simp
  next
    case False
    have lt: "l < ?cnt" using False l(2) by simp
    have "?ks = take ?cnt ?t" by (simp add: known_def take_map)
    then have eq: "lower_bound ?ks ip 0 (int ?cnt - 1) = Some (int l)"
      using lower_bound_take[of 0 "int ?cnt - 1" ?cnt ?t ip] tab l(1) by simp
    have "sorted ?ks" using sorted unfolding arp_sorted_def by (simp add: strict_sorted_imp_sorted)
    then have sp: "(\<forall>j < l. ?ks ! j < ip) \<and> (int l < int ?cnt - 1 \<longrightarrow> ip \<le> ?ks ! l)"
      using lower_bound_sorted[of ?ks 0 "int ?cnt - 1" ip "int l"] eq False len by simp
    show ?thesis
      by (rule that[of l]) (use l lt len sp nth False tab in auto)
  qed
qed

lemma arp_lookup_neighbours:
  assumes "net_wf n" "arp_sorted n"
  shows "ducknet_arp_lookup ip n = Some (neighbours n ip)"
proof -
  obtain l where l: "lower_bound (map ae_ip (arp_table n)) ip 0 (int (n_arp_entries n) - 1) = Some (int l)"
    "arp_miss (map ae_ip (arp_table n)) (n_arp_entries n) ip (int l) = Some (known n = [] \<or> ae_ip (known n ! l) \<noteq> ip)"
    "known n \<noteq> [] \<Longrightarrow> l < length (known n)" "known n = [] \<Longrightarrow> l = 0"
    "\<And>j. j < l \<Longrightarrow> ae_ip (known n ! j) < ip" "l + 1 < length (known n) \<Longrightarrow> ip \<le> ae_ip (known n ! l)"
    by (rule sorted_search[OF assms]) blast
  have dist: "distinct (map fst (map (\<lambda>e. (ae_ip e, ae_mac e)) (known n)))"
    using assms(2) by (simp add: arp_sorted_def strict_sorted_iff comp_def)
  show ?thesis
  proof (cases "known n = [] \<or> ae_ip (known n ! l) \<noteq> ip")
    case True
    have "ip \<notin> ae_ip ` set (known n)"
    proof
      assume "ip \<in> ae_ip ` set (known n)"
      then obtain j where j: "j < length (known n)" "ae_ip (known n ! j) = ip" by (auto simp: in_set_conv_nth)
      then have ne: "known n \<noteq> []" "j \<noteq> l" using True by auto
      have "\<not> j < l" using l(5)[of j] j by auto
      then have "l < j" using ne by simp
      then have "ae_ip (known n ! l) < ip" "ip \<le> ae_ip (known n ! l)"
        using assms(2) j l(6) by (auto simp: arp_sorted_def sorted_wrt_iff_nth_less)
      then show False by simp
    qed
    then have "neighbours n ip = None" by (simp add: neighbours_def map_of_eq_None_iff image_image)
    then show ?thesis using l(1,2) True by (simp add: ducknet_arp_lookup_def)
  next
    case False
    then have lt: "l < length (known n)" "ae_ip (known n ! l) = ip" using l(3) by auto
    then have "(ip, ae_mac (known n ! l)) \<in> set (map (\<lambda>e. (ae_ip e, ae_mac e)) (known n))"
      by (auto simp: in_set_conv_nth intro!: exI[of _ l])
    then have "neighbours n ip = Some (ae_mac (known n ! l))"
      using dist by (simp only: neighbours_def map_of_eq_Some_iff)
    moreover have "rd_int (arp_table n) (int l) = Some (known n ! l)"
      using lt assms(1) by (auto simp: known_def rd_int_def rd_def net_wf_def)
    ultimately show ?thesis using l(1,2) False by (simp add: ducknet_arp_lookup_def)
  qed
qed

lemma map_of_list_update:
  "distinct (map fst xs) \<Longrightarrow> l < length xs \<Longrightarrow> fst (xs ! l) = k \<Longrightarrow> map_of (xs[l := (k, v)]) = (map_of xs)(k \<mapsto> v)"
proof (induction xs arbitrary: l)
  case (Cons x xs)
  then show ?case
  proof (cases l)
    case (Suc m)
    then have "xs ! m \<in> set xs" "fst (xs ! m) = k" using Cons.prems by auto
    then have "fst x \<noteq> k" using Cons.prems(1) by auto
    then show ?thesis using Cons Suc by (cases x) (auto simp: fun_upd_twist)
  qed (cases x, auto simp: fun_eq_iff)
qed simp

lemma map_of_insert:
  "k \<notin> fst ` set xs \<Longrightarrow> map_of (xs @ (k, v) # ys) = (map_of (xs @ ys))(k \<mapsto> v)"
  by (induction xs) (auto simp: fun_upd_twist)

text \<open>The address is not above all known ones, and there is room for it.\<close>

definition arp_fits :: "u32 \<Rightarrow> Ducknet \<Rightarrow> bool" where
  "arp_fits ip n \<longleftrightarrow> (known n = [] \<or> ip \<le> ae_ip (last (known n))) \<and>
     (n_arp_entries n < ARP_TABLE_SIZE \<or> neighbours n ip \<noteq> None)"

lemma neighbours_Some_iff: "neighbours n ip \<noteq> None \<longleftrightarrow> ip \<in> ae_ip ` set (known n)"
proof -
  have "neighbours n ip = None \<longleftrightarrow> ip \<notin> ae_ip ` set (known n)"
    by (simp add: neighbours_def map_of_eq_None_iff image_image)
  then show ?thesis by (simp only: not_not)
qed

lemma arp_update_hit:
  assumes "net_wf n" "arp_sorted n" "l < length (known n)" "ae_ip (known n ! l) = ip"
    and n': "n' = n\<lparr>arp_table := (arp_table n)[l := \<lparr>ae_ip = ip, ae_mac = mac, ae_expire = t\<rparr>], n_arp_entries := n_arp_entries n\<rparr>"
  shows "arp_sorted n' \<and> neighbours n' = (neighbours n)(ip \<mapsto> mac)"
proof -
  have k: "known n' = (known n)[l := \<lparr>ae_ip = ip, ae_mac = mac, ae_expire = t\<rparr>]"
    by (simp add: known_def n' take_update_swap)
  have "map ae_ip (known n') = map ae_ip (known n)"
    using assms(3,4) by (simp add: k map_update) (metis assms(4) length_map list_update_id nth_map)
  moreover have "map_of ((map (\<lambda>e. (ae_ip e, ae_mac e)) (known n))[l := (ip, mac)]) =
      (map_of (map (\<lambda>e. (ae_ip e, ae_mac e)) (known n)))(ip \<mapsto> mac)"
    using assms(2-4) by (intro map_of_list_update) (auto simp: arp_sorted_def strict_sorted_iff comp_def)
  ultimately show ?thesis using assms(2) by (simp add: arp_sorted_def neighbours_def k map_update)
qed

lemma arp_update_miss:
  assumes "net_wf n" "arp_sorted n" "known n' = take l (known n) @ \<lparr>ae_ip = ip, ae_mac = mac, ae_expire = t\<rparr> # drop l (known n)"
    and "l \<le> length (known n)" "\<And>j. j < l \<Longrightarrow> ae_ip (known n ! j) < ip" "\<And>j. l \<le> j \<Longrightarrow> j < length (known n) \<Longrightarrow> ip < ae_ip (known n ! j)"
  shows "arp_sorted n' \<and> neighbours n' = (neighbours n)(ip \<mapsto> mac)"
proof -
  have lo: "x < ip" if "x \<in> set (map ae_ip (take l (known n)))" for x
    using that assms(4,5) by (auto simp: in_set_conv_nth)
  have hi: "ip < x" if "x \<in> set (map ae_ip (drop l (known n)))" for x
    using that assms(6) by (auto simp: in_set_conv_nth)
  have "sorted_wrt (<) (map ae_ip (take l (known n) @ drop l (known n)))"
    using assms(2) by (simp add: arp_sorted_def)
  then have "sorted_wrt (<) (map ae_ip (known n'))"
    unfolding assms(3) map_append sorted_wrt_append using lo hi by (auto dest: order.strict_trans)
  moreover have "ip \<notin> fst ` set (map (\<lambda>e. (ae_ip e, ae_mac e)) (take l (known n)))"
    using lo by (force simp: image_image)
  from map_of_insert[OF this, of mac "map (\<lambda>e. (ae_ip e, ae_mac e)) (drop l (known n))"]
  have "neighbours n' = (map_of (map (\<lambda>e. (ae_ip e, ae_mac e)) (take l (known n) @ drop l (known n))))(ip \<mapsto> mac)"
    by (simp only: neighbours_def assms(3) map_append list.map ArpEntry.simps)
  then have "neighbours n' = (neighbours n)(ip \<mapsto> mac)" by (simp only: append_take_drop_id neighbours_def)
  ultimately show ?thesis by (simp add: arp_sorted_def)
qed

lemma arp_update_neighbours:
  assumes "net_wf n" "arp_sorted n" "arp_fits ip n" "length mac = 6"
  obtains n' where "ducknet_arp_update ip mac n = Some (0, n')" "net_wf n'" "arp_sorted n'"
    "neighbours n' = (neighbours n)(ip \<mapsto> mac)"
proof -
  obtain l where l: "lower_bound (map ae_ip (arp_table n)) ip 0 (int (n_arp_entries n) - 1) = Some (int l)"
    "arp_miss (map ae_ip (arp_table n)) (n_arp_entries n) ip (int l) = Some (known n = [] \<or> ae_ip (known n ! l) \<noteq> ip)"
    "known n \<noteq> [] \<Longrightarrow> l < length (known n)" "known n = [] \<Longrightarrow> l = 0"
    "\<And>j. j < l \<Longrightarrow> ae_ip (known n ! j) < ip" "l + 1 < length (known n) \<Longrightarrow> ip \<le> ae_ip (known n ! l)"
    by (rule sorted_search[OF assms(1,2)]) blast
  have tab: "length (arp_table n) = ARP_TABLE_SIZE" "n_arp_entries n \<le> ARP_TABLE_SIZE" "length (known n) = n_arp_entries n"
    using assms(1) by (simp_all add: net_wf_def known_def)
  obtain t where t: "ducknet_time_add_ms (dn_tsc_freq n) (currenttime n) ARP_EXPIRE_TIMEOUT_MS = Some t"
    using time_add_ms_Some by blast
  let ?e = "\<lparr>ae_ip = ip, ae_mac = mac, ae_expire = t\<rparr>"
  obtain r n0 where wf: "ducknet_arp_update ip mac n = Some (r, n0)" "net_wf n0"
    by (rule arp_update_wf[OF assms(1,4)])
  show ?thesis
  proof (cases "known n = [] \<or> ae_ip (known n ! l) \<noteq> ip")
    case False
    then have lt: "l < length (known n)" "ae_ip (known n ! l) = ip" using l(3) by auto
    let ?n' = "n\<lparr>arp_table := (arp_table n)[l := ?e], n_arp_entries := n_arp_entries n\<rparr>"
    have "ducknet_arp_update ip mac n = Some (0, ?n')"
      using l(1,2) False lt tab t by (simp add: ducknet_arp_update_def wr_def Let_def)
    moreover have "net_wf ?n'" using calculation wf by (simp only: option.inject prod.inject)
    ultimately show ?thesis
      using that arp_update_hit[OF assms(1,2) lt refl, of mac t] by blast
  next
    case miss: True
    have gt: "ip < ae_ip (known n ! j)" if "l \<le> j" "j < length (known n)" for j
    proof -
      have ne: "known n \<noteq> []" using that by auto
      have "ip \<le> ae_ip (known n ! l)"
      proof (cases "l + 1 < length (known n)")
        case False
        then have "l = length (known n) - 1" using l(3)[OF ne] by simp
        then show ?thesis using assms(3) ne by (simp add: arp_fits_def last_conv_nth)
      qed (rule l(6))
      then have "ip < ae_ip (known n ! l)" using miss ne by (simp add: order.not_eq_order_implies_strict)
      moreover have "ae_ip (known n ! l) \<le> ae_ip (known n ! j)"
        using that assms(2) by (cases "l = j") (auto simp: arp_sorted_def sorted_wrt_iff_nth_less intro: less_imp_le)
      ultimately show ?thesis by (rule order.strict_trans2)
    qed
    have "neighbours n ip = None"
    proof -
      have "ip \<notin> ae_ip ` set (known n)"
      proof
        assume "ip \<in> ae_ip ` set (known n)"
        then obtain j where "j < length (known n)" "ae_ip (known n ! j) = ip" by (auto simp: in_set_conv_nth)
        then show False using l(5)[of j] gt[of j] by (cases "j < l") auto
      qed
      then show ?thesis using neighbours_Some_iff by blast
    qed
    then have room: "n_arp_entries n < ARP_TABLE_SIZE" using assms(3) by (simp add: arp_fits_def)
    have lle: "l \<le> n_arp_entries n" using l(3,4) tab by (cases "known n = []") auto
    let ?tab = "(blit (arp_table n) (l + 1) (take (n_arp_entries n - l) (drop l (arp_table n))))[l := ?e]"
    let ?n' = "n\<lparr>arp_table := ?tab, n_arp_entries := n_arp_entries n + 1\<rparr>"
    have run: "ducknet_arp_update ip mac n = Some (0, ?n')"
      using l(1,2) miss room tab t lle by (simp add: ducknet_arp_update_def opt_simps Let_def)
    have k: "known ?n' = take l (known n) @ ?e # drop l (known n)"
      using table_insert[of l "n_arp_entries n" "arp_table n" ?e] lle room tab by (simp add: known_def min_def)
    have "arp_sorted ?n' \<and> neighbours ?n' = (neighbours n)(ip \<mapsto> mac)"
      by (rule arp_update_miss[OF assms(1,2) k]) (use lle tab l(5) gt in auto)
    with run wf that show ?thesis by simp
  qed
qed

section \<open>The cache as a map\<close>

text \<open>
  What the layers above rely on: a lookup after an update that fits returns the new address for the
  updated key and what it returned before for every other key.
\<close>

locale neighbour_cache =
  fixes inv :: "'s \<Rightarrow> bool" and fits :: "'k \<Rightarrow> 's \<Rightarrow> bool" and ok :: "'v \<Rightarrow> bool"
    and lookup :: "'k \<Rightarrow> 's \<Rightarrow> 'v option option" and update :: "'k \<Rightarrow> 'v \<Rightarrow> 's \<Rightarrow> (int \<times> 's) option"
  assumes lookup_total: "inv s \<Longrightarrow> lookup k s \<noteq> None"
    and update_lookup: "inv s \<Longrightarrow> fits k s \<Longrightarrow> ok v \<Longrightarrow> \<exists>s'. update k v s = Some (0, s') \<and> inv s' \<and>
      (\<forall>j. lookup j s' = (if j = k then Some (Some v) else lookup j s))"
begin

definition view :: "'s \<Rightarrow> 'k \<Rightarrow> 'v option" where
  "view s k = the (lookup k s)"

lemma lookup_view: "inv s \<Longrightarrow> lookup k s = Some (view s k)"
  using lookup_total[of s k] by (simp add: view_def)

lemma update_view:
  assumes "inv s" "fits k s" "ok v"
  shows "\<exists>s'. update k v s = Some (0, s') \<and> inv s' \<and> view s' = (view s)(k \<mapsto> v)"
proof -
  obtain s' where s': "update k v s = Some (0, s')" "inv s'" "\<forall>j. lookup j s' = (if j = k then Some (Some v) else lookup j s)"
    using update_lookup[OF assms] by blast
  then have "view s' = (view s)(k \<mapsto> v)" by (auto simp: view_def)
  then show ?thesis using s' by blast
qed

lemma lookup_after_two:
  assumes "inv s" "fits k s" "ok v" "k \<noteq> j"
  shows "\<exists>s1. update k v s = Some (0, s1) \<and> (fits j s1 \<longrightarrow> ok w \<longrightarrow>
    (\<exists>s2. update j w s1 = Some (0, s2) \<and> lookup k s2 = Some (Some v) \<and> lookup j s2 = Some (Some w)))"
proof -
  obtain s1 where s1: "update k v s = Some (0, s1)" "inv s1" "view s1 = (view s)(k \<mapsto> v)"
    using update_view[OF assms(1-3)] by blast
  have "\<exists>s2. update j w s1 = Some (0, s2) \<and> lookup k s2 = Some (Some v) \<and> lookup j s2 = Some (Some w)" if "fits j s1" "ok w"
    using update_view[OF s1(2) that] s1(3) assms(4) lookup_view by fastforce
  then show ?thesis using s1(1) by blast
qed

end

interpretation arp: neighbour_cache "\<lambda>n. net_wf n \<and> arp_sorted n" arp_fits "\<lambda>mac. length mac = 6"
  ducknet_arp_lookup ducknet_arp_update
proof unfold_locales
  fix s k assume "net_wf s \<and> arp_sorted s"
  then show "ducknet_arp_lookup k s \<noteq> None" by (simp add: arp_lookup_neighbours)
next
  fix s k v assume s: "net_wf s \<and> arp_sorted s" and f: "arp_fits k s" "length (v :: bytes) = 6"
  then obtain s' where "ducknet_arp_update k v s = Some (0, s')" "net_wf s'" "arp_sorted s'" "neighbours s' = (neighbours s)(k \<mapsto> v)"
    using arp_update_neighbours[of s k v] by blast
  then show "\<exists>s'. ducknet_arp_update k v s = Some (0, s') \<and> (net_wf s' \<and> arp_sorted s') \<and>
      (\<forall>j. ducknet_arp_lookup j s' = (if j = k then Some (Some v) else ducknet_arp_lookup j s))"
    using s by (simp add: arp_lookup_neighbours)
qed

section \<open>Packets\<close>

lemma arp_hton_bytes:
  "ducknet_arp_hton (x0 # x1 # x2 # x3 # x4 # x5 # x6 # x7 # r) = Some (x1 # x0 # x3 # x2 # x4 # x5 # x7 # x6 # r)"
  by (simp add: ducknet_arp_hton_def rd_def wr_def get16_def put16_def wr_range_def blit_def htons_le16)

lemma list8:
  assumes "8 \<le> length b"
  obtains x0 x1 x2 x3 x4 x5 x6 x7 r where "b = x0 # x1 # x2 # x3 # x4 # x5 # x6 # x7 # r"
  using assms by (auto simp: numeral_eq_Suc Suc_le_length_iff)

lemma arp_handle_wf:
  assumes wf: "net_wf n" and len: "len \<le> int (length pkt)"
  shows "returns net_wf (ducknet_arp_packet_handle hk pkt len n)"
proof (cases "len < 8")
  case False
  then have "8 \<le> length pkt" using len by simp
  then obtain x0 x1 x2 x3 x4 x5 x6 x7 r where pkt: "pkt = x0 # x1 # x2 # x3 # x4 # x5 # x6 # x7 # r" by (rule list8)
  define b where b: "b = x1 # x0 # x3 # x2 # x4 # x5 # x7 # x6 # r"
  have hton: "ducknet_arp_hton pkt = Some b" by (simp add: pkt arp_hton_bytes b)
  have g: "get16 b 0 = Some (le16 x1 x0)" "get16 b 2 = Some (le16 x3 x2)" "rd b 4 = Some x4" "rd b 5 = Some x5" "get16 b 6 = Some (le16 x7 x6)"
    by (simp_all add: b get16_def rd_def)
  define spa tpa where spa: "spa = ducknet_htonl (le32 (r ! 6) (r ! 7) (r ! 8) (r ! 9))"
    and tpa: "tpa = ducknet_htonl (le32 (r ! 16) (r ! 17) (r ! 18) (r ! 19))"
  let ?sha = "take 6 r"
  have mac: "length (dn_mac n) = 6" using wf by (simp add: net_wf_def)
  show ?thesis
  proof (cases "len - 8 < 20")
    case True
    then show ?thesis using False wf
      by (simp add: ducknet_arp_packet_handle_def hton g split: option.splits)
  next
    case len28: False
    then have lr: "20 \<le> length r" using len pkt by simp
    have sha: "length ?sha = 6" using lr by simp
    have s: "returns net_wf (ducknet_arp_send hk ?sha op (arp_payload (dn_mac n) t ?sha spa) 20 n \<bind> (\<lambda>(_, n). Some (0, n)))" for op t
    proof -
      have "length (arp_payload (dn_mac n) t ?sha spa) = 20" by (rule length_arp_payload[OF mac sha])
      then obtain buf where "length buf = MAX_MTU + 64" "ducknet_arp_send hk ?sha op (arp_payload (dn_mac n) t ?sha spa) 20 n =
          Some (ducknet_phy_send hk (arp_frame ?sha (dn_mac n) op (arp_payload (dn_mac n) t ?sha spa)) (n\<lparr>sendbuf := buf\<rparr>))"
        using arp_send_frame[OF wf sha, of "arp_payload (dn_mac n) t ?sha spa" hk op] by (auto simp: MAX_MTU_def)
      then show ?thesis using net_wf_sendbuf[OF wf] by (simp add: returns_def split_beta)
    qed
    obtain ru nu where u: "ducknet_arp_update spa ?sha n = Some (ru, nu)" "net_wf nu" by (rule arp_update_wf[OF wf sha])
    have rds: "rd_range b 8 20 = Some (take 20 r)" "rd_range (take 20 r) 0 6 = Some ?sha"
      "get32 (take 20 r) 6 = Some (le32 (r ! 6) (r ! 7) (r ! 8) (r ! 9))" "get32 (take 20 r) 16 = Some (le32 (r ! 16) (r ! 17) (r ! 18) (r ! 19))"
      using lr by (simp_all add: opt_simps b)
    show ?thesis unfolding ducknet_arp_packet_handle_def hton
      using False wf by (simp add: rds g s u Let_def flip: spa tpa split: option.split)
  qed
qed (simp add: ducknet_arp_packet_handle_def wf)

end
