(* ===== verification/Net_Ipv4.thy ===== *)
theory Net_Ipv4
  imports Net_Arp
begin

text \<open>
  The upper half of the network stack: \<open>ducknet/lib/ipv4.cpp\<close> with its queue of packets that wait
  for an address to be resolved, \<open>ducknet/lib/icmp.cpp\<close> and \<open>ducknet/lib/udp.cpp\<close>. A packet handed to a
  handler is the part of the receive buffer that starts at its header, with the length the caller
  passes. A handler of the configuration sees the header after its conversion to host order.
\<close>

section \<open>The internet layer\<close>

definition TOSEND_TIMEOUT_MS :: u64 where "TOSEND_TIMEOUT_MS = 5000"
definition IPv4_ICMP :: u8 where "IPv4_ICMP = 1"
definition IPv4_UDP :: u8 where "IPv4_UDP = 17"
definition IPv4_FLAGS_DF :: u16 where "IPv4_FLAGS_DF = 0x4000"

definition ducknet_ipv4_init :: "u32 \<Rightarrow> u32 \<Rightarrow> u8 \<Rightarrow> Ducknet \<Rightarrow> Ducknet option" where
  "ducknet_ipv4_init ip gw prefix n = do {
     let n = n\<lparr>dn_ip := ip, gateway_ip := gw, dn_prefix_len := prefix\<rparr>;
     free \<leftarrow> for_opt (\<lambda>i free. do {
         x \<leftarrow> rd free (i div 32); wr free (i div 32) (x OR push_bit (i mod 32) 1)
       }) [0..<TOSEND_TABLE_SIZE] (map (\<lambda>_. 0) (tosend_free n));
     Some (n\<lparr>tosend_free := free, ip_last_idle := currenttime n,
       ip_idle_delay := dn_tsc_freq n * 100 div 1000 div 1000\<rparr>)
   }"

text \<open>The first byte of the header holds the fields \<open>version\<close> (low half) and \<open>ihl\<close> (high half).\<close>

definition ducknet_ipv4_hton :: "bytes \<Rightarrow> bytes option" where
  "ducknet_ipv4_hton b = do {
     x \<leftarrow> rd b 0;
     b \<leftarrow> wr b 0 (push_bit 4 (x AND 15) OR drop_bit 4 x);
     v \<leftarrow> get16 b 2; b \<leftarrow> put16 b 2 (ducknet_htons v);
     v \<leftarrow> get16 b 4; b \<leftarrow> put16 b 4 (ducknet_htons v);
     v \<leftarrow> get16 b 6; b \<leftarrow> put16 b 6 (ducknet_htons v);
     v \<leftarrow> get32 b 12; b \<leftarrow> put32 b 12 (ducknet_htonl v);
     v \<leftarrow> get32 b 16; put32 b 16 (ducknet_htonl v)
   }"

text \<open>The fields of the header that \<open>ipv4_build_packet\<close> writes.\<close>

definition ipv4_fill_header :: "u32 \<Rightarrow> u32 \<Rightarrow> u8 \<Rightarrow> u16 \<Rightarrow> bytes \<Rightarrow> bytes option" where
  "ipv4_fill_header src dst protocol len h = do {
     h \<leftarrow> wr h 0 (4 OR push_bit 4 5);
     h \<leftarrow> wr h 1 0;
     h \<leftarrow> put16 h 2 len;
     h \<leftarrow> put16 h 4 2333;
     h \<leftarrow> put16 h 6 0;
     h \<leftarrow> wr h 8 233;
     h \<leftarrow> wr h 9 protocol;
     h \<leftarrow> put32 h 12 src;
     h \<leftarrow> put32 h 16 dst;
     h \<leftarrow> put16 h 10 0;
     h \<leftarrow> ducknet_ipv4_hton h;
     put16 h 10 (ducknet_checksum h 0)
   }"

text \<open>Building a frame in a buffer, without its destination address.\<close>

definition ipv4_build_packet :: "Ducknet \<Rightarrow> bytes \<Rightarrow> u32 \<Rightarrow> u8 \<Rightarrow> bytes \<Rightarrow> int \<Rightarrow> (int \<times> bytes) option" where
  "ipv4_build_packet n pkt dst protocol payload len =
     (if len < 0 then Some (- 1, pkt)
      else if len + 20 > dn_MTU n then Some (- 1, pkt)
      else do {
        pkt \<leftarrow> wr_range pkt 6 (dn_mac n);
        pkt \<leftarrow> put16 pkt 12 (ducknet_htons ETHERTYPE_IPv4);
        h \<leftarrow> rd_range pkt 14 20;
        h \<leftarrow> ipv4_fill_header (dn_ip n) dst protocol (of_int (len + 20)) h;
        pkt \<leftarrow> wr_range pkt 14 h;
        data \<leftarrow> rd_range payload 0 (nat len);
        pkt \<leftarrow> wr_range pkt 34 data;
        Some (0, pkt)
      })"

text \<open>The loop has no bound of its own; a shift by the width of the word or more is undefined.\<close>

function lower_bit_from :: "u32 \<Rightarrow> nat \<Rightarrow> nat option" where
  "lower_bit_from x i = (if i < 32 then if drop_bit i x AND 1 \<noteq> 0 then Some i else lower_bit_from x (i + 1) else None)"
  by pat_completeness auto
termination by (relation "measure (\<lambda>(x, i). 32 - i)") auto

declare lower_bit_from.simps [simp del]

definition get_lower_bit_index :: "u32 \<Rightarrow> nat option" where
  "get_lower_bit_index x = lower_bit_from x 0"

text \<open>No free slot is \<^term>\<open>Some None\<close>.\<close>

primrec find_free_in :: "nat list \<Rightarrow> u32 list \<Rightarrow> nat option option" where
  "find_free_in [] free = Some None"
| "find_free_in (i # is) free = do {
     x \<leftarrow> rd free i;
     if x \<noteq> 0 then do { j \<leftarrow> get_lower_bit_index x; Some (Some (32 * i + j)) }
     else find_free_in is free
   }"

definition find_tosend_free :: "Ducknet \<Rightarrow> nat option option" where
  "find_tosend_free n = find_free_in [0..<2] (tosend_free n)"

definition match_prefix :: "u32 \<Rightarrow> u32 \<Rightarrow> u8 \<Rightarrow> bool option" where
  "match_prefix a b prefix = (if prefix \<le> 32 then Some (drop_bit (32 - unat prefix) (ucast (a XOR b) :: u64) = 0) else None)"

definition ducknet_ipv4_send :: "hooks \<Rightarrow> u32 \<Rightarrow> u8 \<Rightarrow> bytes \<Rightarrow> int \<Rightarrow> Ducknet \<Rightarrow> (int \<times> Ducknet) option" where
  "ducknet_ipv4_send hk dst protocol payload len n = do {
     near \<leftarrow> match_prefix dst (dn_ip n) (dn_prefix_len n);
     let ether_dst = (if near then dst else gateway_ip n);
     mac \<leftarrow> ducknet_arp_lookup ether_dst n;
     case mac of
       Some mac \<Rightarrow> do {
         (r, buf) \<leftarrow> ipv4_build_packet n (sendbuf n) dst protocol payload len;
         if r < 0 then Some (r, n)
         else do {
           buf \<leftarrow> wr_range buf 0 mac;
           frame \<leftarrow> rd_range buf 0 (nat len + 34);
           Some (ducknet_phy_send hk frame (n\<lparr>sendbuf := buf\<rparr>))
         }
       }
     | None \<Rightarrow> do {
         (_, n) \<leftarrow> ducknet_arp_query hk ether_dst n;
         slot \<leftarrow> find_tosend_free n;
         case slot of None \<Rightarrow> Some (- 1, n)
         | Some slot \<Rightarrow> do {
             t \<leftarrow> rd (tosend_table n) slot;
             (r, pkt) \<leftarrow> ipv4_build_packet n (ts_pkt t) dst protocol payload len;
             if r < 0 then Some (r, n)
             else do {
               e \<leftarrow> ducknet_time_add_ms (dn_tsc_freq n) (currenttime n) TOSEND_TIMEOUT_MS;
               tab \<leftarrow> wr (tosend_table n) slot \<lparr>ts_dst = ether_dst, ts_expire = e, ts_len = nat len + 34, ts_pkt = pkt\<rparr>;
               x \<leftarrow> rd (tosend_free n) (slot div 32);
               free \<leftarrow> wr (tosend_free n) (slot div 32) (x AND NOT (push_bit (slot mod 32) 1));
               Some (0, n\<lparr>tosend_table := tab, tosend_free := free\<rparr>)
             }
           }
       }
   }"

text \<open>One slot of the queue in \<open>ducknet_ipv4_idle\<close>.\<close>

definition ipv4_idle_slot :: "hooks \<Rightarrow> nat \<Rightarrow> Ducknet \<Rightarrow> Ducknet option" where
  "ipv4_idle_slot hk i n = do {
     x \<leftarrow> rd (tosend_free n) (i div 32);
     if x AND push_bit (i mod 32) 1 \<noteq> 0 then Some n
     else do {
       t \<leftarrow> rd (tosend_table n) i;
       free \<leftarrow> wr (tosend_free n) (i div 32) (x OR push_bit (i mod 32) 1);
       if currenttime n > ts_expire t then Some (n\<lparr>tosend_free := free\<rparr>)
       else do {
         mac \<leftarrow> ducknet_arp_lookup (ts_dst t) n;
         case mac of
           Some mac \<Rightarrow> do {
             let n = n\<lparr>tosend_free := free\<rparr>;
             pkt \<leftarrow> wr_range (ts_pkt t) 0 mac;
             tab \<leftarrow> wr (tosend_table n) i (t\<lparr>ts_pkt := pkt\<rparr>);
             frame \<leftarrow> rd_range pkt 0 (ts_len t);
             Some (snd (ducknet_phy_send hk frame (n\<lparr>tosend_table := tab\<rparr>)))
           }
         | None \<Rightarrow> do { (_, n) \<leftarrow> ducknet_arp_query hk (ts_dst t) n; Some n }
       }
     }
   }"

definition ducknet_ipv4_idle :: "hooks \<Rightarrow> Ducknet \<Rightarrow> (int \<times> Ducknet) option" where
  "ducknet_ipv4_idle hk n = (let n = n\<lparr>ip_cnt := ip_cnt n + 1\<rparr> in
     if ip_cnt n < 1024 \<and> currenttime n - ip_last_idle n \<le> ip_idle_delay n then Some (0, n)
     else do {
       n \<leftarrow> for_opt (ipv4_idle_slot hk) [0..<TOSEND_TABLE_SIZE] (n\<lparr>ip_cnt := 0, ip_last_idle := currenttime n\<rparr>);
       Some (0, n)
     })"

section \<open>Control messages and datagrams\<close>

definition ICMP_ECHO_REPLY :: u8 where "ICMP_ECHO_REPLY = 0"
definition ICMP_ECHO_REQUEST :: u8 where "ICMP_ECHO_REQUEST = 8"

definition ducknet_icmp_packet_handle :: "hooks \<Rightarrow> u32 \<Rightarrow> u32 \<Rightarrow> bytes \<Rightarrow> int \<Rightarrow> Ducknet \<Rightarrow> (int \<times> Ducknet) option" where
  "ducknet_icmp_packet_handle hk src dst pkt len n =
     (if len < 8 then Some (- 1, n)
      else (case hook_stops (map_option (\<lambda>h. h src dst) (icmp_hook hk)) pkt of Some r \<Rightarrow> Some (r, n)
        | None \<Rightarrow> do {
            type \<leftarrow> rd pkt 0;
            if type = ICMP_ECHO_REQUEST then do {
              code \<leftarrow> rd pkt 1;
              if code \<noteq> 0 then Some (- 1, n)
              else do {
                b \<leftarrow> wr pkt 0 ICMP_ECHO_REPLY;
                b \<leftarrow> put16 b 2 0;
                msg \<leftarrow> rd_range b 0 (nat len);
                b \<leftarrow> put16 b 2 (ducknet_checksum msg 0);
                (_, n) \<leftarrow> ducknet_ipv4_send hk src IPv4_ICMP b len n;
                Some (0, n)
              }
            } else Some (- 1, n)
          }))"

definition ducknet_udp_hton :: "bytes \<Rightarrow> bytes option" where
  "ducknet_udp_hton b = do {
     v \<leftarrow> get16 b 0; b \<leftarrow> put16 b 0 (ducknet_htons v);
     v \<leftarrow> get16 b 2; b \<leftarrow> put16 b 2 (ducknet_htons v);
     v \<leftarrow> get16 b 4; put16 b 4 (ducknet_htons v)
   }"

definition udp_pseudo_header :: "u32 \<Rightarrow> u32 \<Rightarrow> u16 \<Rightarrow> bytes" where
  "udp_pseudo_header src dst len =
     bytes32 (ducknet_htonl src) @ bytes32 (ducknet_htonl dst) @ [0, IPv4_UDP] @ bytes16 (ducknet_htons len)"

definition ducknet_udp_send :: "hooks \<Rightarrow> u32 \<Rightarrow> u16 \<Rightarrow> u16 \<Rightarrow> bytes \<Rightarrow> int \<Rightarrow> Ducknet \<Rightarrow> (int \<times> Ducknet) option" where
  "ducknet_udp_send hk dst dport sport payload len n =
     (if len < 0 then Some (- 1, n)
      else if len + 8 + 20 > dn_MTU n then Some (- 1, n)
      else do {
        b \<leftarrow> put16 (udp_buf n) 0 sport;
        b \<leftarrow> put16 b 2 dport;
        b \<leftarrow> put16 b 4 (of_int (len + 8));
        b \<leftarrow> put16 b 6 0;
        b \<leftarrow> ducknet_udp_hton b;
        data \<leftarrow> rd_range payload 0 (nat len);
        b \<leftarrow> wr_range b 8 data;
        let udp_len = len + 8;
        let tmp_sum = ducknet_checksum_sum (udp_pseudo_header (dn_ip n) dst (of_int udp_len));
        msg \<leftarrow> rd_range b 0 (nat udp_len);
        b \<leftarrow> put16 b 6 (ducknet_checksum msg tmp_sum);
        ducknet_ipv4_send hk dst IPv4_UDP b udp_len (n\<lparr>udp_buf := b\<rparr>)
      })"

text \<open>The datagrams that the handler of the configuration sends while it runs.\<close>

primrec udp_requests :: "hooks \<Rightarrow> udp_request list \<Rightarrow> Ducknet \<Rightarrow> Ducknet option" where
  "udp_requests hk [] n = Some n"
| "udp_requests hk (q # qs) n = (case q of (dst, dport, sport, payload) \<Rightarrow> do {
     (_, n) \<leftarrow> ducknet_udp_send hk dst dport sport payload (int (length payload)) n;
     udp_requests hk qs n
   })"

definition ducknet_udp_packet_handle :: "hooks \<Rightarrow> u32 \<Rightarrow> u32 \<Rightarrow> bytes \<Rightarrow> int \<Rightarrow> Ducknet \<Rightarrow> (int \<times> Ducknet) option" where
  "ducknet_udp_packet_handle hk src dst pkt len n =
     (if len < 8 then Some (- 1, n)
      else do {
        b \<leftarrow> ducknet_udp_hton pkt;
        case udp_hook hk of None \<Rightarrow> Some (0, n)
        | Some f \<Rightarrow> do {
            let (r, qs) = f src dst b (len - 8);
            n \<leftarrow> udp_requests hk qs n;
            Some (if r < 0 then r else 0, n)
          }
      })"

section \<open>Receiving\<close>

definition ducknet_ipv4_packet_handle :: "hooks \<Rightarrow> bytes \<Rightarrow> int \<Rightarrow> Ducknet \<Rightarrow> (int \<times> Ducknet) option" where
  "ducknet_ipv4_packet_handle hk pkt len n =
     (if len < 20 then Some (- 1, n)
      else do {
        b \<leftarrow> ducknet_ipv4_hton pkt;
        case hook_stops (ipv4_hook hk) b of Some r \<Rightarrow> Some (r, n)
        | None \<Rightarrow> do {
            vi \<leftarrow> rd b 0; length \<leftarrow> get16 b 2; flags \<leftarrow> get16 b 6; protocol \<leftarrow> rd b 9;
            src \<leftarrow> get32 b 12; dst \<leftarrow> get32 b 16;
            if vi AND 15 \<noteq> 4 then Some (- 1, n)
            else if drop_bit 4 vi \<noteq> 5 then Some (- 1, n)
            else if uint length > len then Some (- 1, n)
            else if flags AND NOT IPv4_FLAGS_DF \<noteq> 0 then Some (- 1, n)
            else if \<not> (NOT dst = 0 \<or> dst = dn_ip n) then Some (- 1, n)
            else do {
              let content_len = uint length - 20;
              if protocol = IPv4_ICMP then ducknet_icmp_packet_handle hk src dst (drop 20 b) content_len n
              else if protocol = IPv4_UDP then ducknet_udp_packet_handle hk src dst (drop 20 b) content_len n
              else Some (- 1, n)
            }
          }
      })"

section \<open>Parsing addresses\<close>

text \<open>The bytes of the string without its terminator; a refused string is \<^term>\<open>Some None\<close>.\<close>

primrec parse_ipv4_loop :: "bytes \<Rightarrow> u8 list \<Rightarrow> nat \<Rightarrow> bool \<Rightarrow> u8 list option option" where
  "parse_ipv4_loop [] a idx has_num = Some (Some a)"
| "parse_ipv4_loop (c # cs) a idx has_num =
     (if c = 46 then if \<not> has_num then Some None else parse_ipv4_loop cs a (idx + 1) False
      else if c < 48 \<or> 57 < c then Some None
      else do {
        x \<leftarrow> rd a idx;
        if unat x * 10 + unat c - 48 > 255 then Some None
        else do { a \<leftarrow> wr a idx (x * 10 + c - 48); parse_ipv4_loop cs a idx True }
      })"

definition ducknet_parse_ipv4 :: "bytes \<Rightarrow> u32 option option" where
  "ducknet_parse_ipv4 s =
     (if length (filter (\<lambda>c. c = 46) s) \<noteq> 3 then Some None
      else do {
        r \<leftarrow> parse_ipv4_loop s [0, 0, 0, 0] 0 False;
        Some (map_option (\<lambda>a. le32 (a ! 3) (a ! 2) (a ! 1) (a ! 0)) r)
      })"

section \<open>Building packets\<close>

lemma ipv4_hton_bytes:
  "ducknet_ipv4_hton (x0 # x1 # x2 # x3 # x4 # x5 # x6 # x7 # x8 # x9 # x10 # x11 # x12 # x13 # x14 # x15 # x16 # x17 # x18 # x19 # r) =
   Some ((push_bit 4 (x0 AND 15) OR drop_bit 4 x0) # x1 # x3 # x2 # x5 # x4 # x7 # x6 # x8 # x9 # x10 # x11 # x15 # x14 # x13 # x12 #
     x19 # x18 # x17 # x16 # r)"
  by (simp add: ducknet_ipv4_hton_def rd_def wr_def get16_def get32_def put16_def put32_def wr_range_def blit_def htons_le16 htonl_le32)

lemma list20:
  assumes "20 \<le> length b"
  obtains x0 x1 x2 x3 x4 x5 x6 x7 x8 x9 x10 x11 x12 x13 x14 x15 x16 x17 x18 x19 r where
    "b = x0 # x1 # x2 # x3 # x4 # x5 # x6 # x7 # x8 # x9 # x10 # x11 # x12 # x13 # x14 # x15 # x16 # x17 # x18 # x19 # r"
  using assms by (auto simp: numeral_eq_Suc Suc_le_length_iff)

lemma ipv4_hton_Some: "20 \<le> length b \<Longrightarrow> \<exists>b'. ducknet_ipv4_hton b = Some b' \<and> length b' = length b"
  by (erule list20) (simp add: ipv4_hton_bytes)

text \<open>The header of a packet on the wire.\<close>

definition ipv4_header_pre :: "u8 \<Rightarrow> u16 \<Rightarrow> bytes" where
  "ipv4_header_pre protocol len = [0x45, 0] @ bytes16 (ducknet_htons len) @ bytes16 (ducknet_htons 2333) @ [0, 0, 233, protocol]"

definition ipv4_header_post :: "u32 \<Rightarrow> u32 \<Rightarrow> bytes" where
  "ipv4_header_post src dst = bytes32 (ducknet_htonl src) @ bytes32 (ducknet_htonl dst)"

definition ipv4_header :: "u32 \<Rightarrow> u32 \<Rightarrow> u8 \<Rightarrow> u16 \<Rightarrow> bytes" where
  "ipv4_header src dst protocol len = (let pre = ipv4_header_pre protocol len; post = ipv4_header_post src dst in
     pre @ bytes16 (ducknet_checksum (pre @ [0, 0] @ post) 0) @ post)"

lemma length_ipv4_header [simp]: "length (ipv4_header src dst protocol len) = 20"
  by (simp add: ipv4_header_def ipv4_header_pre_def ipv4_header_post_def Let_def)

lemma ipv4_header_checksum: "ducknet_checksum (ipv4_header src dst protocol len) 0 = 0"
  unfolding ipv4_header_def Let_def
  by (rule checksum_verifies) (simp_all add: ipv4_header_pre_def ipv4_header_post_def)

text \<open>The fields written one by one are the header above.\<close>

lemma header_fields:
  assumes "length h = 20"
  shows "ipv4_fill_header src dst protocol len h = Some (ipv4_header src dst protocol len)"
proof -
  obtain l0 l1 where l: "len = le16 l0 l1" by (metis le16_bytes16)
  obtain s0 s1 s2 s3 where s: "src = le32 s0 s1 s2 s3" by (metis le32_bytes32)
  obtain d0 d1 d2 d3 where d: "dst = le32 d0 d1 d2 d3" by (metis le32_bytes32)
  have b: "bytes16 2333 = [0x1d, 9]" "bytes16 0 = [0, 0]" by (simp_all add: bytes16_def)
  obtain x0 x1 x2 x3 x4 x5 x6 x7 x8 x9 x10 x11 x12 x13 x14 x15 x16 x17 x18 x19 r where
    "h = x0 # x1 # x2 # x3 # x4 # x5 # x6 # x7 # x8 # x9 # x10 # x11 # x12 # x13 # x14 # x15 # x16 # x17 # x18 # x19 # r" "r = []"
    by (rule list20[of h]) (use assms in auto)
  then show ?thesis
    by (simp add: ipv4_fill_header_def l s d b rd_def wr_def put16_def put32_def wr_range_def blit_def ipv4_hton_bytes
      ipv4_header_def ipv4_header_pre_def ipv4_header_post_def bytes16_htons bytes32_htonl Let_def)
qed

text \<open>The packet built in a buffer: everything but the destination address of the frame is written.\<close>

definition ipv4_packet :: "Ducknet \<Rightarrow> u32 \<Rightarrow> u8 \<Rightarrow> bytes \<Rightarrow> bytes" where
  "ipv4_packet n dst protocol payload =
     ipv4_header (dn_ip n) dst protocol (of_nat (length payload + 20)) @ payload"

lemma build_packet_refuses:
  "len < 0 \<or> len + 20 > dn_MTU n \<Longrightarrow> ipv4_build_packet n pkt dst protocol payload len = Some (- 1, pkt)"
  by (auto simp: ipv4_build_packet_def)

lemma take_drop_blits:
  assumes "length pkt = MAX_MTU + 64" "length mac = 6" "length h = 20" "length data + 20 \<le> MAX_MTU"
  shows "take (length data + 34) (blit (blit (blit (blit pkt 6 mac) 12 (bytes16 x)) 14 h) 34 data) =
    take 6 pkt @ mac @ bytes16 x @ h @ data"
  using assms by (simp add: blit_def MAX_MTU_def)

lemma build_packet_builds:
  assumes wf: "net_wf n" and len: "0 \<le> len" "len + 20 \<le> 1500" "nat len \<le> length payload" and pkt: "length pkt = MAX_MTU + 64"
  obtains buf where "ipv4_build_packet n pkt dst protocol payload len = Some (0, buf)" "length buf = MAX_MTU + 64"
    "take (nat len + 34) buf = take 6 pkt @ dn_mac n @ bytes16 (ducknet_htons ETHERTYPE_IPv4) @ ipv4_packet n dst protocol (take (nat len) payload)"
proof -
  have w: "length (dn_mac n) = 6" "dn_MTU n = 1500" using wf by (simp_all add: net_wf_def)
  let ?ty = "bytes16 (ducknet_htons ETHERTYPE_IPv4)" and ?data = "take (nat len) payload"
  let ?h = "ipv4_header (dn_ip n) dst protocol (of_int (len + 20))"
  let ?p1 = "blit (blit pkt 6 (dn_mac n)) 12 ?ty"
  let ?buf = "blit (blit ?p1 14 ?h) 34 ?data"
  have p1: "length ?p1 = MAX_MTU + 64" using pkt w by (simp add: MAX_MTU_def)
  then have h: "length (take 20 (drop 14 ?p1)) = 20" by (simp add: MAX_MTU_def)
  have data: "length ?data = nat len" "length ?data + 20 \<le> MAX_MTU" using len by (simp_all add: MAX_MTU_def)
  have "ipv4_build_packet n pkt dst protocol payload len = Some (0, ?buf)"
    using pkt w len p1 data header_fields[OF h] by (simp add: ipv4_build_packet_def opt_simps MAX_MTU_def)
  moreover have "length ?buf = MAX_MTU + 64" using p1 data by (simp add: MAX_MTU_def)
  moreover have "take (nat len + 34) ?buf = take 6 pkt @ dn_mac n @ ?ty @ ipv4_packet n dst protocol ?data"
    using take_drop_blits[OF pkt w(1) _ data(2), of ?h "ducknet_htons ETHERTYPE_IPv4"] data len
    by (simp add: ipv4_packet_def min_def)
  ultimately show ?thesis by (rule that)
qed

section \<open>The queue of waiting packets\<close>

declare push_bit_of_1 [simp del]

lemma and_1_bit: "drop_bit i (x :: u32) AND 1 \<noteq> 0 \<longleftrightarrow> bit x i"
  by (simp add: and_one_eq odd_iff_mod_2_eq_one[symmetric] bit_iff_odd_drop_bit mod2_eq_if)

lemma and_push_bit_1: "(x :: u32) AND push_bit i 1 \<noteq> 0 \<longleftrightarrow> i < 32 \<and> bit x i"
  by (auto simp: bit_eq_iff[of "_ AND _"] bit_simps)

lemma lower_bit_from_least:
  "\<exists>j. i \<le> j \<and> bit x j \<Longrightarrow> \<exists>k. lower_bit_from x i = Some k \<and> i \<le> k \<and> k < 32 \<and> bit x k \<and> (\<forall>j. i \<le> j \<and> j < k \<longrightarrow> \<not> bit x j)"
proof (induction x i rule: lower_bit_from.induct)
  case (1 x i)
  obtain j where j: "i \<le> j" "bit x j" using 1(2) by blast
  then have "i < 32" using bit_imp_le_length[of x j] by simp
  show ?case
  proof (cases "bit x i")
    case False
    then have "i + 1 \<le> j" using j by (cases "i = j") auto
    then have "\<exists>k. lower_bit_from x (i + 1) = Some k \<and> i + 1 \<le> k \<and> k < 32 \<and> bit x k \<and> (\<forall>j. i + 1 \<le> j \<and> j < k \<longrightarrow> \<not> bit x j)"
      using 1(1) False j(2) \<open>i < 32\<close> by (auto simp: and_1_bit)
    then obtain k where k: "lower_bit_from x (i + 1) = Some k" "i + 1 \<le> k" "k < 32" "bit x k" "\<forall>j. i + 1 \<le> j \<and> j < k \<longrightarrow> \<not> bit x j"
      by blast
    have "\<not> bit x j" if "i \<le> j" "j < k" for j using that False k(5) by (cases "i = j") auto
    then show ?thesis using k False \<open>i < 32\<close> by (subst lower_bit_from.simps) (simp add: and_1_bit Suc_le_eq less_imp_le)
  qed (subst lower_bit_from.simps, use \<open>i < 32\<close> in \<open>auto simp: and_1_bit\<close>)
qed

lemma get_lower_bit_index_least:
  assumes "x \<noteq> 0"
  obtains k where "get_lower_bit_index x = Some k" "k < 32" "bit x k" "\<forall>j < k. \<not> bit x j"
proof -
  have "\<exists>j. bit x j" using assms by (auto simp: bit_eq_iff)
  then show ?thesis using lower_bit_from_least[of 0 x] that by (auto simp: get_lower_bit_index_def)
qed

text \<open>A slot is waiting when its bit in the table of free slots is clear.\<close>

definition slot_free :: "u32 list \<Rightarrow> nat \<Rightarrow> bool" where
  "slot_free free i = bit (free ! (i div 32)) (i mod 32)"

lemma find_tosend_free_slot:
  assumes "length (tosend_free n) = 2"
  obtains r where "find_tosend_free n = Some r"
    "\<And>i. r = Some i \<Longrightarrow> i < 64 \<and> slot_free (tosend_free n) i"
    "r = None \<Longrightarrow> \<forall>i < 64. \<not> slot_free (tosend_free n) i"
proof -
  have up: "[0..<2] = [0, 1 :: nat]" by (simp add: upt_rec)
  note found = that
  have hit: thesis if nz: "tosend_free n ! i \<noteq> 0" and i: "i < 2" and
    run: "\<And>j. get_lower_bit_index (tosend_free n ! i) = Some j \<Longrightarrow> find_tosend_free n = Some (Some (32 * i + j))" for i
  proof -
    obtain j where j: "get_lower_bit_index (tosend_free n ! i) = Some j" "j < 32" "bit (tosend_free n ! i) j"
      by (rule get_lower_bit_index_least[OF nz]) blast
    have "slot_free (tosend_free n) (32 * i + j)" using j(2,3) by (simp add: slot_free_def)
    then show ?thesis using run[OF j(1)] i j(2) by (intro found[of "Some (32 * i + j)"]) auto
  qed
  consider "tosend_free n ! 0 \<noteq> 0" | "tosend_free n ! 0 = 0" "tosend_free n ! 1 \<noteq> 0" | "tosend_free n ! 0 = 0" "tosend_free n ! 1 = 0" by blast
  then show ?thesis
  proof cases
    case 1 show ?thesis by (rule hit[OF 1]) (use assms 1 in \<open>simp_all add: find_tosend_free_def up rd_def\<close>)
  next
    case 2 show ?thesis by (rule hit[OF 2(2)]) (use assms 2 in \<open>simp_all add: find_tosend_free_def up rd_def\<close>)
  next
    case 3
    have "\<not> slot_free (tosend_free n) i" if "i < 64" for i
    proof -
      have "i div 32 < 2" using that by simp
      then have "i div 32 = 0 \<or> i div 32 = 1" by (auto simp: less_2_cases_iff)
      then show ?thesis using 3 by (auto simp: slot_free_def)
    qed
    then show ?thesis using 3 assms found[of None] by (simp add: find_tosend_free_def up rd_def)
  qed
qed

lemma slot_eq: "i div 32 = j div 32 \<Longrightarrow> i mod 32 = j mod 32 \<Longrightarrow> i = (j :: nat)"
  by (metis div_mult_mod_eq)

lemma slot_free_set:
  assumes "length free = 2" "j < 64" "i < 64"
  shows "slot_free (free[j div 32 := free ! (j div 32) OR push_bit (j mod 32) 1]) i \<longleftrightarrow> i = j \<or> slot_free free i"
proof (cases "i div 32 = j div 32")
  case True
  then show ?thesis using assms slot_eq[OF True] by (auto simp: slot_free_def bit_simps)
qed (auto simp: slot_free_def)

lemma slot_free_clear:
  assumes "length free = 2" "j < 64" "i < 64"
  shows "slot_free (free[j div 32 := free ! (j div 32) AND NOT (push_bit (j mod 32) 1)]) i \<longleftrightarrow> i \<noteq> j \<and> slot_free free i"
proof (cases "i div 32 = j div 32")
  case True
  then show ?thesis using assms slot_eq[OF True] by (auto simp: slot_free_def bit_simps)
qed (auto simp: slot_free_def)

lemma net_wf_slots: "net_wf n \<Longrightarrow> i < 64 \<Longrightarrow> \<not> slot_free (tosend_free n) i \<Longrightarrow> tosend_wf (tosend_table n ! i)"
  by (simp add: net_wf_def slot_free_def TOSEND_TABLE_SIZE_def)

lemma net_wf_queue:
  assumes "net_wf n" "length tab = TOSEND_TABLE_SIZE" "length free = 2" "\<forall>t \<in> set tab. length (ts_pkt t) = MAX_MTU + 64"
    "\<And>i. i < 64 \<Longrightarrow> \<not> slot_free free i \<Longrightarrow> tosend_wf (tab ! i)"
  shows "net_wf (n\<lparr>tosend_table := tab, tosend_free := free\<rparr>)"
  using assms by (simp add: net_wf_def slot_free_def TOSEND_TABLE_SIZE_def)

lemma queue_swap: "n\<lparr>tosend_free := f, tosend_table := t\<rparr> = n\<lparr>tosend_table := t, tosend_free := f\<rparr>"
  by simp

lemma net_wf_free_slot:
  assumes "net_wf n" "j < 64"
  shows "net_wf (n\<lparr>tosend_free := (tosend_free n)[j div 32 := tosend_free n ! (j div 32) OR push_bit (j mod 32) 1]\<rparr>)"
proof -
  have "net_wf (n\<lparr>tosend_table := tosend_table n, tosend_free := (tosend_free n)[j div 32 := tosend_free n ! (j div 32) OR push_bit (j mod 32) 1]\<rparr>)"
    by (rule net_wf_queue[OF assms(1)])
      (use assms in \<open>auto simp: slot_free_set net_wf_slots net_wf_def[of n] TOSEND_TABLE_SIZE_def\<close>)
  then show ?thesis by simp
qed

lemma match_prefix_Some: "net_wf n \<Longrightarrow> \<exists>b. match_prefix x y (dn_prefix_len n) = Some b"
  by (simp add: match_prefix_def net_wf_def)

lemma ipv4_send_wf:
  assumes wf: "net_wf n" and pay: "nat len \<le> length payload"
  shows "returns net_wf (ducknet_ipv4_send hk dst protocol payload len n)"
proof -
  obtain near where near: "match_prefix dst (dn_ip n) (dn_prefix_len n) = Some near" using match_prefix_Some[OF wf] by blast
  let ?d = "if near then dst else gateway_ip n"
  obtain m where m: "ducknet_arp_lookup ?d n = Some m" "\<forall>mac. m = Some mac \<longrightarrow> length mac = 6"
    by (rule arp_lookup_wf[OF wf, of ?d]) blast
  have mtu: "dn_MTU n' = 1500" if "net_wf n'" for n' using that by (simp add: net_wf_def)
  show ?thesis
  proof (cases m)
    case (Some mac)
    have buf: "length (sendbuf n) = MAX_MTU + 64" using wf by (simp add: net_wf_def)
    show ?thesis
    proof (cases "len < 0 \<or> len + 20 > 1500")
      case True
      then show ?thesis using wf near m Some build_packet_refuses[of len n] mtu[OF wf] by (simp add: ducknet_ipv4_send_def Let_def)
    next
      case False
      then have le: "0 \<le> len" "len + 20 \<le> 1500" by auto
      obtain b where "ipv4_build_packet n (sendbuf n) dst protocol payload len = Some (0, b)" "length b = MAX_MTU + 64"
        by (rule build_packet_builds[OF wf le pay buf]) blast
      moreover have "nat len + 34 \<le> 1564" using le by simp
      ultimately show ?thesis using wf near m(1) m(2)[rule_format, OF Some] Some False
        by (simp add: ducknet_ipv4_send_def Let_def opt_simps MAX_MTU_def returns_Some_pair net_wf_sendbuf)
    qed
  next
    case None
    obtain r n1 where q: "ducknet_arp_query hk ?d n = Some (r, n1)" "net_wf n1" by (rule arp_query_wf[OF wf])
    have t: "length (tosend_table n1) = 64" "length (tosend_free n1) = 2" "\<forall>t \<in> set (tosend_table n1). length (ts_pkt t) = MAX_MTU + 64"
      using q(2) by (simp_all add: net_wf_def TOSEND_TABLE_SIZE_def)
    obtain s where s: "find_tosend_free n1 = Some s" "\<forall>i. s = Some i \<longrightarrow> i < 64 \<and> slot_free (tosend_free n1) i"
      by (rule find_tosend_free_slot[OF t(2)]) blast
    show ?thesis
    proof (cases s)
      case None': None
      then show ?thesis using near m(1) None q s(1) by (simp add: ducknet_ipv4_send_def Let_def)
    next
      case (Some i)
      then have i: "i < 64" using s(2) by blast
      have pkt: "length (ts_pkt (tosend_table n1 ! i)) = MAX_MTU + 64" using t i by simp
      show ?thesis
      proof (cases "len < 0 \<or> len + 20 > 1500")
        case True
        then show ?thesis using near m(1) None q s(1) Some i t build_packet_refuses[of len n1] mtu[OF q(2)]
          by (simp add: ducknet_ipv4_send_def Let_def opt_simps)
      next
        case False
        then have le: "0 \<le> len" "len + 20 \<le> 1500" by auto
        obtain b where b: "ipv4_build_packet n1 (ts_pkt (tosend_table n1 ! i)) dst protocol payload len = Some (0, b)" "length b = MAX_MTU + 64"
          by (rule build_packet_builds[OF q(2) le pay pkt]) blast
        obtain e where e: "ducknet_time_add_ms (dn_tsc_freq n1) (currenttime n1) TOSEND_TIMEOUT_MS = Some e" using time_add_ms_Some by blast
        let ?t = "\<lparr>ts_dst = ?d, ts_expire = e, ts_len = nat len + 34, ts_pkt = b\<rparr>"
        have "net_wf (n1\<lparr>tosend_table := (tosend_table n1)[i := ?t],
            tosend_free := (tosend_free n1)[i div 32 := tosend_free n1 ! (i div 32) AND NOT (push_bit (i mod 32) 1)]\<rparr>)"
        proof (rule net_wf_queue[OF q(2)])
          show "\<forall>t \<in> set ((tosend_table n1)[i := ?t]). length (ts_pkt t) = MAX_MTU + 64"
            using t(3) b(2) by (auto dest: set_update_subset_insert[THEN subsetD])
        next
          fix k assume "k < 64" "\<not> slot_free ((tosend_free n1)[i div 32 := tosend_free n1 ! (i div 32) AND NOT (push_bit (i mod 32) 1)]) k"
          then show "tosend_wf ((tosend_table n1)[i := ?t] ! k)"
          proof (cases "k = i")
            case True
            then show ?thesis using i t b(2) le by (simp add: tosend_wf_def MAX_MTU_def)
          next
            case False
            then show ?thesis using \<open>k < 64\<close> \<open>\<not> slot_free _ k\<close> i t q(2) by (simp add: slot_free_clear net_wf_slots)
          qed
        qed (use t in \<open>simp_all add: TOSEND_TABLE_SIZE_def\<close>)
        then show ?thesis using near m(1) None q s(1) Some i t b e by (simp add: ducknet_ipv4_send_def Let_def opt_simps)
      qed
    qed
  qed
qed

lemma idle_slot_wf:
  assumes wf: "net_wf n" and i: "i < 64"
  shows "\<exists>n'. ipv4_idle_slot hk i n = Some n' \<and> net_wf n'"
proof -
  let ?x = "tosend_free n ! (i div 32)" and ?t = "tosend_table n ! i"
  let ?free = "(tosend_free n)[i div 32 := ?x OR push_bit (i mod 32) 1]"
  have t: "length (tosend_table n) = 64" "length (tosend_free n) = 2" "\<forall>t \<in> set (tosend_table n). length (ts_pkt t) = MAX_MTU + 64"
    using wf by (simp_all add: net_wf_def TOSEND_TABLE_SIZE_def)
  have wf': "net_wf (n\<lparr>tosend_free := ?free\<rparr>)" by (rule net_wf_free_slot[OF wf i])
  show ?thesis
  proof (cases "slot_free (tosend_free n) i")
    case True
    then show ?thesis using wf t i by (simp add: ipv4_idle_slot_def opt_simps and_push_bit_1 slot_free_def)
  next
    case False
    then have tw: "tosend_wf ?t" by (rule net_wf_slots[OF wf i])
    obtain m where m: "ducknet_arp_lookup (ts_dst ?t) n = Some m" "\<forall>mac. m = Some mac \<longrightarrow> length mac = 6"
      by (rule arp_lookup_wf[OF wf, of "ts_dst ?t"]) blast
    have nf: "\<not> (?x AND push_bit (i mod 32) 1 \<noteq> 0)" using False by (simp only: and_push_bit_1 slot_free_def) simp
    show ?thesis
    proof (cases "currenttime n > ts_expire ?t")
      case True
      then show ?thesis using t i wf' nf by (simp add: ipv4_idle_slot_def opt_simps)
    next
      case alive: False
      show ?thesis
      proof (cases m)
        case None
        obtain r n1 where "ducknet_arp_query hk (ts_dst ?t) n = Some (r, n1)" "net_wf n1" by (rule arp_query_wf[OF wf])
        then show ?thesis using alive None m(1) t i nf by (simp add: ipv4_idle_slot_def opt_simps)
      next
        case (Some mac)
        let ?pkt = "blit (ts_pkt ?t) 0 mac"
        have mac: "length mac = 6" using m Some by simp
        have len: "length ?pkt = MAX_MTU + 64" "length (ts_pkt ?t) = MAX_MTU + 64" "ts_len ?t \<le> MAX_MTU + 64" using tw mac by (simp_all add: tosend_wf_def)
        have "net_wf (n\<lparr>tosend_free := ?free, tosend_table := (tosend_table n)[i := ?t\<lparr>ts_pkt := ?pkt\<rparr>]\<rparr>)"
        proof -
          have "net_wf (n\<lparr>tosend_table := (tosend_table n)[i := ?t\<lparr>ts_pkt := ?pkt\<rparr>], tosend_free := ?free\<rparr>)"
          proof (rule net_wf_queue[OF wf])
            show "\<forall>t \<in> set ((tosend_table n)[i := ?t\<lparr>ts_pkt := ?pkt\<rparr>]). length (ts_pkt t) = MAX_MTU + 64"
              using t(3) len by (auto dest: set_update_subset_insert[THEN subsetD])
          next
            fix k assume "k < 64" "\<not> slot_free ?free k"
            then show "tosend_wf ((tosend_table n)[i := ?t\<lparr>ts_pkt := ?pkt\<rparr>] ! k)"
              using i t wf by (cases "k = i") (auto simp: slot_free_set net_wf_slots)
          qed (use t in \<open>simp_all add: TOSEND_TABLE_SIZE_def\<close>)
          then show ?thesis by (simp only: queue_swap)
        qed
        then show ?thesis using alive Some m(1) t i nf mac len by (simp add: ipv4_idle_slot_def opt_simps)
      qed
    qed
  qed
qed

interpretation slots: safe_steps net_wf "ipv4_idle_slot hk" "\<lambda>i. i < 64"
  by unfold_locales (rule idle_slot_wf)

lemma ipv4_idle_wf: "net_wf n \<Longrightarrow> returns net_wf (ducknet_ipv4_idle hk n)"
  using slots.steps_safe[of "n\<lparr>ip_cnt := 0, ip_last_idle := currenttime n\<rparr>" "[0..<TOSEND_TABLE_SIZE]" hk]
  by (auto simp: ducknet_ipv4_idle_def Let_def TOSEND_TABLE_SIZE_def)

section \<open>Datagrams and control messages\<close>

lemma icmp_handle_wf:
  assumes "net_wf n" "len \<le> int (length pkt)"
  shows "returns net_wf (ducknet_icmp_packet_handle hk src dst pkt len n)"
proof (cases "len < 8 \<or> hook_stops (map_option (\<lambda>h. h src dst) (icmp_hook hk)) pkt \<noteq> None \<or> pkt ! 0 \<noteq> ICMP_ECHO_REQUEST \<or> pkt ! 1 \<noteq> 0")
  case True
  then show ?thesis using assms
    by (auto simp: ducknet_icmp_packet_handle_def rd_def split: option.splits)
next
  case False
  then have len: "8 \<le> length pkt" "nat len \<le> length pkt" "4 \<le> length pkt" "pkt \<noteq> []" using assms(2) by auto
  define c where "c = ducknet_checksum (take (nat len) (blit (pkt[0 := ICMP_ECHO_REPLY]) 2 (bytes16 0))) 0"
  have "returns net_wf (ducknet_ipv4_send hk src IPv4_ICMP (blit (blit (pkt[0 := ICMP_ECHO_REPLY]) 2 (bytes16 0)) 2 (bytes16 c)) len n)"
    by (rule ipv4_send_wf[OF assms(1)]) (use len in simp)
  then show ?thesis using False len
    by (auto simp: ducknet_icmp_packet_handle_def opt_simps c_def elim!: returnsE)
qed

lemma udp_hton_bytes:
  "ducknet_udp_hton (x0 # x1 # x2 # x3 # x4 # x5 # r) = Some (x1 # x0 # x3 # x2 # x5 # x4 # r)"
  by (simp add: ducknet_udp_hton_def rd_def wr_def get16_def put16_def wr_range_def blit_def htons_le16)

lemma udp_hton_Some: "6 \<le> length b \<Longrightarrow> \<exists>b'. ducknet_udp_hton b = Some b' \<and> length b' = length b"
  by (auto simp: numeral_eq_Suc Suc_le_length_iff udp_hton_bytes)

lemma take_drop_8:
  "take (k + 8) (a # b # c # d # e # f # g # h # xs) = a # b # c # d # e # f # g # h # take k xs"
  "drop (8 + k) (a # b # c # d # e # f # g # h # xs) = drop k xs"
  by (simp_all add: eval_nat_numeral)

text \<open>The datagram that \<open>ducknet_udp_send\<close> hands to the internet layer.\<close>

definition udp_datagram :: "u32 \<Rightarrow> u32 \<Rightarrow> u16 \<Rightarrow> u16 \<Rightarrow> bytes \<Rightarrow> bytes" where
  "udp_datagram src dst dport sport payload = (let
     len = of_nat (length payload + 8);
     pre = rev (bytes16 sport) @ rev (bytes16 dport) @ rev (bytes16 len);
     sm = ducknet_checksum_sum (udp_pseudo_header src dst len) in
     pre @ bytes16 (ducknet_checksum (pre @ [0, 0] @ payload) sm) @ payload)"

lemma length_udp_datagram [simp]: "length (udp_datagram src dst dport sport payload) = length payload + 8"
  by (simp add: udp_datagram_def Let_def)

lemma udp_send_datagram:
  assumes wf: "net_wf n" and len: "length payload + 28 \<le> 1500"
  obtains b where "length b = MAX_MTU + 64" "take (length payload + 8) b = udp_datagram (dn_ip n) dst dport sport payload"
    "ducknet_udp_send hk dst dport sport payload (int (length payload)) n =
     ducknet_ipv4_send hk dst IPv4_UDP b (int (length payload) + 8) (n\<lparr>udp_buf := b\<rparr>)"
proof -
  have w: "length (udp_buf n) = 1564" "dn_MTU n = 1500" using wf by (simp_all add: net_wf_def MAX_MTU_def)
  let ?len = "of_nat (length payload + 8) :: u16"
  obtain s0 s1 where s: "sport = le16 s0 s1" by (metis le16_bytes16)
  obtain d0 d1 where d: "dport = le16 d0 d1" by (metis le16_bytes16)
  obtain l0 l1 where l: "?len = le16 l0 l1" by (metis le16_bytes16)
  have z: "bytes16 0 = [0, 0]" by (simp add: bytes16_def)
  define r where "r = drop 8 (udp_buf n)"
  define sm where "sm = ducknet_checksum_sum (udp_pseudo_header (dn_ip n) dst ?len)"
  obtain y0 y1 y2 y3 y4 y5 y6 y7 where "udp_buf n = y0 # y1 # y2 # y3 # y4 # y5 # y6 # y7 # r"
  proof -
    have "8 \<le> length (udp_buf n)" using w by simp
    then show ?thesis using that by (auto simp: numeral_eq_Suc Suc_le_length_iff r_def)
  qed
  then have b: "udp_buf n = y0 # y1 # y2 # y3 # y4 # y5 # y6 # y7 # r" and lr: "length r = 1556" using w by auto
  define c where "c = ducknet_checksum (s1 # s0 # d1 # d0 # l1 # l0 # 0 # 0 # payload) sm"
  define buf where "buf = s1 # s0 # d1 # d0 # l1 # l0 # bytes16 c @ payload @ drop (length payload) r"
  have "ducknet_udp_send hk dst dport sport payload (int (length payload)) n =
      ducknet_ipv4_send hk dst IPv4_UDP buf (int (length payload) + 8) (n\<lparr>udp_buf := buf\<rparr>)"
    using len w lr l unfolding b s d buf_def c_def sm_def
    by (simp add: ducknet_udp_send_def put16_def wr_range_def blit_def z udp_hton_bytes rd_range_def nat_add_distrib b take_drop_8)
  moreover have "take (length payload + 8) buf = udp_datagram (dn_ip n) dst dport sport payload"
  proof -
    obtain c0 c1 where c01: "bytes16 c = [c0, c1]" by (metis bytes16_def)
    have rl: "rev (bytes16 ?len) = [l1, l0]" "rev (bytes16 sport) = [s1, s0]" "rev (bytes16 dport) = [d1, d0]" by (simp_all only: l s d bytes16_le16) simp_all
    have "udp_datagram (dn_ip n) dst dport sport payload = s1 # s0 # d1 # d0 # l1 # l0 # bytes16 c @ payload"
      unfolding udp_datagram_def Let_def rl sm_def[symmetric] by (simp add: c_def)
    then show ?thesis using lr len by (simp add: buf_def c01 take_drop_8)
  qed
  moreover have "length buf = MAX_MTU + 64" using lr len by (simp add: buf_def MAX_MTU_def)
  ultimately show ?thesis using that by blast
qed


lemma udp_send_wf:
  assumes wf: "net_wf n"
  shows "returns net_wf (ducknet_udp_send hk dst dport sport payload (int (length payload)) n)"
proof (cases "length payload + 28 \<le> 1500")
  case True
  obtain b where "length b = MAX_MTU + 64" and run: "ducknet_udp_send hk dst dport sport payload (int (length payload)) n =
      ducknet_ipv4_send hk dst IPv4_UDP b (int (length payload) + 8) (n\<lparr>udp_buf := b\<rparr>)"
    by (rule udp_send_datagram[OF wf True]) blast
  then have "net_wf (n\<lparr>udp_buf := b\<rparr>)" "nat (int (length payload) + 8) \<le> length b"
    using wf True by (simp_all add: net_wf_def MAX_MTU_def)
  then show ?thesis unfolding run by (rule ipv4_send_wf)
next
  case False
  then show ?thesis using wf by (simp add: ducknet_udp_send_def net_wf_def[of n])
qed

lemma udp_requests_wf: "net_wf n \<Longrightarrow> \<exists>n'. udp_requests hk qs n = Some n' \<and> net_wf n'"
proof (induction qs arbitrary: n)
  case (Cons q qs)
  obtain dst dport sport payload where q: "q = (dst, dport, sport, payload)" by (cases q)
  obtain r n1 where "ducknet_udp_send hk dst dport sport payload (int (length payload)) n = Some (r, n1)" "net_wf n1"
    using udp_send_wf[OF Cons.prems] by (rule returnsE)
  then show ?case using Cons.IH q by simp
qed simp

lemma udp_handle_wf:
  assumes "net_wf n" "len \<le> int (length pkt)"
  shows "returns net_wf (ducknet_udp_packet_handle hk src dst pkt len n)"
proof (cases "len < 8")
  case False
  then obtain b where "ducknet_udp_hton pkt = Some b" using udp_hton_Some[of pkt] assms(2) by auto
  then show ?thesis using False assms(1) udp_requests_wf[OF assms(1), of hk "snd (the (udp_hook hk) src dst b (len - 8))"]
    by (auto simp: ducknet_udp_packet_handle_def split: option.splits prod.splits)
qed (simp add: ducknet_udp_packet_handle_def assms(1))

lemma ipv4_handle_wf:
  assumes "net_wf n" "len \<le> int (length pkt)"
  shows "returns net_wf (ducknet_ipv4_packet_handle hk pkt len n)"
proof (cases "len < 20")
  case False
  then obtain b where b: "ducknet_ipv4_hton pkt = Some b" "length b = length pkt" using ipv4_hton_Some[of pkt] assms(2) by auto
  let ?l = "le16 (b ! 2) (b ! 3)"
  have lb: "20 \<le> length b" using False b(2) assms(2) by simp
  have len: "uint ?l - 20 \<le> int (length (drop 20 b))" if "\<not> len < uint ?l" using that b(2) assms(2) by simp
  have r: "rd b 0 = Some (b ! 0)" "get16 b 2 = Some ?l" "get16 b 6 = Some (le16 (b ! 6) (b ! 7))" "rd b 9 = Some (b ! 9)"
    "\<exists>v. get32 b 12 = Some v" "\<exists>v. get32 b 16 = Some v"
    using lb by (auto simp: rd_def get16_def get32_def)
  then obtain src dst where sd: "get32 b 12 = Some src" "get32 b 16 = Some dst" by blast
  show ?thesis
    using False b(1) r(1-4) sd icmp_handle_wf[OF assms(1) len] udp_handle_wf[OF assms(1) len] assms(1)
    by (simp add: ducknet_ipv4_packet_handle_def Let_def split: option.splits)
qed (simp add: ducknet_ipv4_packet_handle_def assms(1))

section \<open>Sending to a known neighbour\<close>

text \<open>The address whose neighbour entry is used for a destination.\<close>

definition next_hop :: "Ducknet \<Rightarrow> u32 \<Rightarrow> u32" where
  "next_hop n dst = (if match_prefix dst (dn_ip n) (dn_prefix_len n) = Some True then dst else gateway_ip n)"

lemma ipv4_send_known:
  assumes wf: "net_wf n" and s: "sends hk" and known: "ducknet_arp_lookup (next_hop n dst) n = Some (Some mac)"
    and len: "0 \<le> len" "len + 20 \<le> 1500" "nat len \<le> length payload"
  obtains r buf where "length buf = MAX_MTU + 64" "ducknet_ipv4_send hk dst protocol payload len n = Some (r, n\<lparr>sendbuf := buf, flushed := False,
    dn_sent := dn_sent n @ [ether_frame mac (dn_mac n) ETHERTYPE_IPv4 (ipv4_packet n dst protocol (take (nat len) payload))]\<rparr>)"
proof -
  have w: "length (sendbuf n) = MAX_MTU + 64" using wf by (simp add: net_wf_def)
  have mac: "length mac = 6" by (rule arp_lookup_wf[OF wf, of "next_hop n dst"]) (simp add: known)
  obtain near where near: "match_prefix dst (dn_ip n) (dn_prefix_len n) = Some near" using match_prefix_Some[OF wf] by blast
  have hop: "(if near then dst else gateway_ip n) = next_hop n dst" by (simp add: next_hop_def near)
  obtain b where b: "ipv4_build_packet n (sendbuf n) dst protocol payload len = Some (0, b)" "length b = MAX_MTU + 64"
    "take (nat len + 34) b = take 6 (sendbuf n) @ dn_mac n @ bytes16 (ducknet_htons ETHERTYPE_IPv4) @ ipv4_packet n dst protocol (take (nat len) payload)"
    by (rule build_packet_builds[OF wf len w]) blast
  have "take (nat len + 34) (blit b 0 mac) = mac @ drop 6 (take (nat len + 34) b)"
    using mac b(2) by (simp add: blit_def drop_take)
  then have fr: "take (nat len + 34) (blit b 0 mac) = ether_frame mac (dn_mac n) ETHERTYPE_IPv4 (ipv4_packet n dst protocol (take (nat len) payload))"
    using w by (simp add: b(3) ether_frame_def MAX_MTU_def)
  have lb: "length (blit b 0 mac) = MAX_MTU + 64" "nat len + 34 \<le> 1564" using b(2) mac len by simp_all
  have "ducknet_ipv4_send hk dst protocol payload len n = Some (ducknet_phy_send hk (take (nat len + 34) (blit b 0 mac)) (n\<lparr>sendbuf := blit b 0 mac\<rparr>))"
    unfolding ducknet_ipv4_send_def near using known b(1,2) mac len lb by (simp add: hop Let_def opt_simps MAX_MTU_def)
  then show ?thesis
    unfolding fr by (intro that[OF lb(1)]) (simp add: prod_eq_iff phy_send_sends[OF s])
qed

end
