(* ===== verification/Net_Stack.thy ===== *)
theory Net_Stack
  imports Net_Ipv4
begin

text \<open>
  The whole network stack: the receiving half of \<open>ducknet/lib/ether.cpp\<close> and \<open>ducknet/lib/phy.cpp\<close>,
  and the entry points of \<open>ducknet/lib/ducknet.cpp\<close>. One round of the main loop takes what the outside
  world provides in it: the time stamp counter, the result of the driver's receive function with the
  contents of the receive buffer, and the result of the user's idle function.
\<close>

section \<open>Receiving frames\<close>

definition ducknet_ether_hton :: "bytes \<Rightarrow> bytes option" where
  "ducknet_ether_hton b = do { v \<leftarrow> get16 b 12; put16 b 12 (ducknet_htons v) }"

definition ducknet_ether_packet_handle :: "hooks \<Rightarrow> bytes \<Rightarrow> int \<Rightarrow> Ducknet \<Rightarrow> (int \<times> Ducknet) option" where
  "ducknet_ether_packet_handle hk pkt len n =
     (if len < 14 then Some (- 1, n)
      else do {
        b \<leftarrow> ducknet_ether_hton pkt;
        case hook_stops (ether_hook hk) b of Some r \<Rightarrow> Some (r, n)
        | None \<Rightarrow> do {
            dst \<leftarrow> rd_range b 0 6;
            mine \<leftarrow> is_equal_mac dst (dn_mac n);
            bcast \<leftarrow> is_equal_mac dst ducknet_ether_broadcast_addr;
            if \<not> mine \<and> \<not> bcast then Some (- 1, n)
            else do {
              let content_len = len - 14;
              ethertype \<leftarrow> get16 b 12;
              if ethertype = ETHERTYPE_ARP then ducknet_arp_packet_handle hk (drop 14 b) content_len n
              else if ethertype = ETHERTYPE_IPv4 then ducknet_ipv4_packet_handle hk (drop 14 b) content_len n
              else Some (- 1, n)
            }
          }
      })"

definition ducknet_phy_packet_handle :: "hooks \<Rightarrow> bytes \<Rightarrow> int \<Rightarrow> Ducknet \<Rightarrow> (int \<times> Ducknet) option" where
  "ducknet_phy_packet_handle hk pkt len n =
     (case hook_stops (phy_packet_hook hk) pkt of Some r \<Rightarrow> Some (r, n)
      | None \<Rightarrow> ducknet_ether_packet_handle hk pkt len n)"

section \<open>The main loop\<close>

definition ducknet_packet_handle :: "hooks \<Rightarrow> bytes \<Rightarrow> int \<Rightarrow> Ducknet \<Rightarrow> (int \<times> Ducknet) option" where
  "ducknet_packet_handle hk pkt len n = ducknet_phy_packet_handle hk pkt len n"

definition ducknet_utils_init :: "u64 \<Rightarrow> u64 \<Rightarrow> Ducknet \<Rightarrow> int \<times> Ducknet" where
  "ducknet_utils_init freq now n =
     (if freq = 0 then (- 1, n) else (0, n\<lparr>dn_tsc_freq := freq, currenttime := now\<rparr>))"

definition ducknet_utils_idle :: "u64 \<Rightarrow> Ducknet \<Rightarrow> Ducknet" where
  "ducknet_utils_idle now n = n\<lparr>currenttime := now\<rparr>"

definition ducknet_init :: "u64 \<Rightarrow> u64 \<Rightarrow> bytes \<Rightarrow> u32 \<Rightarrow> u32 \<Rightarrow> u8 \<Rightarrow> Ducknet \<Rightarrow> (int \<times> Ducknet) option" where
  "ducknet_init freq now mac ip gw prefix n = (case ducknet_utils_init freq now n of (r, n) \<Rightarrow>
     if r < 0 then Some (r, n)
     else do {
       let n = ducknet_phy_init n;
       let n = ducknet_ether_init mac n;
       let n = ducknet_arp_init n;
       n \<leftarrow> ducknet_ipv4_init ip gw prefix n;
       Some (0, n)
     })"

definition ducknet_flush :: "hooks \<Rightarrow> Ducknet \<Rightarrow> int \<times> Ducknet" where
  "ducknet_flush hk n = ducknet_phy_flush hk n"

definition ducknet_idle :: "hooks \<Rightarrow> u64 \<Rightarrow> Ducknet \<Rightarrow> (int \<times> Ducknet) option" where
  "ducknet_idle hk now n = do {
     let n = ducknet_utils_idle now n;
     let (r, n) = ducknet_phy_idle hk n;
     if r < 0 then Some (r, n)
     else do {
       (r, n) \<leftarrow> ducknet_arp_idle n;
       if r < 0 then Some (r, n)
       else do {
         (r, n) \<leftarrow> ducknet_ipv4_idle hk n;
         if r < 0 then Some (r, n) else Some (0, n)
       }
     }
   }"

record net_event =
  ev_time :: u64
  ev_len :: int
  ev_pkt :: bytes
  ev_idle :: "(int \<times> udp_request list) option"

definition ducknet_step :: "hooks \<Rightarrow> net_event \<Rightarrow> Ducknet \<Rightarrow> (int \<times> Ducknet) option" where
  "ducknet_step hk ev n = do {
     (r, n) \<leftarrow> ducknet_idle hk (ev_time ev) n;
     if r < 0 then Some (r, n)
     else do {
       (_, n) \<leftarrow> (if ev_len ev \<ge> 0 then ducknet_packet_handle hk (ev_pkt ev) (ev_len ev) n else Some (0, n));
       case ev_idle ev of None \<Rightarrow> Some (0, n)
       | Some (r, qs) \<Rightarrow> do { n \<leftarrow> udp_requests hk qs n; Some (if r < 0 then r else 0, n) }
     }
   }"

text \<open>The loop over the rounds that the outside world provides; it ends at a negative result.\<close>

primrec ducknet_mainloop :: "hooks \<Rightarrow> net_event list \<Rightarrow> Ducknet \<Rightarrow> (int \<times> Ducknet) option" where
  "ducknet_mainloop hk [] n = Some (0, n)"
| "ducknet_mainloop hk (ev # evs) n = do {
     (r, n) \<leftarrow> ducknet_step hk ev n;
     if r < 0 then Some (r, n) else ducknet_mainloop hk evs n
   }"

text \<open>The zeroed globals before initialisation.\<close>

definition ducknet_bss :: Ducknet where
  "ducknet_bss = \<lparr>currenttime = 0, dn_tsc_freq = 0, flushed = False, last_flush_time = 0, flush_delay = 0, flush_cnt = 0,
     sendbuf = replicate (MAX_MTU + 64) 0, dn_mac = replicate 6 0, dn_MTU = 0,
     arp_table = replicate ARP_TABLE_SIZE \<lparr>ae_ip = 0, ae_mac = replicate 6 0, ae_expire = 0\<rparr>, n_arp_entries = 0,
     arp_query_table = replicate ARP_TABLE_SIZE \<lparr>aq_ip = 0, aq_expire = 0\<rparr>, n_arp_queries = 0,
     arp_last_idle = 0, arp_idle_delay = 0, arp_cnt = 0, dn_ip = 0, gateway_ip = 0, dn_prefix_len = 0,
     tosend_table = replicate TOSEND_TABLE_SIZE \<lparr>ts_dst = 0, ts_expire = 0, ts_len = 0, ts_pkt = replicate (MAX_MTU + 64) 0\<rparr>,
     tosend_free = [0, 0], ip_last_idle = 0, ip_idle_delay = 0, ip_cnt = 0, udp_buf = replicate (MAX_MTU + 64) 0,
     dn_sent = [], dn_flushes = 0\<rparr>"

section \<open>Initialisation\<close>

lemma ipv4_init_free:
  assumes "length (tosend_free n) = 2"
  obtains free where "ducknet_ipv4_init ip gw prefix n = Some (n\<lparr>dn_ip := ip, gateway_ip := gw, dn_prefix_len := prefix,
      tosend_free := free, ip_last_idle := currenttime n, ip_idle_delay := dn_tsc_freq n * 100 div 1000 div 1000\<rparr>)"
    "length free = 2" "\<forall>i < 64. slot_free free i"
proof -
  let ?f = "\<lambda>i free. rd free (i div 32) \<bind> (\<lambda>x. wr free (i div 32) (x OR push_bit (i mod 32) (1 :: u32)))"
  let ?P = "\<lambda>k free. length free = 2 \<and> (\<forall>i < k. slot_free free i)"
  have "\<exists>s'. for_opt ?f [0..<64] (map (\<lambda>_. 0) (tosend_free n)) = Some s' \<and> ?P 64 s'"
  proof (rule for_opt_upt_inv[where P = ?P])
    fix i free assume i: "i < (64 :: nat)" and P: "?P i free"
    let ?free = "free[i div 32 := free ! (i div 32) OR push_bit (i mod 32) 1]"
    have "?f i free = Some ?free" using P i by (simp add: opt_simps)
    moreover have "slot_free ?free k" if "k < Suc i" for k
      using that i P by (subst slot_free_set) (auto simp: less_Suc_eq)
    ultimately show "\<exists>s'. ?f i free = Some s' \<and> ?P (Suc i) s'" using P by simp
  qed (use assms in simp_all)
  then show ?thesis using that by (auto simp: ducknet_ipv4_init_def TOSEND_TABLE_SIZE_def Let_def)
qed

lemma ducknet_init_wf:
  assumes "freq \<noteq> 0" "length mac = 6" "prefix \<le> 32"
  obtains n where "ducknet_init freq now mac ip gw prefix ducknet_bss = Some (0, n)" "net_wf n" "arp_sorted n"
    "dn_ip n = ip" "dn_mac n = mac" "gateway_ip n = gw" "dn_prefix_len n = prefix" "neighbours n = Map.empty" "dn_sent n = []"
proof -
  let ?n = "ducknet_arp_init (ducknet_ether_init mac (ducknet_phy_init (ducknet_bss\<lparr>dn_tsc_freq := freq, currenttime := now\<rparr>)))"
  have "length (tosend_free ?n) = 2"
    by (simp add: ducknet_arp_init_def ducknet_ether_init_def ducknet_phy_init_def ducknet_bss_def)
  from ipv4_init_free[OF this, of ip gw prefix] obtain free where
    free: "ducknet_ipv4_init ip gw prefix ?n = Some (?n\<lparr>dn_ip := ip, gateway_ip := gw, dn_prefix_len := prefix,
      tosend_free := free, ip_last_idle := currenttime ?n, ip_idle_delay := dn_tsc_freq ?n * 100 div 1000 div 1000\<rparr>)"
    "length free = 2" "\<forall>i < 64. slot_free free i" by blast
  show ?thesis
  proof (rule that)
    show "ducknet_init freq now mac ip gw prefix ducknet_bss = Some (0, ?n\<lparr>dn_ip := ip, gateway_ip := gw, dn_prefix_len := prefix,
      tosend_free := free, ip_last_idle := currenttime ?n, ip_idle_delay := dn_tsc_freq ?n * 100 div 1000 div 1000\<rparr>)"
      using assms free(1) by (simp add: ducknet_init_def ducknet_utils_init_def Let_def)
  qed (use assms free in \<open>auto simp: net_wf_def slot_free_def ducknet_arp_init_def ducknet_ether_init_def ducknet_phy_init_def
      ducknet_bss_def arp_sorted_def known_def neighbours_def TOSEND_TABLE_SIZE_def\<close>)
qed

section \<open>Safety of the loop\<close>

lemma list6:
  assumes "length b = 6"
  obtains x0 x1 x2 x3 x4 x5 where "b = [x0, x1, x2, x3, x4, x5]"
proof -
  have "length b = Suc (Suc (Suc (Suc (Suc (Suc 0)))))" using assms by simp
  then show ?thesis using that by (elim length_Suc_conv[THEN iffD1, elim_format] exE conjE) simp
qed

lemma is_equal_mac_iff: "length a = 6 \<Longrightarrow> length b = 6 \<Longrightarrow> is_equal_mac a b = Some (a = b)"
proof -
  assume l: "length a = 6" "length b = 6"
  obtain a0 a1 a2 a3 a4 a5 where a: "a = [a0, a1, a2, a3, a4, a5]" using l(1) by (rule list6)
  obtain b0 b1 b2 b3 b4 b5 where b: "b = [b0, b1, b2, b3, b4, b5]" using l(2) by (rule list6)
  have "le32 a0 a1 a2 a3 = le32 b0 b1 b2 b3 \<longleftrightarrow> a0 = b0 \<and> a1 = b1 \<and> a2 = b2 \<and> a3 = b3"
    using bytes32_le32[of a0 a1 a2 a3] bytes32_le32[of b0 b1 b2 b3] by (metis list.inject)
  then show ?thesis by (simp add: a b is_equal_mac_def get32_def get16_def rd_def le16_inject) blast
qed

lemma ether_hton_split:
  assumes "length dst = 6" "length src = 6"
  shows "ducknet_ether_hton (dst @ src @ bytes16 (ducknet_htons ty) @ r) = Some (dst @ src @ bytes16 ty @ r)"
proof -
  obtain t0 t1 where t: "ty = le16 t0 t1" by (metis le16_bytes16)
  show ?thesis using assms
    by (simp add: t ducknet_ether_hton_def htons_le16 get16_def rd_def nth_append put16_def wr_range_def blit_def)
qed

lemma ether_split:
  assumes "14 \<le> length b"
  obtains dst src ty r where "b = dst @ src @ bytes16 (ducknet_htons ty) @ r" "length dst = 6" "length src = 6"
proof -
  let ?b = "drop 12 b" and ?t0 = "b ! 12" and ?t1 = "b ! 13"
  have t: "take 2 ?b = [?t0, ?t1]" using assms by (intro nth_equalityI) (auto simp: less_Suc_eq numeral_2_eq_2)
  have "b = take 6 b @ drop 6 b" "drop 6 b = take 6 (drop 6 b) @ drop 6 (drop 6 b)" "?b = take 2 ?b @ drop 2 ?b"
    by (simp_all only: append_take_drop_id)
  then have "b = take 6 b @ take 6 (drop 6 b) @ take 2 ?b @ drop 2 ?b" by (simp only: drop_drop) simp
  moreover have "take 2 ?b = bytes16 (ducknet_htons (le16 ?t1 ?t0))" by (simp add: t htons_le16)
  ultimately show ?thesis using that[of "take 6 b" "take 6 (drop 6 b)" "le16 ?t1 ?t0" "drop 2 ?b"] assms by simp
qed

text \<open>What the Ethernet layer does with a frame whose inspection hook lets it pass.\<close>

lemma ether_handle_dispatch:
  assumes "net_wf n" "length dst = 6" "length src = 6" "14 \<le> len" "hook_stops (ether_hook hk) (dst @ src @ bytes16 ty @ r) = None"
  shows "ducknet_ether_packet_handle hk (dst @ src @ bytes16 (ducknet_htons ty) @ r) len n =
    (if dst \<noteq> dn_mac n \<and> dst \<noteq> ducknet_ether_broadcast_addr then Some (- 1, n)
     else if ty = ETHERTYPE_ARP then ducknet_arp_packet_handle hk r (len - 14) n
     else if ty = ETHERTYPE_IPv4 then ducknet_ipv4_packet_handle hk r (len - 14) n
     else Some (- 1, n))"
proof -
  have mac: "length (dn_mac n) = 6" using assms(1) by (simp add: net_wf_def)
  define b where "b = dst @ src @ bytes16 ty @ r"
  obtain t0 t1 where t: "ty = le16 t0 t1" by (metis le16_bytes16)
  have "get16 b 12 = Some ty" using assms(2,3) by (simp add: b_def t get16_def rd_def nth_append)
  moreover have "rd_range b 0 6 = Some dst" "drop 14 b = r" using assms(2,3) by (simp_all add: b_def rd_range_def)
  moreover have "is_equal_mac dst (dn_mac n) = Some (dst = dn_mac n)"
    "is_equal_mac dst ducknet_ether_broadcast_addr = Some (dst = ducknet_ether_broadcast_addr)"
    using assms(2) mac by (simp_all add: is_equal_mac_iff ducknet_ether_broadcast_addr_def)
  ultimately show ?thesis
    unfolding ducknet_ether_packet_handle_def ether_hton_split[OF assms(2,3)] b_def[symmetric]
    using assms(4,5) by (simp add: Let_def flip: b_def)
qed

lemma ether_handle_wf:
  assumes "net_wf n" "len \<le> int (length pkt)"
  shows "returns net_wf (ducknet_ether_packet_handle hk pkt len n)"
proof (cases "len < 14")
  case False
  then have "14 \<le> length pkt" using assms(2) by simp
  then obtain dst src ty r where pkt: "pkt = dst @ src @ bytes16 (ducknet_htons ty) @ r" "length dst = 6" "length src = 6"
    by (rule ether_split)
  have len: "len - 14 \<le> int (length r)" using assms(2) pkt by simp
  show ?thesis
  proof (cases "hook_stops (ether_hook hk) (dst @ src @ bytes16 ty @ r)")
    case None
    have "ducknet_ether_packet_handle hk pkt len n = (if dst \<noteq> dn_mac n \<and> dst \<noteq> ducknet_ether_broadcast_addr then Some (- 1, n)
     else if ty = ETHERTYPE_ARP then ducknet_arp_packet_handle hk r (len - 14) n
     else if ty = ETHERTYPE_IPv4 then ducknet_ipv4_packet_handle hk r (len - 14) n
     else Some (- 1, n))"
      unfolding pkt(1) by (rule ether_handle_dispatch[OF assms(1) pkt(2,3) _ None]) (use False in simp)
    then show ?thesis using arp_handle_wf[OF assms(1) len] ipv4_handle_wf[OF assms(1) len] assms(1) by simp
  next
    case (Some x)
    then show ?thesis using False assms(1) ether_hton_split[OF pkt(2,3)] by (simp add: ducknet_ether_packet_handle_def pkt(1))
  qed
qed (simp add: ducknet_ether_packet_handle_def assms(1))

lemma packet_handle_wf:
  assumes "net_wf n" "len \<le> int (length pkt)"
  shows "returns net_wf (ducknet_packet_handle hk pkt len n)"
  using assms ether_handle_wf[OF assms]
  by (auto simp: ducknet_packet_handle_def ducknet_phy_packet_handle_def split: option.splits)

lemma idle_wf: "net_wf n \<Longrightarrow> returns net_wf (ducknet_idle hk now n)"
proof -
  assume wf: "net_wf n"
  define n1 where "n1 = snd (ducknet_phy_idle hk (ducknet_utils_idle now n))"
  have p: "ducknet_phy_idle hk (ducknet_utils_idle now n) = (0, n1)"
    by (simp add: n1_def ducknet_phy_idle_def Let_def)
  have "net_wf n1" using wf by (simp add: n1_def ducknet_utils_idle_def)
  then obtain n2 where a: "ducknet_arp_idle n1 = Some (0, n2)" "net_wf n2" by (rule arp_idle_wf)
  obtain r n3 where i: "ducknet_ipv4_idle hk n2 = Some (r, n3)" "net_wf n3" using ipv4_idle_wf[OF a(2)] by (rule returnsE)
  show "returns net_wf (ducknet_idle hk now n)" using a i by (simp add: ducknet_idle_def p)
qed

text \<open>The driver returns at most the size of the receive buffer.\<close>

definition rx_ok :: "net_event \<Rightarrow> bool" where
  "rx_ok ev \<longleftrightarrow> length (ev_pkt ev) = MAX_MTU + 64 \<and> ev_len ev \<le> int (MAX_MTU + 64)"

lemma step_wf:
  assumes "net_wf n" "rx_ok ev"
  shows "returns net_wf (ducknet_step hk ev n)"
proof -
  obtain r n1 where i: "ducknet_idle hk (ev_time ev) n = Some (r, n1)" "net_wf n1" using idle_wf[OF assms(1)] by (rule returnsE)
  have "returns net_wf (if ev_len ev \<ge> 0 then ducknet_packet_handle hk (ev_pkt ev) (ev_len ev) n1 else Some (0, n1))"
    using packet_handle_wf[OF i(2), of "ev_len ev" "ev_pkt ev" hk] i(2) assms(2) by (simp add: rx_ok_def)
  then obtain q n2 where h: "(if ev_len ev \<ge> 0 then ducknet_packet_handle hk (ev_pkt ev) (ev_len ev) n1 else Some (0, n1)) = Some (q, n2)" "net_wf n2"
    by (rule returnsE)
  obtain n3 where "udp_requests hk (snd (the (ev_idle ev))) n2 = Some n3 \<and> net_wf n3" using udp_requests_wf[OF h(2)] by blast
  then show ?thesis unfolding ducknet_step_def i(1) using h i(2) by (auto simp: split: option.splits prod.splits)
qed

lemma mainloop_wf:
  assumes "net_wf n" "\<forall>ev \<in> set evs. rx_ok ev"
  shows "returns net_wf (ducknet_mainloop hk evs n)"
  using assms
proof (induction evs arbitrary: n)
  case (Cons ev evs)
  then obtain r n1 where "ducknet_step hk ev n = Some (r, n1)" "net_wf n1" using step_wf[of n ev hk] by (auto elim: returnsE)
  then show ?case using Cons by simp
qed simp

section \<open>Packets on the wire\<close>

text \<open>No inspection hook is installed.\<close>

definition plain :: "hooks \<Rightarrow> bool" where
  "plain hk \<longleftrightarrow> phy_packet_hook hk = None \<and> ether_hook hk = None \<and> arp_hook hk = None \<and> ipv4_hook hk = None \<and> icmp_hook hk = None"

lemma plain_handle:
  assumes "net_wf n" "plain hk" "length dst = 6" "length src = 6" "14 \<le> len" "dst = dn_mac n \<or> dst = ducknet_ether_broadcast_addr"
  shows "ducknet_packet_handle hk (dst @ src @ bytes16 (ducknet_htons ETHERTYPE_ARP) @ r) len n = ducknet_arp_packet_handle hk r (len - 14) n"
    and "ducknet_packet_handle hk (dst @ src @ bytes16 (ducknet_htons ETHERTYPE_IPv4) @ r) len n = ducknet_ipv4_packet_handle hk r (len - 14) n"
proof -
  have "hook_stops (ether_hook hk) b = None" "hook_stops (phy_packet_hook hk) b = None" for b
    using assms(2) by (simp_all add: plain_def hook_stops_def)
  note dispatch = ether_handle_dispatch[OF assms(1,3,4,5) this(1)] and phy = this(2)
  show "ducknet_packet_handle hk (dst @ src @ bytes16 (ducknet_htons ETHERTYPE_ARP) @ r) len n = ducknet_arp_packet_handle hk r (len - 14) n"
    "ducknet_packet_handle hk (dst @ src @ bytes16 (ducknet_htons ETHERTYPE_IPv4) @ r) len n = ducknet_ipv4_packet_handle hk r (len - 14) n"
    using assms(6) by (auto simp: ducknet_packet_handle_def ducknet_phy_packet_handle_def phy dispatch ETHERTYPE_ARP_def ETHERTYPE_IPv4_def)
qed

lemma drop_bit_0x54: "drop_bit 4 (0x54 :: u8) = 5" "(0x54 :: u8) AND 15 = 4"
  by simp_all

lemma ipv4_handle_header:
  assumes "plain hk" "length payload + 20 < 65536" "int (length payload) + 20 \<le> len"
  shows "ducknet_ipv4_packet_handle hk (ipv4_header src (dn_ip n) protocol (of_nat (length payload + 20)) @ payload @ pad) len n =
    (if protocol = IPv4_ICMP then ducknet_icmp_packet_handle hk src (dn_ip n) (payload @ pad) (int (length payload)) n
     else if protocol = IPv4_UDP then ducknet_udp_packet_handle hk src (dn_ip n) (payload @ pad) (int (length payload)) n
     else Some (- 1, n))"
proof -
  define l :: u16 where "l = of_nat (length payload + 20)"
  have ul: "uint l = int (length payload) + 20"
    using assms(2) unat_of_nat_lt[of "length payload + 20", where 'a = 16] unfolding uint_nat l_def by simp
  obtain l0 l1 where l: "l = le16 l0 l1" by (metis le16_bytes16)
  obtain s0 s1 s2 s3 where s: "src = le32 s0 s1 s2 s3" by (metis le32_bytes32)
  obtain d0 d1 d2 d3 where d: "dn_ip n = le32 d0 d1 d2 d3" by (metis le32_bytes32)
  obtain c0 c1 where c: "bytes16 (ducknet_checksum (ipv4_header_pre protocol l @ [0, 0] @ ipv4_header_post src (dn_ip n)) 0) = [c0, c1]"
    by (metis bytes16_def)
  have b: "bytes16 2333 = [0x1d, 9]" by (simp add: bytes16_def)
  define w where "w = 0x45 # 0 # l1 # l0 # 9 # 0x1d # 0 # 0 # 233 # protocol # c0 # c1 # s3 # s2 # s1 # s0 # d3 # d2 # d1 # d0 # payload @ pad"
  define h where "h = 0x54 # 0 # l0 # l1 # 0x1d # 9 # 0 # 0 # 233 # protocol # c0 # c1 # s0 # s1 # s2 # s3 # d0 # d1 # d2 # d3 # payload @ pad"
  have wire: "ipv4_header src (dn_ip n) protocol l @ payload @ pad = w"
    unfolding ipv4_header_def Let_def c by (simp add: ipv4_header_pre_def ipv4_header_post_def b w_def s d l bytes16_htons bytes32_htonl)
  have hton: "ducknet_ipv4_hton w = Some h" by (simp add: w_def h_def ipv4_hton_bytes)
  have rds: "rd h 0 = Some 0x54" "get16 h 2 = Some l" "get16 h 6 = Some 0" "rd h 9 = Some protocol" "get32 h 12 = Some src" "get32 h 16 = Some (dn_ip n)"
    "drop 20 h = payload @ pad"
    by (simp_all add: h_def rd_def get16_def get32_def l s d le16_def)
  have "hook_stops (ipv4_hook hk) h = None" using assms(1) by (simp add: plain_def hook_stops_def)
  then show ?thesis
    unfolding l_def[symmetric] wire ducknet_ipv4_packet_handle_def hton
    using assms(3) ul by (simp add: rds drop_bit_0x54 Let_def)
qed

section \<open>Properties\<close>

lemma take_4: "take (k + 4) (a # b # c # d # xs) = a # b # c # d # take k xs"
  by (simp add: eval_nat_numeral)

lemma pseudo_sum_small: "unat (ducknet_checksum_sum (udp_pseudo_header src dst l)) \<le> 65535 * 12"
proof -
  let ?p = "udp_pseudo_header src dst l"
  have l: "length ?p = 12" by (simp add: udp_pseudo_header_def)
  then have "unat (ducknet_checksum_sum ?p) = nsum ?p"
    using checksum_words_nsum[of 0 ?p] nsum_le[of ?p] by (simp add: ducknet_checksum_sum_def)
  then show ?thesis using nsum_le[of ?p] l by simp
qed

lemma udp_datagram_checksum:
  assumes "length payload \<le> 1472"
  shows "ducknet_checksum (udp_datagram src dst dport sport payload)
    (ducknet_checksum_sum (udp_pseudo_header src dst (of_nat (length payload + 8)))) = 0"
  unfolding udp_datagram_def Let_def
  using assms pseudo_sum_small[of src dst "of_nat (length payload + 8)"] by (intro checksum_verifies) simp_all

lemma udp_buf_irrelevant:
  "ducknet_arp_lookup ip (n\<lparr>udp_buf := u\<rparr>) = ducknet_arp_lookup ip n" "next_hop (n\<lparr>udp_buf := u\<rparr>) dst = next_hop n dst"
  by (simp_all add: ducknet_arp_lookup_def next_hop_def Let_def cong: if_cong)

lemma udp_handle_datagram:
  assumes "udp_hook hk = Some f"
  obtains c where "\<forall>pad n. ducknet_udp_packet_handle hk src dst (udp_datagram s d dport sport payload @ pad) (int (length payload + 8)) n =
    (case f src dst (bytes16 sport @ bytes16 dport @ bytes16 (of_nat (length payload + 8)) @ bytes16 c @ payload @ pad) (int (length payload)) of
      (r, qs) \<Rightarrow> do { n \<leftarrow> udp_requests hk qs n; Some (if r < 0 then r else 0, n) })"
proof -
  obtain s0 s1 where s: "sport = le16 s0 s1" by (metis le16_bytes16)
  obtain d0 d1 where d: "dport = le16 d0 d1" by (metis le16_bytes16)
  obtain l0 l1 where l: "of_nat (length payload + 8) = le16 l0 l1" by (metis le16_bytes16)
  obtain c where c: "\<And>pad. udp_datagram s d dport sport payload @ pad = s1 # s0 # d1 # d0 # l1 # l0 # bytes16 c @ payload @ pad"
    by (simp only: udp_datagram_def Let_def s d l bytes16_le16 rev.simps append_Nil append_Cons append_assoc)
  show ?thesis
    by (rule that[of c], intro allI, simp only: c l) (simp add: ducknet_udp_packet_handle_def udp_hton_bytes assms s d)
qed

text \<open>C15: From initialisation with a valid configuration, the stack runs through any sequence of received
  packets, whatever their contents, clock readings and requests of its user without a fault, and its
  tables stay well formed.\<close>

theorem stack_safe:
  assumes "freq \<noteq> 0" "length mac = 6" "prefix \<le> 32" "\<forall>ev \<in> set evs. rx_ok ev"
  shows "\<exists>n r n'. ducknet_init freq now mac ip gw prefix ducknet_bss = Some (0, n) \<and>
    ducknet_mainloop hk evs n = Some (r, n') \<and> net_wf n'"
proof -
  obtain n where n: "ducknet_init freq now mac ip gw prefix ducknet_bss = Some (0, n)" "net_wf n"
    by (rule ducknet_init_wf[OF assms(1-3)]) blast
  obtain r n' where "ducknet_mainloop hk evs n = Some (r, n')" "net_wf n'"
    using mainloop_wf[OF n(2) assms(4)] by (rule returnsE)
  with n(1) show ?thesis by blast
qed

definition quiet_hooks :: hooks where
  "quiet_hooks = \<lparr>phy_send_fn = Some (\<lambda>b. int (length b)), phy_flush_fn = Some 0, phy_packet_hook = None, phy_send_hook = None,
     ether_hook = None, arp_hook = None, ipv4_hook = None, icmp_hook = None, udp_hook = Some (\<lambda>_ _ _ _. (0, []))\<rparr>"

theorem stack_safe_witness:
  "\<exists>n r n'. ducknet_init 1000 5 (replicate 6 2) 10 1 24 ducknet_bss = Some (0, n) \<and>
    ducknet_mainloop quiet_hooks [\<lparr>ev_time = 7, ev_len = 60, ev_pkt = replicate (MAX_MTU + 64) 255, ev_idle = None\<rparr>] n = Some (r, n') \<and> net_wf n'"
  by (rule stack_safe) (simp_all add: rx_ok_def MAX_MTU_def)

text \<open>C16: A datagram sent to a host whose address is known is handed to the driver as one frame; when that
  frame arrives, the receiver's handler is called with the addresses, ports and payload that were sent,
  and the checksums of the packet verify.\<close>

theorem udp_delivery:
  assumes a: "net_wf a" "sends hka" "ducknet_arp_lookup (next_hop a (dn_ip b)) a = Some (Some (dn_mac b))"
    and b: "net_wf b" "plain hkb" "udp_hook hkb = Some f" and len: "length payload \<le> 1472"
  shows "\<exists>r a' frame c. ducknet_udp_send hka (dn_ip b) dport sport payload (int (length payload)) a = Some (r, a') \<and>
    dn_sent a' = dn_sent a @ [frame] \<and> length frame = length payload + 42 \<and>
    ducknet_checksum (take 20 (drop 14 frame)) 0 = 0 \<and>
    ducknet_checksum (drop 34 frame) (ducknet_checksum_sum (udp_pseudo_header (dn_ip a) (dn_ip b) (of_nat (length payload + 8)))) = 0 \<and>
    (\<forall>pad. ducknet_packet_handle hkb (frame @ pad) (int (length frame)) b =
      (case f (dn_ip a) (dn_ip b) (bytes16 sport @ bytes16 dport @ bytes16 (of_nat (length payload + 8)) @ bytes16 c @ payload @ pad)
         (int (length payload)) of (r, qs) \<Rightarrow> do { n \<leftarrow> udp_requests hkb qs b; Some (if r < 0 then r else 0, n) }))"
proof -
  let ?d = "udp_datagram (dn_ip a) (dn_ip b) dport sport payload"
  let ?h = "ipv4_header (dn_ip a) (dn_ip b) IPv4_UDP (of_nat (length ?d + 20))"
  let ?f = "ether_frame (dn_mac b) (dn_mac a) ETHERTYPE_IPv4 (?h @ ?d)"
  have mac: "length (dn_mac a) = 6" "length (dn_mac b) = 6" using a(1) b(1) by (simp_all add: net_wf_def)
  obtain u where u: "length u = MAX_MTU + 64" "take (length payload + 8) u = ?d"
    "ducknet_udp_send hka (dn_ip b) dport sport payload (int (length payload)) a =
     ducknet_ipv4_send hka (dn_ip b) IPv4_UDP u (int (length payload) + 8) (a\<lparr>udp_buf := u\<rparr>)"
    using udp_send_datagram[OF a(1), of payload "dn_ip b" dport sport hka] len by auto
  let ?a = "a\<lparr>udp_buf := u\<rparr>"
  have wf: "net_wf ?a" using a(1) u(1) by (simp add: net_wf_def)
  have lk: "ducknet_arp_lookup (next_hop ?a (dn_ip b)) ?a = Some (Some (dn_mac b))"
    using a(3) by (simp add: udp_buf_irrelevant)
  obtain r buf where run: "ducknet_ipv4_send hka (dn_ip b) IPv4_UDP u (int (length payload) + 8) ?a = Some (r, ?a\<lparr>sendbuf := buf, flushed := False,
      dn_sent := dn_sent ?a @ [ether_frame (dn_mac b) (dn_mac ?a) ETHERTYPE_IPv4 (ipv4_packet ?a (dn_ip b) IPv4_UDP (take (nat (int (length payload) + 8)) u))]\<rparr>)"
    by (rule ipv4_send_known[OF wf a(2) lk, of "int (length payload) + 8" u IPv4_UDP]) (use len u(1) in \<open>auto simp: MAX_MTU_def\<close>)
  have pk: "ipv4_packet ?a (dn_ip b) IPv4_UDP (take (nat (int (length payload) + 8)) u) = ?h @ ?d"
    using u(2) by (simp add: ipv4_packet_def nat_add_distrib)
  obtain c where c: "\<forall>pad n. ducknet_udp_packet_handle hkb (dn_ip a) (dn_ip b) (?d @ pad) (int (length payload + 8)) n =
    (case f (dn_ip a) (dn_ip b) (bytes16 sport @ bytes16 dport @ bytes16 (of_nat (length payload + 8)) @ bytes16 c @ payload @ pad) (int (length payload)) of
      (r, qs) \<Rightarrow> do { n \<leftarrow> udp_requests hkb qs n; Some (if r < 0 then r else 0, n) })"
    by (rule udp_handle_datagram[OF b(3)])
  have "ducknet_packet_handle hkb (?f @ pad) (int (length ?f)) b = ducknet_udp_packet_handle hkb (dn_ip a) (dn_ip b) (?d @ pad) (int (length ?d)) b" for pad
    using plain_handle(2)[OF b(1,2) mac(2,1), of "int (length ?f)" "?h @ ?d @ pad"] mac len
      ipv4_handle_header[OF b(2), of ?d "int (length ?f) - 14" "dn_ip a" b IPv4_UDP pad]
    by (simp add: ether_frame_def IPv4_UDP_def IPv4_ICMP_def)
  moreover have "ducknet_checksum (take 20 (drop 14 ?f)) 0 = 0" "drop 34 ?f = ?d" "length ?f = length payload + 42"
    using mac by (simp_all add: ether_frame_def ipv4_header_checksum)
  ultimately show ?thesis using u(3) run udp_datagram_checksum[OF len] c unfolding pk
    by (intro exI[of _ r] exI[of _ "?a\<lparr>sendbuf := buf, flushed := False, dn_sent := dn_sent a @ [?f]\<rparr>"] exI[of _ ?f] exI[of _ c]) simp
qed

text \<open>A host right after initialisation, and one that has learnt a neighbour.\<close>

definition host :: "u32 \<Rightarrow> bytes \<Rightarrow> Ducknet" where
  "host ip mac = snd (the (ducknet_init 1000 5 mac ip 1 24 ducknet_bss))"

definition learn :: "u32 \<Rightarrow> bytes \<Rightarrow> Ducknet \<Rightarrow> Ducknet" where
  "learn ip mac n = snd (the (ducknet_arp_update ip mac n))"

lemma arp_update_frame:
  "ducknet_arp_update ip mac n = Some (r, n') \<Longrightarrow>
    dn_ip n' = dn_ip n \<and> gateway_ip n' = gateway_ip n \<and> dn_mac n' = dn_mac n \<and> dn_prefix_len n' = dn_prefix_len n"
  unfolding ducknet_arp_update_def Let_def
  apply (clarsimp simp: bind_eq_Some_conv)
  apply (case_tac ya; simp add: bind_eq_Some_conv split: if_splits)
   apply auto
  done

lemma host_facts:
  assumes "length mac = 6"
  shows "net_wf (host ip mac)" "arp_sorted (host ip mac)" "dn_ip (host ip mac) = ip" "dn_mac (host ip mac) = mac"
    "gateway_ip (host ip mac) = 1" "dn_prefix_len (host ip mac) = 24" "neighbours (host ip mac) = Map.empty" "dn_sent (host ip mac) = []"
  by (rule ducknet_init_wf[of 1000 mac 24 5 ip 1]; use assms in \<open>simp add: host_def\<close>)+

lemma learn_facts:
  assumes "net_wf n" "arp_sorted n" "arp_fits ip n" "length mac = 6"
  shows "net_wf (learn ip mac n)" "ducknet_arp_lookup ip (learn ip mac n) = Some (Some mac)"
    "dn_ip (learn ip mac n) = dn_ip n" "gateway_ip (learn ip mac n) = gateway_ip n" "dn_mac (learn ip mac n) = dn_mac n"
    "next_hop (learn ip mac n) dst = next_hop n dst"
proof -
  obtain n' where n': "ducknet_arp_update ip mac n = Some (0, n')" "net_wf n'" "arp_sorted n'" "neighbours n' = (neighbours n)(ip \<mapsto> mac)"
    by (rule arp_update_neighbours[OF assms])
  with arp_update_frame[OF n'(1)] show "net_wf (learn ip mac n)" "ducknet_arp_lookup ip (learn ip mac n) = Some (Some mac)"
    "dn_ip (learn ip mac n) = dn_ip n" "gateway_ip (learn ip mac n) = gateway_ip n" "dn_mac (learn ip mac n) = dn_mac n"
    "next_hop (learn ip mac n) dst = next_hop n dst"
    by (simp_all add: learn_def arp_lookup_neighbours next_hop_def)
qed

lemma host_fits: "length mac = 6 \<Longrightarrow> arp_fits k (host ip mac)"
proof -
  assume "length mac = 6"
  then have "known (host ip mac) = []" "net_wf (host ip mac)"
    using host_facts(7)[of mac ip] host_facts(1)[of mac ip] by (auto simp: neighbours_def dest: arg_cong[where f = dom])
  then show ?thesis by (auto simp: arp_fits_def known_def net_wf_def ARP_TABLE_SIZE_def)
qed

lemma quiet_hooks_facts: "sends quiet_hooks" "plain quiet_hooks" "udp_hook quiet_hooks = Some (\<lambda>_ _ _ _. (0, []))"
  by (simp_all add: sends_def plain_def quiet_hooks_def)

theorem udp_delivery_witness:
  "\<exists>r a' frame c. ducknet_udp_send quiet_hooks (dn_ip (host 1 (replicate 6 2))) 80 81 [65, 66] (int (length [65, 66 :: u8]))
      (learn 1 (replicate 6 2) (host 10 (replicate 6 3))) = Some (r, a') \<and>
    dn_sent a' = dn_sent (learn 1 (replicate 6 2) (host 10 (replicate 6 3))) @ [frame] \<and> length frame = length [65, 66 :: u8] + 42 \<and>
    ducknet_checksum (take 20 (drop 14 frame)) 0 = 0 \<and>
    ducknet_checksum (drop 34 frame) (ducknet_checksum_sum (udp_pseudo_header (dn_ip (learn 1 (replicate 6 2) (host 10 (replicate 6 3))))
      (dn_ip (host 1 (replicate 6 2))) (of_nat (length [65, 66 :: u8] + 8)))) = 0 \<and>
    (\<forall>pad. ducknet_packet_handle quiet_hooks (frame @ pad) (int (length frame)) (host 1 (replicate 6 2)) =
      (case (\<lambda>_ _ _ _. (0, [])) (dn_ip (learn 1 (replicate 6 2) (host 10 (replicate 6 3)))) (dn_ip (host 1 (replicate 6 2)))
         (bytes16 81 @ bytes16 80 @ bytes16 (of_nat (length [65, 66 :: u8] + 8)) @ bytes16 c @ [65, 66] @ pad) (int (length [65, 66 :: u8])) of
         (r, qs) \<Rightarrow> do { n \<leftarrow> udp_requests quiet_hooks qs (host 1 (replicate 6 2)); Some (if r < 0 then r else 0, n) }))"
proof (rule udp_delivery)
  let ?a = "host 10 (replicate 6 3)" and ?m = "replicate 6 2 :: bytes"
  note A = host_facts[of "replicate 6 3" 10, simplified] and B = host_facts[of ?m 1, simplified]
  note L = learn_facts[OF A(1,2), of 1 ?m, OF host_fits, simplified]
  show "net_wf (learn 1 ?m ?a)" using L(1) by simp
  have "next_hop ?a 1 = 1" using A(5) by (simp add: next_hop_def)
  then show "ducknet_arp_lookup (next_hop (learn 1 ?m ?a) (dn_ip (host 1 ?m))) (learn 1 ?m ?a) = Some (Some (dn_mac (host 1 ?m)))"
    using L(2,6) B(3,4) by simp
  show "net_wf (host 1 ?m)" using B(1) by simp
qed (simp_all add: quiet_hooks_facts)

text \<open>C17: A host that is asked for its own address answers with one frame that carries its hardware address,
  addressed to the one who asked.\<close>

theorem arp_request_answered:
  assumes wf: "net_wf n" and hk: "sends hk" "plain hk" and sha: "length sha = 6" and tha: "length tha = 6"
  shows "\<exists>n'. ducknet_packet_handle hk (arp_frame ducknet_ether_broadcast_addr sha ARP_REQUEST (arp_payload sha spa tha (dn_ip n)) @ pad) 42 n = Some (0, n') \<and>
    net_wf n' \<and> dn_sent n' = dn_sent n @ [arp_frame sha (dn_mac n) ARP_REPLY (arp_payload (dn_mac n) (dn_ip n) sha spa)]"
proof -
  have mac: "length (dn_mac n) = 6" using wf by (simp add: net_wf_def)
  obtain s0 s1 s2 s3 where s: "spa = le32 s0 s1 s2 s3" by (metis le32_bytes32)
  obtain d0 d1 d2 d3 where d: "dn_ip n = le32 d0 d1 d2 d3" by (metis le32_bytes32)
  define p where "p = arp_payload sha spa tha (dn_ip n)"
  have lp: "length p = 20" using sha tha by (simp add: p_def arp_payload_def)
  have pb: "p = sha @ s3 # s2 # s1 # s0 # tha @ [d3, d2, d1, d0]"
    by (simp add: p_def arp_payload_def s d bytes32_htonl)
  define b where "b = bytes16 1 @ bytes16 0x0800 @ [6, 4] @ bytes16 ARP_REQUEST @ p @ pad"
  have wire: "ducknet_arp_hton (bytes16 (ducknet_htons 1) @ bytes16 (ducknet_htons 0x0800) @ [6, 4] @ bytes16 (ducknet_htons ARP_REQUEST) @ p @ pad) = Some b"
    by (simp add: b_def bytes16_htons) (simp add: bytes16_def ARP_REQUEST_def arp_hton_bytes)
  have rds: "get16 b 0 = Some 1" "get16 b 2 = Some 0x0800" "rd b 4 = Some 6" "rd b 5 = Some 4" "get16 b 6 = Some ARP_REQUEST" "rd_range b 8 20 = Some p"
    using lp by (simp_all add: b_def bytes16_def get16_def rd_def le16_def ARP_REQUEST_def rd_range_def)
  have prd: "rd_range p 0 6 = Some sha" "get32 p 6 = Some (le32 s3 s2 s1 s0)" "get32 p 16 = Some (le32 d3 d2 d1 d0)"
    using sha tha by (simp_all add: pb rd_range_def get32_def rd_def nth_append)
  have hook: "hook_stops (arp_hook hk) b = None" using hk(2) by (simp add: plain_def hook_stops_def)
  let ?reply = "arp_payload (dn_mac n) (dn_ip n) sha spa"
  have lrep: "length ?reply = 20" using mac sha by (simp add: arp_payload_def)
  then obtain buf where buf: "length buf = MAX_MTU + 64" "ducknet_arp_send hk sha ARP_REPLY ?reply 20 n =
      Some (ducknet_phy_send hk (arp_frame sha (dn_mac n) ARP_REPLY ?reply) (n\<lparr>sendbuf := buf\<rparr>))"
    using arp_send_frame[OF wf sha, of ?reply hk ARP_REPLY] by (auto simp: MAX_MTU_def)
  have "ducknet_packet_handle hk (arp_frame ducknet_ether_broadcast_addr sha ARP_REQUEST p @ pad) 42 n = ducknet_arp_packet_handle hk
      (bytes16 (ducknet_htons 1) @ bytes16 (ducknet_htons 0x0800) @ [6, 4] @ bytes16 (ducknet_htons ARP_REQUEST) @ p @ pad) 28 n"
    using plain_handle(1)[OF wf hk(2) _ sha, of ducknet_ether_broadcast_addr 42] by (simp add: arp_frame_def ether_frame_def ducknet_ether_broadcast_addr_def)
  also have "\<dots> = Some (0, snd (ducknet_phy_send hk (arp_frame sha (dn_mac n) ARP_REPLY ?reply) (n\<lparr>sendbuf := buf\<rparr>)))"
    unfolding ducknet_arp_packet_handle_def wire using hook buf(2)
    by (simp add: rds prd htonl_le32 s[symmetric] d[symmetric] split_beta)
  finally show ?thesis
    using net_wf_sendbuf[OF wf buf(1)] phy_send_sends[OF hk(1), of "arp_frame sha (dn_mac n) ARP_REPLY ?reply" "n\<lparr>sendbuf := buf\<rparr>"]
    by (simp add: p_def)
qed

theorem arp_request_answered_witness:
  "\<exists>n'. ducknet_packet_handle quiet_hooks (arp_frame ducknet_ether_broadcast_addr (replicate 6 3) ARP_REQUEST
      (arp_payload (replicate 6 3) 10 (replicate 6 0) (dn_ip (host 1 (replicate 6 2)))) @ []) 42 (host 1 (replicate 6 2)) = Some (0, n') \<and>
    net_wf n' \<and> dn_sent n' = dn_sent (host 1 (replicate 6 2)) @ [arp_frame (replicate 6 3) (dn_mac (host 1 (replicate 6 2))) ARP_REPLY
      (arp_payload (dn_mac (host 1 (replicate 6 2))) (dn_ip (host 1 (replicate 6 2))) (replicate 6 3) 10)]"
  by (rule arp_request_answered) (simp_all add: quiet_hooks_facts host_facts)



text \<open>C19: On a sorted table the neighbour cache behaves as a finite map: updating an address that is not above all
  known ones stores the new entry, and a lookup returns it for this address and the previous answer for every other.\<close>

theorem arp_cache_is_map:
  assumes "net_wf n" "arp_sorted n" "arp_fits ip n" "length mac = 6"
  shows "\<exists>n'. ducknet_arp_update ip mac n = Some (0, n') \<and> net_wf n' \<and> arp_sorted n' \<and>
    (\<forall>j. ducknet_arp_lookup j n' = (if j = ip then Some (Some mac) else ducknet_arp_lookup j n))"
  using arp.update_lookup[of n ip mac] assms by blast

theorem arp_cache_is_map_witness:
  "\<exists>n'. ducknet_arp_update 10 (replicate 6 2) (host 1 (replicate 6 3)) = Some (0, n') \<and> net_wf n' \<and> arp_sorted n' \<and>
    (\<forall>j. ducknet_arp_lookup j n' = (if j = 10 then Some (Some (replicate 6 2)) else ducknet_arp_lookup j (host 1 (replicate 6 3))))"
  by (rule arp_cache_is_map) (simp_all add: host_facts host_fits)

text \<open>C20: The restriction is needed: in an empty cache, learning an address and then a larger one makes the
  first unknown again, because the larger one is inserted in front of it.\<close>

theorem arp_update_loses_entry:
  assumes "net_wf n" "n_arp_entries n = 0" "a < b" "length m = 6" "length m' = 6"
  shows "\<exists>n1 n2. ducknet_arp_update a m n = Some (0, n1) \<and> ducknet_arp_lookup a n1 = Some (Some m) \<and>
    ducknet_arp_update b m' n1 = Some (0, n2) \<and> ducknet_arp_lookup a n2 = Some None"
proof -
  obtain t1 where t1: "ducknet_time_add_ms (dn_tsc_freq n) (currenttime n) ARP_EXPIRE_TIMEOUT_MS = Some t1" using time_add_ms_Some by blast
  have len: "length (arp_table n) = 100" using assms(1) by (simp add: net_wf_def ARP_TABLE_SIZE_def)
  then have "2 \<le> length (arp_table n)" by simp
  then obtain e0 e1 r where tab: "arp_table n = e0 # e1 # r" by (auto simp: numeral_2_eq_2 Suc_le_length_iff)
  let ?ea = "\<lparr>ae_ip = a, ae_mac = m, ae_expire = t1\<rparr>" and ?eb = "\<lparr>ae_ip = b, ae_mac = m', ae_expire = t1\<rparr>"
  let ?n1 = "n\<lparr>arp_table := ?ea # e1 # r, n_arp_entries := 1\<rparr>"
  let ?n2 = "n\<lparr>arp_table := ?eb # ?ea # r, n_arp_entries := 2\<rparr>"
  have lb: "lower_bound ks x 0 (- 1) = Some 0" "lower_bound ks x 0 0 = Some 0" for ks x by (subst lower_bound.simps, simp)+
  have lb2: "lower_bound (b # a # ks) a 0 1 = Some 0" for ks
    using assms(3) by (subst lower_bound.simps) (auto simp: rd_int_def rd_def lb)
  have u1: "ducknet_arp_update a m n = Some (0, ?n1)"
    using assms(2) t1 by (simp add: ducknet_arp_update_def tab lb arp_miss_def rd_range_def wr_range_def wr_def ARP_TABLE_SIZE_def)
  have u2: "ducknet_arp_update b m' ?n1 = Some (0, ?n2)"
    using assms(3) t1 len by (simp add: ducknet_arp_update_def lb arp_miss_def rd_int_def rd_def rd_range_def wr_range_def wr_def ARP_TABLE_SIZE_def tab blit_def)
  have "ducknet_arp_lookup a ?n1 = Some (Some m)" "ducknet_arp_lookup a ?n2 = Some None"
    using assms(3) by (simp_all add: ducknet_arp_lookup_def lb lb2 arp_miss_def rd_int_def rd_def)
  with u1 u2 show ?thesis by blast
qed

theorem arp_update_loses_entry_witness:
  "\<exists>n1 n2. ducknet_arp_update 10 (replicate 6 2) (host 1 (replicate 6 3)) = Some (0, n1) \<and> ducknet_arp_lookup 10 n1 = Some (Some (replicate 6 2)) \<and>
    ducknet_arp_update 20 (replicate 6 4) n1 = Some (0, n2) \<and> ducknet_arp_lookup 10 n2 = Some None"
proof (rule arp_update_loses_entry)
  have "known (host 1 (replicate 6 3)) = []" "length (arp_table (host 1 (replicate 6 3))) = 100"
    using host_facts(1,7)[of "replicate 6 3" 1] by (auto simp: neighbours_def net_wf_def ARP_TABLE_SIZE_def dest: arg_cong[where f = dom])
  then show "n_arp_entries (host 1 (replicate 6 3)) = 0" by (auto simp: known_def)
qed (simp_all add: host_facts)

section \<open>Addresses as text\<close>

lemma of_char_digit: "d < 10 \<Longrightarrow> (of_char (char_of (48 + d)) :: u8) = of_nat (48 + d)"
proof -
  assume "d < 10"
  then have "of_char (char_of (48 + d)) = (48 + d :: nat)" by simp
  then show ?thesis by (metis of_nat_of_char)
qed

lemma bytes_dec_nat: "bytes_of_string (dec_nat n) = map (\<lambda>d. of_nat (48 + d)) (dec_digits n)"
  using dec_digits_lt_10[of _ n] of_char_digit by (simp add: bytes_of_string_def dec_nat_def)

lemma unat_digit: "d < 10 \<Longrightarrow> unat (of_nat (48 + d) :: u8) = 48 + d"
  by (rule unat_of_nat_lt) simp

lemma foldl_dec_ge: "v \<le> foldl (\<lambda>a d. 10 * a + d) v (ds :: nat list)"
proof (induction ds arbitrary: v)
  case (Cons d ds)
  have "v \<le> 10 * v + d" by simp
  also have "\<dots> \<le> foldl (\<lambda>a d. 10 * a + d) (10 * v + d) ds" by (rule Cons.IH)
  finally show ?case by simp
qed simp

lemma parse_digits:
  assumes "idx < length a" "\<forall>d \<in> set ds. d < 10" "foldl (\<lambda>a d. 10 * a + d) (unat (a ! idx)) ds \<le> 255"
  shows "parse_ipv4_loop (map (\<lambda>d. of_nat (48 + d)) ds @ cs) a idx has_num =
    parse_ipv4_loop cs (a[idx := of_nat (foldl (\<lambda>a d. 10 * a + d) (unat (a ! idx)) ds)]) idx (has_num \<or> ds \<noteq> [])"
  using assms
proof (induction ds arbitrary: a has_num)
  case (Cons d ds)
  let ?c = "of_nat (48 + d) :: u8" and ?x = "a ! idx"
  have d: "d < 10" using Cons.prems(2) by simp
  then have c: "unat ?c = 48 + d" by (rule unat_digit)
  have le: "10 * unat ?x + d \<le> 255" using foldl_dec_ge[of "10 * unat ?x + d" ds] Cons.prems(3) by simp
  have not_dot: "?c \<noteq> 46" "\<not> (?c < 48 \<or> 57 < ?c)" using c d unfolding word_unat_eq_iff word_less_nat_alt by simp_all
  have v: "?x * 10 + ?c - 48 = of_nat (10 * unat ?x + d)" by (simp add: algebra_simps)
  then have uv: "unat (?x * 10 + ?c - 48) = 10 * unat ?x + d" using le unat_of_nat_lt[of "10 * unat ?x + d", where 'a = 8] by (simp only: v) simp
  have "parse_ipv4_loop (map (\<lambda>d. of_nat (48 + d)) (d # ds) @ cs) a idx has_num =
      parse_ipv4_loop (map (\<lambda>d. of_nat (48 + d)) ds @ cs) (a[idx := ?x * 10 + ?c - 48]) idx True"
    using Cons.prems(1) not_dot le c by (simp add: opt_simps mult.commute del: of_nat_add)
  also have "\<dots> = parse_ipv4_loop cs (a[idx := of_nat (foldl (\<lambda>a d. 10 * a + d) (10 * unat ?x + d) ds)]) idx True"
    using Cons.IH[of "a[idx := ?x * 10 + ?c - 48]" True] Cons.prems uv by simp
  finally show ?case by simp
qed simp


lemma parse_dec:
  assumes "idx < length a" "a ! idx = 0"
  shows "parse_ipv4_loop (bytes_of_string (dec_nat (unat (x :: u8))) @ cs) a idx has_num = parse_ipv4_loop cs (a[idx := x]) idx True"
proof -
  have "foldl (\<lambda>a d. 10 * a + d) 0 (dec_digits (unat x)) = unat x"
    using dec_value_dec_digits[of "unat x"] by (simp add: dec_value_def)
  moreover have "unat x < 256" using unsigned_less[of x, where 'a = nat] by simp
  ultimately show ?thesis
    using parse_digits[OF assms(1), of "dec_digits (unat x)" cs has_num] dec_digits_lt_10 assms(2) by (auto simp: bytes_dec_nat)
qed

lemma dec_nat_no_dot: "filter (\<lambda>c. c = (46 :: u8)) (bytes_of_string (dec_nat n)) = []"
proof -
  have "of_nat (48 + d) \<noteq> (46 :: u8)" if "d \<in> set (dec_digits n)" for d
    using unat_digit[OF dec_digits_lt_10[OF that]] by (auto simp: word_unat_eq_iff)
  then show ?thesis by (auto simp: bytes_dec_nat filter_empty_conv)
qed

text \<open>C21: Parsing the dotted decimal form of an address returns the address.\<close>

theorem parse_ipv4_prints:
  "ducknet_parse_ipv4 (bytes_of_string (dec_nat (unat a) @ ''.'' @ dec_nat (unat b) @ ''.'' @ dec_nat (unat c) @ ''.'' @ dec_nat (unat d))) =
    Some (Some (le32 d c b a))"
proof -
  have dot: "bytes_of_string ''.'' = [46]" by (simp add: bytes_of_string_def of_char_def)
  let ?s = "\<lambda>x :: u8. bytes_of_string (dec_nat (unat x))"
  have str: "bytes_of_string (dec_nat (unat a) @ ''.'' @ dec_nat (unat b) @ ''.'' @ dec_nat (unat c) @ ''.'' @ dec_nat (unat d)) =
      ?s a @ 46 # ?s b @ 46 # ?s c @ 46 # ?s d"
    unfolding bytes_of_string_append dot by simp
  have "parse_ipv4_loop (?s d) [a, b, c, 0] 3 False = Some (Some [a, b, c, d])"
    using parse_dec[of 3 "[a, b, c, 0]" d "[]" False] by simp
  then show ?thesis unfolding str ducknet_parse_ipv4_def
    by (simp add: dec_nat_no_dot parse_dec numeral_2_eq_2 numeral_3_eq_3)
qed

end
