(* ===== verification/Page_Memory.thy ===== *)
theory Page_Memory
  imports Kern_Timer
begin

text \<open>
  The memory manager, \<open>lib/memory.cpp\<close>: the map of available huge pages, the page tables built at boot,
  the operations on first-level entries, and the virtual memory above the kernel.

  Physical memory is a function from addresses to 64-bit cells. While the tables are built they are
  written through the window at \<open>-1024 GiB\<close> that shows physical memory one to one. Afterwards entries are
  reached through the recursive mapping: a virtual address whose translation by the processor, \<open>translate\<close>
  below, ends in a page table. An access to an address that is not mapped is a fault.
\<close>

section \<open>Constants\<close>

definition PAGE_SIZE :: u64 where "PAGE_SIZE = 4096"
definition HUGE_PAGE_SIZE :: u64 where "HUGE_PAGE_SIZE = 2097152"
definition P3_PAGE_SIZE :: u64 where "P3_PAGE_SIZE = push_bit 30 1"
definition MAX_MEMORY_SIZE :: u64 where "MAX_MEMORY_SIZE = push_bit 30 511"
definition MAX_N_HUGE_PAGES :: nat where "MAX_N_HUGE_PAGES = 261632"
definition kernel_break :: u64 where "kernel_break = push_bit 20 16"
definition PTE_PRESENT :: u64 where "PTE_PRESENT = push_bit 0 1"
definition PTE_WRITABLE :: u64 where "PTE_WRITABLE = push_bit 1 1"
definition PTE_USER :: u64 where "PTE_USER = push_bit 2 1"
definition PTE_WRITE_THROUGH :: u64 where "PTE_WRITE_THROUGH = push_bit 3 1"
definition PTE_CACHE_DISABLE :: u64 where "PTE_CACHE_DISABLE = push_bit 4 1"
definition PTE_ACCESSED :: u64 where "PTE_ACCESSED = push_bit 5 1"
definition PTE_DIRTY :: u64 where "PTE_DIRTY = push_bit 6 1"
definition PTE_HUGE :: u64 where "PTE_HUGE = push_bit 7 1"
definition PTE_NO_EXECUTE :: u64 where "PTE_NO_EXECUTE = push_bit 63 1"
definition PTE_DUCK_WRITTEN :: u64 where "PTE_DUCK_WRITTEN = push_bit 9 1"

definition clear_page_flags :: "u64 \<Rightarrow> u64" where
  "clear_page_flags a = push_bit 9 (drop_bit 10 (push_bit 1 a))"

section \<open>State\<close>

record PM =
  huge_page_map :: "nat \<Rightarrow> bool"
  n_huge_pages :: u64
  next_page_table_address :: u64
  page_table_break :: u64
  vaddr_break :: u64
  phys :: "u64 \<Rightarrow> u64"
  cr3 :: u64

definition zero_PM :: PM where
  "zero_PM = \<lparr>huge_page_map = (\<lambda>_. False), n_huge_pages = 0, next_page_table_address = kernel_break,
     page_table_break = 0, vaddr_break = 0, phys = (\<lambda>_. 0), cr3 = 0\<rparr>"

definition huge_page_at :: "PM \<Rightarrow> nat \<Rightarrow> bool option" where
  "huge_page_at m i = (if i < MAX_N_HUGE_PAGES then Some (huge_page_map m i) else None)"

definition register_available_huge_page :: "u64 \<Rightarrow> PM \<Rightarrow> PM option" where
  "register_available_huge_page addr m = do {
     c_assert (addr mod HUGE_PAGE_SIZE = 0);
     c_assert (addr < MAX_MEMORY_SIZE);
     if addr < kernel_break then Some m
     else do {
       let page_num = unat (ucast (addr div HUGE_PAGE_SIZE) :: u32);
       h \<leftarrow> huge_page_at m page_num;
       Some (if h then m
         else m\<lparr>huge_page_map := (huge_page_map m)(page_num := True), n_huge_pages := n_huge_pages m + 1\<rparr>)
     }
   }"

section \<open>Building the page tables\<close>

text \<open>The search for the next available huge page; leaving the array is a fault.\<close>

function next_available :: "PM \<Rightarrow> nat \<Rightarrow> nat option" where
  "next_available m i = (if i < MAX_N_HUGE_PAGES then if huge_page_map m i then Some i else next_available m (i + 1) else None)"
  by pat_completeness auto
termination by (relation "measure (\<lambda>(m, i). MAX_N_HUGE_PAGES - i)") auto

declare next_available.simps [simp del]

definition page_table_alloc :: "PM \<Rightarrow> (u64 \<times> PM) option" where
  "page_table_alloc m = do {
     let a = next_page_table_address m;
     i \<leftarrow> next_available m (unat (a div HUGE_PAGE_SIZE));
     let ret = a + of_nat (i - unat (a div HUGE_PAGE_SIZE)) * HUGE_PAGE_SIZE;
     c_assert (ret + PAGE_SIZE \<le> page_table_break m);
     Some (ret, m\<lparr>next_page_table_address := ret + PAGE_SIZE\<rparr>)
   }"

definition zero_page :: "u64 \<Rightarrow> (u64 \<Rightarrow> u64) \<Rightarrow> u64 \<Rightarrow> u64" where
  "zero_page p f = (\<lambda>a. if unat (a - p) < unat PAGE_SIZE then 0 else f a)"

definition page_table_alloc_zeroed :: "PM \<Rightarrow> (u64 \<times> PM) option" where
  "page_table_alloc_zeroed m = do {
     (ret, m) \<leftarrow> page_table_alloc m;
     Some (ret, m\<lparr>phys := zero_page ret (phys m)\<rparr>)
   }"

definition PTE_addr :: "u64 \<Rightarrow> u64 \<Rightarrow> u64" where
  "PTE_addr table index = table OR (index * 8)"

definition set_PTE :: "u64 \<Rightarrow> u64 \<Rightarrow> u64 \<Rightarrow> PM \<Rightarrow> PM" where
  "set_PTE table index v m = m\<lparr>phys := (phys m)(PTE_addr table index := v)\<rparr>"

definition get_PTE :: "u64 \<Rightarrow> u64 \<Rightarrow> PM \<Rightarrow> u64" where
  "get_PTE table index m = phys m (PTE_addr table index)"

definition PTE_create :: "u64 \<Rightarrow> u64 \<Rightarrow> u64 \<Rightarrow> PM \<Rightarrow> (u64 \<times> PM) option" where
  "PTE_create table index flags m = do {
     let e = get_PTE table index m;
     if e = 0 then do {
       (p, m) \<leftarrow> page_table_alloc_zeroed m;
       Some (p OR flags, set_PTE table index (p OR flags) m)
     } else Some (e, m)
   }"

definition P4_index :: "u64 \<Rightarrow> u64" where "P4_index vaddr = drop_bit 39 vaddr AND (PAGE_SIZE div 8 - 1)"
definition P3_index :: "u64 \<Rightarrow> u64" where "P3_index vaddr = drop_bit 30 vaddr AND (PAGE_SIZE div 8 - 1)"
definition P2_index :: "u64 \<Rightarrow> u64" where "P2_index vaddr = drop_bit 21 vaddr AND (PAGE_SIZE div 8 - 1)"
definition P1_index :: "u64 \<Rightarrow> u64" where "P1_index vaddr = drop_bit 12 vaddr AND (PAGE_SIZE div 8 - 1)"

text \<open>The loop that accumulates huge pages until the tables fit.\<close>

primrec break_loop :: "nat list \<Rightarrow> u64 \<Rightarrow> u64 \<Rightarrow> PM \<Rightarrow> PM option" where
  "break_loop [] sz cur m = Some m"
| "break_loop (i # is) sz cur m = do {
     h \<leftarrow> huge_page_at m i;
     if \<not> h then break_loop is sz cur m
     else if cur + HUGE_PAGE_SIZE \<ge> sz then Some (m\<lparr>page_table_break := (of_nat i + 1) * HUGE_PAGE_SIZE\<rparr>)
     else break_loop is sz (cur + HUGE_PAGE_SIZE) m
   }"

definition init_page_table_break :: "PM \<Rightarrow> PM option" where
  "init_page_table_break m = do {
     let sz = PAGE_SIZE * 4;
     let sz = sz + n_huge_pages m * PAGE_SIZE;
     let sz = sz + round_up (n_huge_pages m * 8) PAGE_SIZE;
     let sz = sz + PAGE_SIZE * 2;
     let sz = round_up sz HUGE_PAGE_SIZE;
     break_loop [0..<unat (n_huge_pages m)] sz 0 m
   }"

definition table_flags :: u64 where
  "table_flags = PTE_PRESENT OR PTE_WRITABLE OR PTE_DIRTY OR PTE_ACCESSED"

text \<open>The 512 entries of a table, written one after the other.\<close>

definition fill_table :: "u64 \<Rightarrow> (nat \<Rightarrow> u64) \<Rightarrow> PM \<Rightarrow> PM" where
  "fill_table table f m = fold (\<lambda>j. set_PTE table (of_nat j) (f j)) [0..<512] m"

definition init_empty_kernel_page_table :: "PM \<Rightarrow> (u64 \<times> PM) option" where
  "init_empty_kernel_page_table m = do {
     (P4, m) \<leftarrow> page_table_alloc_zeroed m;
     (P3_high, m) \<leftarrow> page_table_alloc_zeroed m;
     (P3_low, m) \<leftarrow> page_table_alloc_zeroed m;
     (P2_low, m) \<leftarrow> page_table_alloc_zeroed m;
     let m = set_PTE P4 511 (P4 OR table_flags) m;
     let m = set_PTE P4 510 (P3_high OR table_flags) m;
     let m = fill_table P3_high (\<lambda>i. (of_nat i * P3_PAGE_SIZE) OR table_flags OR PTE_HUGE) m;
     let m = set_PTE P4 0 (P3_low OR table_flags OR PTE_USER) m;
     let m = set_PTE P3_low 0 (P2_low OR table_flags OR PTE_USER) m;
     m \<leftarrow> for_opt (\<lambda>i m. do {
         (P1, m) \<leftarrow> page_table_alloc_zeroed m;
         let m = set_PTE P2_low (of_nat i) (P1 OR table_flags) m;
         Some (fill_table P1 (\<lambda>j. (of_nat i * HUGE_PAGE_SIZE + of_nat j * PAGE_SIZE) OR table_flags) m)
       }) [0..<unat (kernel_break div HUGE_PAGE_SIZE)] m;
     Some (P4, m)
   }"

definition user_flags :: u64 where
  "user_flags = PTE_PRESENT OR PTE_WRITABLE OR PTE_USER OR PTE_ACCESSED OR PTE_DIRTY"

text \<open>One available huge page is mapped at \<open>vaddr\<close>.\<close>

definition map_huge_page :: "u64 \<Rightarrow> nat \<Rightarrow> u64 \<times> PM \<Rightarrow> (u64 \<times> PM) option" where
  "map_huge_page P4 i = (\<lambda>(vaddr, m). do {
     h \<leftarrow> huge_page_at m i;
     if \<not> h then Some (vaddr, m)
     else do {
       let paddr = of_nat i * HUGE_PAGE_SIZE;
       (e, m) \<leftarrow> PTE_create P4 (P4_index vaddr) user_flags m;
       let P3 = clear_page_flags e;
       (e, m) \<leftarrow> PTE_create P3 (P3_index vaddr) user_flags m;
       let P2 = clear_page_flags e;
       (e, m) \<leftarrow> PTE_create P2 (P2_index vaddr) user_flags m;
       let P1 = clear_page_flags e;
       let m = fill_table P1 (\<lambda>j. ((paddr + of_nat j * PAGE_SIZE) OR user_flags) AND NOT PTE_USER OR PTE_DUCK_WRITTEN) m;
       Some (vaddr + HUGE_PAGE_SIZE, m)
     }
   })"

definition init_page_table_4k :: "PM \<Rightarrow> (u64 \<times> PM) option" where
  "init_page_table_4k m = do {
     (P4, m) \<leftarrow> init_empty_kernel_page_table m;
     (vaddr, m) \<leftarrow> for_opt (map_huge_page P4) [unat (page_table_break m div HUGE_PAGE_SIZE)..<MAX_N_HUGE_PAGES] (kernel_break, m);
     Some (P4, m\<lparr>vaddr_break := vaddr\<rparr>)
   }"

definition init_page_tables :: "PM \<Rightarrow> PM option" where
  "init_page_tables m = do {
     m \<leftarrow> init_page_table_break m;
     (P4, m) \<leftarrow> init_page_table_4k m;
     Some (m\<lparr>cr3 := P4\<rparr>)
   }"

text \<open>\<open>ebss\<close> is the end of the kernel image, known to the linker.\<close>

definition memory_init :: "u64 \<Rightarrow> PM \<Rightarrow> PM option" where
  "memory_init ebss m = do { c_assert (ebss \<le> kernel_break); init_page_tables m }"

section \<open>Address translation\<close>

definition pte_base :: "u64 \<Rightarrow> u64" where
  "pte_base e = e AND push_bit 12 (mask 40)"

definition pte_present :: "u64 \<Rightarrow> bool" where "pte_present e = bit e 0"
definition pte_huge :: "u64 \<Rightarrow> bool" where "pte_huge e = bit e 7"

text \<open>The processor's walk of four levels, with pages of 1 GiB and 2 MiB.\<close>

definition translate :: "PM \<Rightarrow> u64 \<Rightarrow> u64 option" where
  "translate m v = (
     let e4 = get_PTE (pte_base (cr3 m)) (P4_index v) m in
     if \<not> pte_present e4 then None
     else let e3 = get_PTE (pte_base e4) (P3_index v) m in
     if \<not> pte_present e3 then None
     else if pte_huge e3 then Some ((pte_base e3 AND NOT (mask 30)) OR (v AND mask 30))
     else let e2 = get_PTE (pte_base e3) (P2_index v) m in
     if \<not> pte_present e2 then None
     else if pte_huge e2 then Some ((pte_base e2 AND NOT (mask 21)) OR (v AND mask 21))
     else let e1 = get_PTE (pte_base e2) (P1_index v) m in
     if \<not> pte_present e1 then None
     else Some (pte_base e1 OR (v AND mask 12)))"

definition P1_vaddr :: "u64 \<Rightarrow> u64" where
  "P1_vaddr vaddr = (drop_bit 9 vaddr AND (- 8)) OR (- push_bit 39 1)"

definition P2_vaddr :: "u64 \<Rightarrow> u64" where
  "P2_vaddr vaddr = (drop_bit 18 vaddr AND (- 8)) OR (- push_bit 30 1)"

definition P3_vaddr :: "u64 \<Rightarrow> u64" where
  "P3_vaddr vaddr = (drop_bit 27 vaddr AND (- 8)) OR (- push_bit 21 1)"

definition P4_vaddr :: "u64 \<Rightarrow> u64" where
  "P4_vaddr vaddr = (drop_bit 36 vaddr AND (- 8)) OR (- push_bit 12 1)"

definition get_P1 :: "u64 \<Rightarrow> PM \<Rightarrow> u64 option" where
  "get_P1 vaddr m = do { a \<leftarrow> translate m (P1_vaddr vaddr); Some (phys m a) }"

definition set_P1 :: "u64 \<Rightarrow> u64 \<Rightarrow> PM \<Rightarrow> PM option" where
  "set_P1 vaddr v m = do { a \<leftarrow> translate m (P1_vaddr vaddr); Some (m\<lparr>phys := (phys m)(a := v)\<rparr>) }"

section \<open>Operations on page ranges\<close>

text \<open>The loop of all range operations: it runs until \<open>start\<close> meets \<open>end\<close> in 64-bit arithmetic.\<close>

partial_function (option) page_loop :: "(u64 \<Rightarrow> 's \<Rightarrow> 's option) \<Rightarrow> u64 \<Rightarrow> u64 \<Rightarrow> 's \<Rightarrow> 's option" where
  "page_loop f start fin s = (if start = fin then Some s else do { s \<leftarrow> f start s; page_loop f (start + PAGE_SIZE) fin s })"

definition page_range :: "(u64 \<Rightarrow> 's \<Rightarrow> 's option) \<Rightarrow> u64 \<Rightarrow> u64 \<Rightarrow> 's \<Rightarrow> 's option" where
  "page_range f start fin s = do {
     c_assert (start mod PAGE_SIZE = 0);
     c_assert (fin mod PAGE_SIZE = 0);
     page_loop f start fin s
   }"

definition update_P1 :: "(u64 \<Rightarrow> u64) \<Rightarrow> u64 \<Rightarrow> PM \<Rightarrow> PM option" where
  "update_P1 g v m = do { e \<leftarrow> get_P1 v m; set_P1 v (g e) m }"

definition set_page_flags_user_writable :: "u64 \<Rightarrow> u64 \<Rightarrow> PM \<Rightarrow> PM option" where
  "set_page_flags_user_writable = page_range (update_P1 (\<lambda>e. clear_page_flags e OR PTE_PRESENT OR PTE_USER OR PTE_WRITABLE OR PTE_NO_EXECUTE))"

definition set_page_flags_user_readonly :: "u64 \<Rightarrow> u64 \<Rightarrow> PM \<Rightarrow> PM option" where
  "set_page_flags_user_readonly = page_range (update_P1 (\<lambda>e. clear_page_flags e OR PTE_PRESENT OR PTE_USER OR PTE_NO_EXECUTE))"

definition set_page_flags_user_executable :: "u64 \<Rightarrow> u64 \<Rightarrow> PM \<Rightarrow> PM option" where
  "set_page_flags_user_executable = page_range (update_P1 (\<lambda>e. clear_page_flags e OR PTE_PRESENT OR PTE_USER))"

definition set_page_flags_kernel :: "u64 \<Rightarrow> u64 \<Rightarrow> PM \<Rightarrow> PM option" where
  "set_page_flags_kernel = page_range (update_P1 (\<lambda>e. clear_page_flags e OR PTE_PRESENT OR PTE_WRITABLE))"

definition add_page_flags_writable :: "u64 \<Rightarrow> u64 \<Rightarrow> PM \<Rightarrow> PM option" where
  "add_page_flags_writable = page_range (update_P1 (\<lambda>e. e OR PTE_WRITABLE))"

definition add_page_flags_executable :: "u64 \<Rightarrow> u64 \<Rightarrow> PM \<Rightarrow> PM option" where
  "add_page_flags_executable = page_range (update_P1 (\<lambda>e. e AND NOT PTE_NO_EXECUTE))"

definition clear_access_and_dirty_flags :: "u64 \<Rightarrow> u64 \<Rightarrow> PM \<Rightarrow> PM option" where
  "clear_access_and_dirty_flags = page_range (update_P1 (\<lambda>e. e AND NOT (PTE_ACCESSED OR PTE_DIRTY)))"

definition set_duck_written_by_dirty :: "u64 \<Rightarrow> u64 \<Rightarrow> PM \<Rightarrow> PM option" where
  "set_duck_written_by_dirty = page_range (update_P1 (\<lambda>e. e OR (if e AND PTE_DIRTY \<noteq> 0 then PTE_DUCK_WRITTEN else 0)))"

definition set_duck_written :: "u64 \<Rightarrow> u64 \<Rightarrow> PM \<Rightarrow> PM option" where
  "set_duck_written = page_range (update_P1 (\<lambda>e. e OR PTE_DUCK_WRITTEN))"

definition count_pages :: "u64 \<Rightarrow> u64 \<Rightarrow> u64 \<Rightarrow> PM \<Rightarrow> u64 option" where
  "count_pages flag start fin m = page_range (\<lambda>v ret. do { e \<leftarrow> get_P1 v m; Some (ret + (if e AND flag \<noteq> 0 then 1 else 0)) }) start fin 0"

definition count_dirty_pages :: "u64 \<Rightarrow> u64 \<Rightarrow> PM \<Rightarrow> u64 option" where
  "count_dirty_pages = count_pages PTE_DIRTY"

definition count_accessed_pages :: "u64 \<Rightarrow> u64 \<Rightarrow> PM \<Rightarrow> u64 option" where
  "count_accessed_pages = count_pages PTE_ACCESSED"

text \<open>Zeroing the page at a virtual address, cell by cell of its physical page.\<close>

definition zero_vpage :: "u64 \<Rightarrow> PM \<Rightarrow> PM option" where
  "zero_vpage v m = do { p \<leftarrow> translate m v; Some (m\<lparr>phys := zero_page p (phys m)\<rparr>) }"

definition clear_duck_written_pages :: "u64 \<Rightarrow> u64 \<Rightarrow> PM \<Rightarrow> PM option" where
  "clear_duck_written_pages = page_range (\<lambda>v m. do {
     e \<leftarrow> get_P1 v m;
     if e AND PTE_DUCK_WRITTEN \<noteq> 0 then do {
       m \<leftarrow> zero_vpage v m;
       update_P1 (\<lambda>e. e AND NOT (PTE_DIRTY OR PTE_DUCK_WRITTEN)) v m
     } else Some m
   })"

definition map_region_cache_disabled :: "u64 \<Rightarrow> u64 \<Rightarrow> u64 \<Rightarrow> PM \<Rightarrow> PM option" where
  "map_region_cache_disabled start fin src_addr m = do {
     c_assert (start mod PAGE_SIZE = 0);
     c_assert (fin mod PAGE_SIZE = 0);
     c_assert (src_addr mod PAGE_SIZE = 0);
     (_, m) \<leftarrow> page_loop (\<lambda>v (src, m). do {
         m \<leftarrow> set_P1 v (src OR PTE_PRESENT OR PTE_WRITABLE OR PTE_CACHE_DISABLE OR PTE_WRITE_THROUGH) m;
         Some (src + PAGE_SIZE, m)
       }) start fin (src_addr, m);
     Some m
   }"

section \<open>Virtual memory\<close>

definition get_kernel_break :: u64 where "get_kernel_break = kernel_break"

definition get_vaddr_break :: "PM \<Rightarrow> u64" where "get_vaddr_break m = vaddr_break m"

text \<open>A null pointer is \<^term>\<open>0\<close>.\<close>

definition allocate_virtual_memory :: "u64 \<Rightarrow> PM \<Rightarrow> u64 \<times> PM" where
  "allocate_virtual_memory sz m = (let sz = round_up sz HUGE_PAGE_SIZE in
     if vaddr_break m - kernel_break < sz then (0, m)
     else let m = m\<lparr>vaddr_break := vaddr_break m - sz\<rparr> in (vaddr_break m, m))"

definition can_allocate_virtual_memory :: "u64 \<Rightarrow> PM \<Rightarrow> bool" where
  "can_allocate_virtual_memory sz m = (let sz = round_up sz HUGE_PAGE_SIZE in vaddr_break m - kernel_break \<ge> sz)"

definition user_writable_check :: "u64 \<Rightarrow> PM \<Rightarrow> bool option" where
  "user_writable_check addr m =
     (if addr < kernel_break then Some False
      else if addr \<ge> vaddr_break m then Some False
      else do {
        let flags = PTE_USER OR PTE_WRITABLE;
        e \<leftarrow> get_P1 addr m;
        Some (e AND flags = flags)
      })"

section \<open>The recursive mapping\<close>

lemma index_take_bit:
  "P4_index v = take_bit 9 (drop_bit 39 v)" "P3_index v = take_bit 9 (drop_bit 30 v)"
  "P2_index v = take_bit 9 (drop_bit 21 v)" "P1_index v = take_bit 9 (drop_bit 12 v)"
proof -
  have "PAGE_SIZE div 8 - 1 = mask 9" by (simp add: PAGE_SIZE_def mask_eq_exp_minus_1)
  then show "P4_index v = take_bit 9 (drop_bit 39 v)" "P3_index v = take_bit 9 (drop_bit 30 v)"
    "P2_index v = take_bit 9 (drop_bit 21 v)" "P1_index v = take_bit 9 (drop_bit 12 v)"
    by (simp_all only: P4_index_def P3_index_def P2_index_def P1_index_def take_bit_eq_mask)
qed

lemma P1_vaddr_bits: "P1_vaddr v = (drop_bit 9 v AND NOT (mask 3)) OR NOT (mask 39)"
proof -
  have "(- 8 :: u64) = NOT (mask 3)" "(- push_bit 39 1 :: u64) = NOT (mask 39)"
    by (simp_all add: mask_eq_exp_minus_1 not_eq_complement push_bit_of_1)
  then show ?thesis by (simp only: P1_vaddr_def)
qed

lemma P1_vaddr_index:
  "P4_index (P1_vaddr v) = 511" "P3_index (P1_vaddr v) = P4_index v" "P2_index (P1_vaddr v) = P3_index v"
  "P1_index (P1_vaddr v) = P2_index v" "P1_vaddr v AND mask 12 = P1_index v * 8"
proof -
  have "P4_index (P1_vaddr v) = mask 9"
    by (simp only: index_take_bit P1_vaddr_bits) (auto simp: bit_simps intro!: bit_word_eqI)
  then show "P4_index (P1_vaddr v) = 511" by (simp add: mask_eq_exp_minus_1)
  have "P1_index v * 8 = push_bit 3 (P1_index v)" by (simp add: push_bit_eq_mult)
  then show "P1_vaddr v AND mask 12 = P1_index v * 8"
    by (simp only: index_take_bit P1_vaddr_bits) (auto simp: bit_simps less_diff_conv2 intro!: bit_word_eqI)
qed (auto simp: index_take_bit P1_vaddr_bits bit_simps intro!: bit_word_eqI)

text \<open>The address of the first-level entry that the processor uses for \<open>v\<close>.\<close>

definition leaf :: "PM \<Rightarrow> u64 \<Rightarrow> u64 option" where
  "leaf m v = (
     let e4 = get_PTE (pte_base (cr3 m)) (P4_index v) m;
         e3 = get_PTE (pte_base e4) (P3_index v) m;
         e2 = get_PTE (pte_base e3) (P2_index v) m in
     if pte_present e4 \<and> \<not> pte_huge e4 \<and> pte_present e3 \<and> \<not> pte_huge e3 \<and> pte_present e2 \<and> \<not> pte_huge e2
     then Some (PTE_addr (pte_base e2) (P1_index v)) else None)"

text \<open>The last entry of the top-level table points to the table itself.\<close>

definition recursive :: "PM \<Rightarrow> bool" where
  "recursive m \<longleftrightarrow> (let e = get_PTE (pte_base (cr3 m)) 511 m in pte_present e \<and> pte_base e = pte_base (cr3 m))"

lemma translate_P1_vaddr:
  assumes "recursive m" "leaf m v = Some a"
  shows "translate m (P1_vaddr v) = Some a"
  using assms by (auto simp: translate_def leaf_def recursive_def Let_def P1_vaddr_index PTE_addr_def split: if_splits)

lemma translate_leaf:
  assumes "leaf m v = Some a"
  shows "translate m v = (if pte_present (phys m a) then Some (pte_base (phys m a) OR (v AND mask 12)) else None)"
  using assms by (auto simp: translate_def leaf_def Let_def get_PTE_def split: if_splits)

section \<open>Cells reached through an interface\<close>

text \<open>
  What the range operations need of page table entries: on a set of addresses, an entry can be read and
  written, a write changes this entry and no other one of the set.
\<close>

locale cells =
  fixes inv :: "'m \<Rightarrow> bool" and area :: "'v set" and get :: "'v \<Rightarrow> 'm \<Rightarrow> 'e option" and set_cell :: "'v \<Rightarrow> 'e \<Rightarrow> 'm \<Rightarrow> 'm option"
  assumes get_total: "inv m \<Longrightarrow> v \<in> area \<Longrightarrow> get v m \<noteq> None"
    and set_total: "inv m \<Longrightarrow> v \<in> area \<Longrightarrow> \<exists>m'. set_cell v e m = Some m' \<and> inv m' \<and>
      (\<forall>w \<in> area. get w m' = (if w = v then Some e else get w m))"
begin

definition update :: "('e \<Rightarrow> 'e) \<Rightarrow> 'v \<Rightarrow> 'm \<Rightarrow> 'm option" where
  "update g v m = do { e \<leftarrow> get v m; set_cell v (g e) m }"

lemma update_all:
  assumes "inv m" "set vs \<subseteq> area" "distinct vs"
  shows "\<exists>m'. for_opt (update g) vs m = Some m' \<and> inv m' \<and>
    (\<forall>w \<in> area. get w m' = (if w \<in> set vs then map_option g (get w m) else get w m))"
  using assms
proof (induction vs arbitrary: m)
  case (Cons v vs)
  obtain e where e: "get v m = Some e" using get_total[of m v] Cons.prems by auto
  obtain m1 where m1: "set_cell v (g e) m = Some m1" "inv m1" "\<forall>w \<in> area. get w m1 = (if w = v then Some (g e) else get w m)"
    using set_total[of m v "g e"] Cons.prems by auto
  obtain m' where "for_opt (update g) vs m1 = Some m' \<and> inv m' \<and> (\<forall>w \<in> area. get w m' = (if w \<in> set vs then map_option g (get w m1) else get w m1))"
    using Cons.IH[OF m1(2)] Cons.prems by auto
  moreover have "update g v m = Some m1" by (simp add: update_def e m1(1))
  ultimately show ?case using m1(3) e Cons.prems by (intro exI[of _ m']) auto
qed simp

lemma count_all:
  fixes P :: "'e \<Rightarrow> bool" and k :: "'w :: len word"
  assumes "inv m" "set vs \<subseteq> area"
  shows "for_opt (\<lambda>v ret. do { e \<leftarrow> get v m; Some (ret + (if P e then 1 else 0)) }) vs k =
    Some (k + of_nat (length (filter (\<lambda>v. \<exists>e. get v m = Some e \<and> P e) vs)))"
  using assms(2)
proof (induction vs arbitrary: k)
  case (Cons v vs)
  obtain e where "get v m = Some e" using get_total[OF assms(1), of v] Cons.prems by auto
  then show ?case using Cons by (simp add: add.assoc)
qed simp

end

section \<open>A window of pages\<close>

definition upper :: "PM \<Rightarrow> u64 \<Rightarrow> u64 set" where
  "upper m v = (
     let e4 = get_PTE (pte_base (cr3 m)) (P4_index v) m;
         e3 = get_PTE (pte_base e4) (P3_index v) m in
     {PTE_addr (pte_base (cr3 m)) (P4_index v), PTE_addr (pte_base e4) (P3_index v), PTE_addr (pte_base e3) (P2_index v),
      PTE_addr (pte_base (cr3 m)) 511})"

text \<open>Every page of the window has a first-level entry of its own, in a table that is not an upper one.\<close>

definition window_ok :: "u64 set \<Rightarrow> PM \<Rightarrow> bool" where
  "window_ok V m \<longleftrightarrow> recursive m \<and>
     (\<forall>v \<in> V. leaf m v \<noteq> None \<and> (\<forall>w \<in> V. the (leaf m v) \<notin> upper m w \<and> (leaf m v = leaf m w \<longrightarrow> v = w)))"

lemma leaf_write:
  assumes "a \<notin> upper m w"
  shows "leaf (m\<lparr>phys := (phys m)(a := x)\<rparr>) w = leaf m w" "upper (m\<lparr>phys := (phys m)(a := x)\<rparr>) w = upper m w"
    "recursive (m\<lparr>phys := (phys m)(a := x)\<rparr>) = recursive m"
proof -
  let ?e4 = "phys m (PTE_addr (pte_base (cr3 m)) (P4_index w))"
  let ?e3 = "phys m (PTE_addr (pte_base ?e4) (P3_index w))"
  have "PTE_addr (pte_base (cr3 m)) (P4_index w) \<noteq> a" "PTE_addr (pte_base ?e4) (P3_index w) \<noteq> a"
    "PTE_addr (pte_base ?e3) (P2_index w) \<noteq> a" "PTE_addr (pte_base (cr3 m)) 511 \<noteq> a"
    using assms by (auto simp: upper_def Let_def get_PTE_def)
  then show "leaf (m\<lparr>phys := (phys m)(a := x)\<rparr>) w = leaf m w" "upper (m\<lparr>phys := (phys m)(a := x)\<rparr>) w = upper m w"
    "recursive (m\<lparr>phys := (phys m)(a := x)\<rparr>) = recursive m"
    by (simp_all add: leaf_def upper_def recursive_def Let_def get_PTE_def)
qed

lemma window_okE:
  assumes "window_ok V m" "v \<in> V"
  obtains a where "leaf m v = Some a" "recursive m" "\<forall>w \<in> V. a \<notin> upper m w" "\<forall>w \<in> V. leaf m w = Some a \<longrightarrow> w = v"
proof -
  obtain a where a: "leaf m v = Some a" using assms by (auto simp: window_ok_def)
  moreover have "\<forall>w \<in> V. a \<notin> upper m w \<and> (Some a = leaf m w \<longrightarrow> v = w)" "recursive m"
    using assms(1) bspec[OF conjunct2[OF assms(1)[unfolded window_ok_def]] assms(2)] a by (simp_all add: window_ok_def)
  ultimately show ?thesis using that by (metis (no_types))
qed

lemma get_P1_leaf: "recursive m \<Longrightarrow> leaf m v = Some a \<Longrightarrow> get_P1 v m = Some (phys m a)"
  by (simp add: get_P1_def translate_P1_vaddr)

interpretation entries: cells "\<lambda>m. window_ok V m \<and> vaddr_break m = b" V get_P1 set_P1
proof unfold_locales
  fix m v assume "window_ok V m \<and> vaddr_break m = b" "v \<in> V"
  then have "window_ok V m" "v \<in> V" by auto
  then obtain a where "leaf m v = Some a" "recursive m" by (rule window_okE)
  then show "get_P1 v m \<noteq> None" by (simp add: get_P1_leaf)
next
  fix m v e assume okb: "window_ok V m \<and> vaddr_break m = b" and v: "v \<in> V"
  then have ok: "window_ok V m" by blast
  note this v
  then obtain a where a: "leaf m v = Some a" and rec: "recursive m"
    and up: "\<forall>w \<in> V. a \<notin> upper m w" and inj: "\<forall>w \<in> V. leaf m w = Some a \<longrightarrow> w = v" by (rule window_okE)
  let ?m = "m\<lparr>phys := (phys m)(a := e)\<rparr>"
  have keep: "leaf ?m w = leaf m w" "upper ?m w = upper m w" if "w \<in> V" for w using leaf_write[OF bspec[OF up that]] by auto
  have rec': "recursive ?m" using leaf_write(3)[OF bspec[OF up v]] rec by simp
  have ok': "window_ok V ?m" using ok rec' unfolding window_ok_def by (simp add: keep cong: ball_cong)
  have g: "get_P1 w ?m = (if w = v then Some e else get_P1 w m)" if w: "w \<in> V" for w
  proof -
    obtain c where b: "leaf m w = Some c" by (rule window_okE[OF ok w])
    have "c = a \<longleftrightarrow> w = v" using a b inj w by auto
    moreover have "get_P1 w ?m = Some (phys ?m c)" using get_P1_leaf[OF rec'] keep(1)[OF w] b by simp
    ultimately show ?thesis using get_P1_leaf[OF rec b] by simp
  qed
  have "set_P1 v e m = Some ?m" using translate_P1_vaddr[OF rec a] by (simp add: set_P1_def)
  then show "\<exists>m'. set_P1 v e m = Some m' \<and> (window_ok V m' \<and> vaddr_break m' = b) \<and> (\<forall>w \<in> V. get_P1 w m' = (if w = v then Some e else get_P1 w m))"
    using ok' g okb by (intro exI[of _ ?m]) simp
qed

section \<open>Ranges of pages\<close>

definition pages :: "u64 \<Rightarrow> u64 \<Rightarrow> u64 list" where
  "pages start fin = map (\<lambda>k. start + of_nat k * PAGE_SIZE) [0..<unat (fin - start) div 4096]"

lemma page_loop_pages:
  "unat (fin - start) = n * 4096 \<Longrightarrow> page_loop f start fin s = for_opt f (map (\<lambda>k. start + of_nat k * PAGE_SIZE) [0..<n]) s"
proof (induction n arbitrary: start s)
  case 0
  then have "start = fin" by (simp add: unat_eq_zero)
  then show ?case by (subst page_loop.simps) simp
next
  case (Suc n)
  then have "start \<noteq> fin" by auto
  moreover have "unat (fin - (start + PAGE_SIZE)) = n * 4096"
  proof -
    have "unat (PAGE_SIZE :: u64) = 4096" by (simp add: PAGE_SIZE_def)
    then have "unat ((fin - start) - PAGE_SIZE) = n * 4096" using Suc.prems by (subst unat_minus_fits) simp_all
    then show ?thesis by (simp add: diff_diff_eq)
  qed
  then have "page_loop f (start + PAGE_SIZE) fin = for_opt f (map (\<lambda>k. start + PAGE_SIZE + of_nat k * PAGE_SIZE) [0..<n])"
    by (intro ext Suc.IH)
  moreover have "map (\<lambda>k. start + of_nat k * PAGE_SIZE) [0..<Suc n] = start # map (\<lambda>k. start + PAGE_SIZE + of_nat k * PAGE_SIZE) [0..<n]"
    by (subst upt_conv_Cons) (simp_all add: map_Suc_upt[symmetric] comp_def algebra_simps del: upt_Suc)
  ultimately show ?case by (subst page_loop.simps) (simp del: upt_Suc)
qed

lemma aligned_iff: "v mod PAGE_SIZE = 0 \<longleftrightarrow> 4096 dvd unat v"
  by (simp add: PAGE_SIZE_def word_unat_eq_iff unat_mod dvd_eq_mod_eq_0)

lemma page_range_pages:
  assumes "start mod PAGE_SIZE = 0" "fin mod PAGE_SIZE = 0"
  shows "page_range f start fin s = for_opt f (pages start fin) s"
proof -
  have "4096 dvd unat (fin - start)"
  proof (cases "start \<le> fin")
    case True
    then show ?thesis using assms by (simp add: aligned_iff unat_sub word_le_nat_alt)
  next
    case False
    then have "unat (fin - start) = unat fin + 2 ^ 64 - unat start" by (simp add: unat_sub_if' word_le_nat_alt)
    then show ?thesis using assms False by (simp add: aligned_iff word_le_nat_alt dvd_diff_nat)
  qed
  then have "unat (fin - start) = unat (fin - start) div 4096 * 4096" by simp
  from page_loop_pages[OF this] show ?thesis using assms by (simp add: page_range_def pages_def c_assert_def)
qed

lemma unat_page_offset:
  assumes "k < unat (x :: u64) div 4096"
  shows "unat (of_nat k * PAGE_SIZE :: u64) = k * 4096"
proof -
  have "k * 4096 < unat x div 4096 * 4096" using assms by simp
  also have "\<dots> \<le> unat x" by simp
  also have "\<dots> < 2 ^ 64" using unsigned_less[of x, where 'a = nat] by simp
  finally have "unat (of_nat (k * 4096) :: u64) = k * 4096" by (intro unat_of_nat_lt) simp
  then show ?thesis by (simp add: PAGE_SIZE_def)
qed

lemma distinct_pages: "distinct (pages start fin)"
proof -
  have "i = j" if "i < unat (fin - start) div 4096" "j < unat (fin - start) div 4096"
    "start + of_nat i * PAGE_SIZE = start + of_nat j * PAGE_SIZE" for i j
  proof -
    have "unat (of_nat i * PAGE_SIZE :: u64) = unat (of_nat j * PAGE_SIZE :: u64)" using that(3) by simp
    then show ?thesis unfolding unat_page_offset[OF that(1)] unat_page_offset[OF that(2)] by simp
  qed
  then show ?thesis unfolding pages_def distinct_map by (intro conjI distinct_upt inj_onI) (simp only: set_upt atLeastLessThan_iff)
qed

text \<open>The effect of a range operation on the entries of a window.\<close>

lemma range_update:
  assumes "window_ok V m" "start mod PAGE_SIZE = 0" "fin mod PAGE_SIZE = 0" "set (pages start fin) \<subseteq> V"
  obtains m' where "page_range (update_P1 g) start fin m = Some m'" "window_ok V m'" "vaddr_break m' = vaddr_break m"
    "\<forall>w \<in> V. get_P1 w m' = (if w \<in> set (pages start fin) then map_option g (get_P1 w m) else get_P1 w m)"
proof -
  have "entries.update g = update_P1 g" by (simp add: fun_eq_iff entries.update_def update_P1_def)
  then show ?thesis
    using that entries.update_all[of V m "vaddr_break m" "pages start fin" g] assms distinct_pages
    by (auto simp: page_range_pages)
qed

lemma count_pages_count:
  assumes "window_ok V m" "start mod PAGE_SIZE = 0" "fin mod PAGE_SIZE = 0" "set (pages start fin) \<subseteq> V"
  shows "count_pages flag start fin m =
    Some (of_nat (length (filter (\<lambda>v. \<exists>e. get_P1 v m = Some e \<and> e AND flag \<noteq> 0) (pages start fin))))"
  using assms entries.count_all[of V m "vaddr_break m" "pages start fin" "\<lambda>e. e AND flag \<noteq> 0" 0]
  by (simp add: count_pages_def page_range_pages)

section \<open>Flags\<close>

lemmas pte_flag_defs = PTE_PRESENT_def PTE_WRITABLE_def PTE_USER_def PTE_WRITE_THROUGH_def PTE_CACHE_DISABLE_def
  PTE_ACCESSED_def PTE_DIRTY_def PTE_HUGE_def PTE_NO_EXECUTE_def PTE_DUCK_WRITTEN_def

lemma bit_push_1: "bit (push_bit k (1 :: u64)) n \<longleftrightarrow> n = k \<and> k < 64"
  by (auto simp: bit_simps)

lemma bit_flags:
  "bit PTE_PRESENT n \<longleftrightarrow> n = 0" "bit PTE_WRITABLE n \<longleftrightarrow> n = 1" "bit PTE_USER n \<longleftrightarrow> n = 2" "bit PTE_ACCESSED n \<longleftrightarrow> n = 5"
  "bit PTE_DIRTY n \<longleftrightarrow> n = 6" "bit PTE_DUCK_WRITTEN n \<longleftrightarrow> n = 9" "bit PTE_NO_EXECUTE n \<longleftrightarrow> n = 63"
  unfolding pte_flag_defs bit_push_1 by auto

lemma bit_clear_page_flags: "bit (clear_page_flags e) n \<longleftrightarrow> 9 \<le> n \<and> n < 63 \<and> bit e n"
  unfolding clear_page_flags_def bit_push_bit_iff bit_drop_bit_eq comp_def by auto

lemma bit_pte_base: "bit (pte_base e) n \<longleftrightarrow> 12 \<le> n \<and> n < 52 \<and> bit e n"
  by (auto simp: pte_base_def bit_simps)

definition writable_entry :: "u64 \<Rightarrow> u64" where
  "writable_entry e = clear_page_flags e OR PTE_PRESENT OR PTE_USER OR PTE_WRITABLE OR PTE_NO_EXECUTE"

definition kernel_entry :: "u64 \<Rightarrow> u64" where
  "kernel_entry e = clear_page_flags e OR PTE_PRESENT OR PTE_WRITABLE"

lemma pte_base_entry: "pte_base (writable_entry e) = pte_base e" "pte_base (kernel_entry e) = pte_base e"
  by (rule bit_word_eqI; auto simp: writable_entry_def kernel_entry_def bit_pte_base bit_or_iff bit_flags bit_clear_page_flags)+

lemma user_entry:
  "writable_entry e AND (PTE_USER OR PTE_WRITABLE) = PTE_USER OR PTE_WRITABLE"
  "kernel_entry e AND (PTE_USER OR PTE_WRITABLE) \<noteq> PTE_USER OR PTE_WRITABLE"
proof -
  show "writable_entry e AND (PTE_USER OR PTE_WRITABLE) = PTE_USER OR PTE_WRITABLE"
    by (rule bit_word_eqI) (auto simp: writable_entry_def bit_and_iff bit_or_iff bit_flags)
  have "\<not> bit (kernel_entry e AND (PTE_USER OR PTE_WRITABLE)) 2" "bit (PTE_USER OR PTE_WRITABLE) 2"
    by (simp_all add: kernel_entry_def bit_and_iff bit_or_iff bit_flags bit_clear_page_flags)
  then show "kernel_entry e AND (PTE_USER OR PTE_WRITABLE) \<noteq> PTE_USER OR PTE_WRITABLE" by metis
qed

lemma and_flag_0_iff: "e AND PTE_DIRTY \<noteq> 0 \<longleftrightarrow> bit e 6"
  by (auto simp: bit_eq_iff[of "_ AND _"] bit_and_iff bit_flags)

section \<open>Properties\<close>

text \<open>C22: The entry that \<open>get_P1\<close> reaches through the recursive mapping is the one that the processor uses to
  translate the address.\<close>

theorem get_P1_is_the_entry:
  assumes "recursive m" "leaf m v = Some a"
  shows "get_P1 v m = Some (phys m a) \<and>
    translate m v = (if pte_present (phys m a) then Some (pte_base (phys m a) OR (v AND mask 12)) else None)"
  using get_P1_leaf[OF assms] translate_leaf[OF assms(2)] by simp

text \<open>A small address space with two user pages: tables at 16 MiB and the following pages.\<close>

definition demo_pm :: PM where
  "demo_pm = zero_PM\<lparr>cr3 := 0x1000000, vaddr_break := 0x1002000,
     phys := (\<lambda>_. 0)(0x1000ff8 := 0x1000003, 0x1000000 := 0x1001007, 0x1001000 := 0x1002007, 0x1002040 := 0x1003007,
       0x1003000 := 0x1400063, 0x1003008 := 0x1401063)\<rparr>"

lemma demo_index:
  "P4_index 0x1000000 = 0" "P3_index 0x1000000 = 0" "P2_index 0x1000000 = 8" "P1_index 0x1000000 = 0"
  "P4_index 0x1001000 = 0" "P3_index 0x1001000 = 0" "P2_index 0x1001000 = 8" "P1_index 0x1001000 = 1"
  by (simp_all add: P4_index_def P3_index_def P2_index_def P1_index_def PAGE_SIZE_def)

lemma demo_base: "pte_base 0x1000000 = 0x1000000" "pte_base 0x1000003 = 0x1000000" "pte_base 0x1001007 = 0x1001000"
  "pte_base 0x1002007 = 0x1002000" "pte_base 0x1003007 = 0x1003000"
  by (simp_all add: pte_base_def mask_eq_exp_minus_1)

lemma demo_leaf: "leaf demo_pm 0x1000000 = Some 0x1003000" "leaf demo_pm 0x1001000 = Some 0x1003008"
  "upper demo_pm 0x1000000 = {0x1000000, 0x1001000, 0x1002040, 0x1000ff8}" "upper demo_pm 0x1001000 = {0x1000000, 0x1001000, 0x1002040, 0x1000ff8}"
  "recursive demo_pm"
  by (simp_all add: leaf_def upper_def recursive_def demo_pm_def get_PTE_def PTE_addr_def demo_index demo_base pte_present_def pte_huge_def)

lemma demo_window: "window_ok {0x1000000, 0x1001000} demo_pm"
  by (simp add: window_ok_def demo_leaf)

lemma demo_pages: "pages 0x1000000 0x1002000 = [0x1000000, 0x1001000]"
  by (simp add: pages_def PAGE_SIZE_def upt_rec)

theorem get_P1_is_the_entry_witness:
  "get_P1 0x1001000 demo_pm = Some (phys demo_pm 0x1003008) \<and> translate demo_pm 0x1001000 =
    (if pte_present (phys demo_pm 0x1003008) then Some (pte_base (phys demo_pm 0x1003008) OR (0x1001000 AND mask 12)) else None)"
  by (rule get_P1_is_the_entry) (simp_all add: demo_leaf)



text \<open>C24: The number of dirty pages is the number of entries of the range with the dirty bit, and it is zero right
  after the flags have been cleared.\<close>

theorem dirty_pages_counted:
  assumes ok: "window_ok V m" and al: "start mod PAGE_SIZE = 0" "fin mod PAGE_SIZE = 0" and sub: "set (pages start fin) \<subseteq> V"
  shows "count_dirty_pages start fin m = Some (of_nat (length (filter (\<lambda>v. \<exists>e. get_P1 v m = Some e \<and> bit e 6) (pages start fin)))) \<and>
    (\<exists>m'. clear_access_and_dirty_flags start fin m = Some m' \<and> count_dirty_pages start fin m' = Some 0)"
proof -
  let ?g = "\<lambda>e. e AND NOT (PTE_ACCESSED OR PTE_DIRTY)"
  obtain m' where m': "page_range (update_P1 ?g) start fin m = Some m'" "window_ok V m'"
    "\<forall>w \<in> V. get_P1 w m' = (if w \<in> set (pages start fin) then map_option ?g (get_P1 w m) else get_P1 w m)"
    by (rule range_update[OF ok al sub]) blast
  have clean: "\<not> bit (?g e) 6" for e :: u64 by (simp add: bit_and_iff bit_not_iff bit_or_iff bit_flags)
  have "\<not> (\<exists>e. get_P1 v m' = Some e \<and> bit e 6)" if "v \<in> set (pages start fin)" for v
  proof -
    have "get_P1 v m' = map_option ?g (get_P1 v m)" using m'(3) that sub by auto
    then show ?thesis using clean by (cases "get_P1 v m") auto
  qed
  then have "filter (\<lambda>v. \<exists>e. get_P1 v m' = Some e \<and> bit e 6) (pages start fin) = []" by (simp add: filter_empty_conv)
  then show ?thesis
    using m'(1) count_pages_count[OF ok al sub, of PTE_DIRTY] count_pages_count[OF m'(2) al sub, of PTE_DIRTY]
    by (simp add: count_dirty_pages_def clear_access_and_dirty_flags_def and_flag_0_iff)
qed

theorem dirty_pages_counted_witness:
  "count_dirty_pages 0x1000000 0x1002000 demo_pm =
      Some (of_nat (length (filter (\<lambda>v. \<exists>e. get_P1 v demo_pm = Some e \<and> bit e 6) (pages 0x1000000 0x1002000)))) \<and>
    (\<exists>m'. clear_access_and_dirty_flags 0x1000000 0x1002000 demo_pm = Some m' \<and> count_dirty_pages 0x1000000 0x1002000 m' = Some 0)"
  by (rule dirty_pages_counted[OF demo_window]) (simp_all add: PAGE_SIZE_def demo_pages)

text \<open>C25: Virtual memory is handed out from the top in whole huge pages: an allocation succeeds exactly when the
  check says so, then it returns an aligned block between the kernel and the previous break, and only this block is taken.\<close>

theorem allocate_block:
  assumes br: "kernel_break \<le> vaddr_break m" "vaddr_break m mod HUGE_PAGE_SIZE = 0" and fits: "unat sz + unat HUGE_PAGE_SIZE \<le> 2 ^ 64"
    and run: "allocate_virtual_memory sz m = (p, m')"
  shows "(p = 0 \<longleftrightarrow> \<not> can_allocate_virtual_memory sz m) \<and> (p = 0 \<longrightarrow> m' = m) \<and>
    (p \<noteq> 0 \<longrightarrow> p = vaddr_break m' \<and> kernel_break \<le> p \<and> 2097152 dvd unat p \<and> unat p + unat sz \<le> unat (vaddr_break m) \<and>
      unat (vaddr_break m) < unat p + unat sz + 2097152)"
proof -
  define r where "r = round_up sz HUGE_PAGE_SIZE"
  have h: "unat HUGE_PAGE_SIZE = 2097152" "(0 :: u64) < HUGE_PAGE_SIZE" by (simp_all add: HUGE_PAGE_SIZE_def)
  have ur: "unat r = (unat sz + 2097152 - 1) div 2097152 * 2097152" unfolding r_def using unat_round_up[OF h(2), of sz] fits h(1) by simp
  have c: "unat sz \<le> unat r" "unat r < unat sz + 2097152" "2097152 dvd unat r"
    using ceiling_multiple[of 2097152 "unat sz"] by (simp_all add: ur)
  have kb: "unat kernel_break = 16777216" by (simp add: kernel_break_def)
  have bk: "unat (vaddr_break m - kernel_break) = unat (vaddr_break m) - 16777216" "16777216 \<le> unat (vaddr_break m)"
    using br(1) kb by (simp_all add: unat_sub word_le_nat_alt)
  have al: "2097152 dvd unat (vaddr_break m)"
  proof -
    have "unat (vaddr_break m mod HUGE_PAGE_SIZE) = 0" using br(2) by simp
    then show ?thesis using h(1) by (simp add: unat_mod dvd_eq_mod_eq_0)
  qed
  show ?thesis
  proof (cases "vaddr_break m - kernel_break < r")
    case True
    then show ?thesis using run by (auto simp: allocate_virtual_memory_def can_allocate_virtual_memory_def Let_def simp flip: r_def)
  next
    case False
    then have le: "unat r \<le> unat (vaddr_break m) - 16777216" using bk by (simp add: word_less_nat_alt not_less)
    then have up: "unat (vaddr_break m - r) = unat (vaddr_break m) - unat r" by (subst unat_minus_fits) auto
    have p: "p = vaddr_break m - r" "m' = m\<lparr>vaddr_break := vaddr_break m - r\<rparr>"
      using run False by (auto simp: allocate_virtual_memory_def Let_def simp flip: r_def)
    have "unat p \<ge> 16777216" using le bk up p by simp
    then have "p \<noteq> 0" "kernel_break \<le> p" using kb by (auto simp: word_le_nat_alt)
    moreover have "2097152 dvd unat p" unfolding p up using al c(3) by (simp add: dvd_diff_nat)
    moreover have "unat p + unat sz \<le> unat (vaddr_break m)" "unat (vaddr_break m) < unat p + unat sz + 2097152"
      using c(1,2) le up bk unfolding p by linarith+
    moreover have "can_allocate_virtual_memory sz m" using False by (auto simp: can_allocate_virtual_memory_def Let_def simp flip: r_def)
    ultimately show ?thesis using p by simp
  qed
qed

theorem allocate_block_witness:
  "can_allocate_virtual_memory 3000000 (zero_PM\<lparr>vaddr_break := 0x1800000\<rparr>) \<and>
   fst (allocate_virtual_memory 3000000 (zero_PM\<lparr>vaddr_break := 0x1800000\<rparr>)) = 0x1400000 \<and>
   kernel_break \<le> 0x1400000 \<and> unat (0x1400000 :: u64) + unat (3000000 :: u64) \<le> unat (0x1800000 :: u64)"
proof -
  have run: "allocate_virtual_memory 3000000 (zero_PM\<lparr>vaddr_break := 0x1800000\<rparr>) = (0x1400000, zero_PM\<lparr>vaddr_break := 0x1400000\<rparr>)"
    by (simp add: allocate_virtual_memory_def round_up_def HUGE_PAGE_SIZE_def kernel_break_def)
  from allocate_block[OF _ _ _ run] have "can_allocate_virtual_memory 3000000 (zero_PM\<lparr>vaddr_break := 0x1800000\<rparr>) \<and>
      kernel_break \<le> 0x1400000 \<and> unat (0x1400000 :: u64) + unat (3000000 :: u64) \<le> unat (0x1800000 :: u64)"
    by (simp add: kernel_break_def HUGE_PAGE_SIZE_def)
  then show ?thesis using run by simp
qed

end
