(* ===== verification/Duck_Cache.thy ===== *)
theory Duck_Cache
  imports Page_Memory "HOL-Library.Product_Lexorder"
begin

text \<open>
  The object cache of the judge, \<open>kern/duck_cache.cpp\<close>: objects are found by a 256-bit digest in arrays
  sorted by digest; their contents are chains of pages that also make up the free list; when room is
  needed, the least recently used objects are removed.

  Pages are a finite map from addresses to a link and 4088 bytes of contents; reading or writing an
  address outside is a fault. Counters are natural numbers: they are bounded by the memory of the cache.
  Lengths of objects are 64-bit words, since their rounding may wrap.
\<close>

section \<open>Data\<close>

datatype Digest256 = Digest256 (dg0: u64) (dg1: u64) (dg2: u64) (dg3: u64)

definition digest_key :: "Digest256 \<Rightarrow> u64 \<times> u64 \<times> u64 \<times> u64" where
  "digest_key d = (dg0 d, dg1 d, dg2 d, dg3 d)"

lemma digest_key_inject: "digest_key d = digest_key e \<longleftrightarrow> d = e"
  by (cases d; cases e) (simp add: digest_key_def)

instantiation Digest256 :: linorder
begin

definition less_eq_Digest256 :: "Digest256 \<Rightarrow> Digest256 \<Rightarrow> bool" where
  "less_eq_Digest256 d e \<longleftrightarrow> digest_key d \<le> digest_key e"

definition less_Digest256 :: "Digest256 \<Rightarrow> Digest256 \<Rightarrow> bool" where
  "less_Digest256 d e \<longleftrightarrow> digest_key d < digest_key e"

instance
proof
  fix x y z :: Digest256
  show "x < y \<longleftrightarrow> x \<le> y \<and> \<not> y \<le> x" by (auto simp: less_eq_Digest256_def less_Digest256_def)
  show "x \<le> x" by (simp add: less_eq_Digest256_def)
  show "x \<le> y \<Longrightarrow> y \<le> z \<Longrightarrow> x \<le> z" unfolding less_eq_Digest256_def by (rule order.trans)
  show "x \<le> y \<Longrightarrow> y \<le> x \<Longrightarrow> x = y" unfolding less_eq_Digest256_def by (auto simp flip: digest_key_inject)
  show "x \<le> y \<or> y \<le> x" unfolding less_eq_Digest256_def by (rule linear)
qed

end

record Metadata =
  last_used_tsc :: u64
  start_addr :: u64
  md_len :: u64

record DuckCache =
  cache_size :: u64
  n_max_objects :: nat
  n_cur_objects :: nat
  free_list_addr :: u64
  n_free_pages :: nat
  n_total_pages :: nat
  obj_hash :: "u64 list"
  obj_digest :: "Digest256 list"
  obj_metadata :: "Metadata list"
  pg :: "u64 \<rightharpoonup> u64 \<times> bytes"

definition ONE_PAGE_CONTENT_SIZE :: u64 where "ONE_PAGE_CONTENT_SIZE = PAGE_SIZE - 8"

section \<open>Digests\<close>

definition hex_val :: "u8 \<Rightarrow> u64 option" where
  "hex_val c = (if 48 \<le> c \<and> c \<le> 57 then Some (ucast c - 48)
     else if 97 \<le> c \<and> c \<le> 102 then Some (ucast c - 97 + 10)
     else if 65 \<le> c \<and> c \<le> 70 then Some (ucast c - 65 + 10)
     else None)"

text \<open>A refused digit is \<^term>\<open>Some None\<close>.\<close>

primrec hex_word_loop :: "nat list \<Rightarrow> bytes \<Rightarrow> nat \<Rightarrow> u64 \<Rightarrow> u64 option option" where
  "hex_word_loop [] hex idx sm = Some (Some sm)"
| "hex_word_loop (i # is) hex idx sm = do {
     c \<leftarrow> rd hex (idx * 16 + i);
     case hex_val c of None \<Rightarrow> Some None
     | Some val \<Rightarrow> hex_word_loop is hex idx (sm OR push_bit (i * 4) val)
   }"

primrec hex_words :: "nat list \<Rightarrow> bytes \<Rightarrow> u64 list option option" where
  "hex_words [] hex = Some (Some [])"
| "hex_words (idx # ids) hex = do {
     w \<leftarrow> hex_word_loop [0..<16] hex idx 0;
     case w of None \<Rightarrow> Some None
     | Some w \<Rightarrow> do { r \<leftarrow> hex_words ids hex; Some (map_option ((#) w) r) }
   }"

definition digest_from_hex :: "bytes \<Rightarrow> Digest256 option option" where
  "digest_from_hex hex = do {
     r \<leftarrow> hex_words [0..<4] hex;
     Some (map_option (\<lambda>a. Digest256 (a ! 0) (a ! 1) (a ! 2) (a ! 3)) r)
   }"

fun cmp_words :: "(u64 \<times> u64) list \<Rightarrow> int" where
  "cmp_words [] = 0"
| "cmp_words ((a, b) # r) = (if a < b then - 1 else if a > b then 1 else cmp_words r)"

definition cmp_digest :: "Digest256 \<Rightarrow> Digest256 \<Rightarrow> int" where
  "cmp_digest a b = cmp_words [(dg0 a, dg0 b), (dg1 a, dg1 b), (dg2 a, dg2 b), (dg3 a, dg3 b)]"

section \<open>Initialisation\<close>

text \<open>The loop that links the pages; it returns the address of the last one.\<close>

partial_function (option) link_pages :: "u64 \<Rightarrow> u64 \<Rightarrow> nat \<Rightarrow> (u64 \<rightharpoonup> u64 \<times> bytes) \<Rightarrow> (u64 \<times> nat \<times> (u64 \<rightharpoonup> u64 \<times> bytes)) option" where
  "link_pages cache cache_end n ps =
     (if cache + PAGE_SIZE < cache_end
      then link_pages (cache + PAGE_SIZE) cache_end (n + 1) (ps(cache \<mapsto> (cache + PAGE_SIZE, replicate 4088 0)))
      else Some (cache, n, ps))"

text \<open>A result of \<^term>\<open>Some None\<close> is a failed allocation; a cache that is too small restarts the machine.\<close>

definition cache_init :: "nat \<Rightarrow> u64 \<Rightarrow> PM \<Rightarrow> (DuckCache option \<times> PM) option" where
  "cache_init max_objects sz m = (case allocate_virtual_memory sz m of (cache, m) \<Rightarrow>
     if cache = 0 then Some (None, m)
     else do {
       let cache_end = cache + sz;
       let cache = cache + round_up (of_nat max_objects * 8) PAGE_SIZE;
       let cache = cache + round_up (of_nat max_objects * 32) PAGE_SIZE;
       let cache = cache + round_up (of_nat max_objects * 24) PAGE_SIZE;
       let cache = cache + round_up (of_nat max_objects * 8) PAGE_SIZE;
       c_assert (\<not> cache + PAGE_SIZE \<ge> cache_end);
       (last, n, ps) \<leftarrow> link_pages cache cache_end 0 Map.empty;
       let ps = ps(last \<mapsto> (0, replicate 4088 0));
       let n = n + 1;
       Some (Some \<lparr>cache_size = sz, n_max_objects = max_objects, n_cur_objects = 0, free_list_addr = cache,
         n_free_pages = n, n_total_pages = n, obj_hash = replicate max_objects 0, obj_digest = replicate max_objects (Digest256 0 0 0 0),
         obj_metadata = replicate max_objects \<lparr>last_used_tsc = 0, start_addr = 0, md_len = 0\<rparr>, pg = ps\<rparr>, m)
     })"

section \<open>Lookup\<close>

text \<open>The partition points that the binary searches of the C++ library return on a sorted range.\<close>

definition std_lower_bound :: "u64 list \<Rightarrow> u64 \<Rightarrow> nat" where
  "std_lower_bound xs x = length (takeWhile (\<lambda>y. y < x) xs)"

definition std_upper_bound :: "u64 list \<Rightarrow> u64 \<Rightarrow> nat" where
  "std_upper_bound xs x = length (takeWhile (\<lambda>y. y \<le> x) xs)"

primrec find_loop :: "nat list \<Rightarrow> Digest256 list \<Rightarrow> Digest256 \<Rightarrow> nat \<Rightarrow> (bool \<times> nat) option" where
  "find_loop [] ds digest idx2 = Some (False, idx2)"
| "find_loop (idx # is) ds digest idx2 = do {
     d \<leftarrow> rd ds idx;
     let r = cmp_digest d digest;
     if r \<ge> 0 then Some (r = 0, idx) else find_loop is ds digest idx2
   }"

definition cache_find :: "Digest256 \<Rightarrow> DuckCache \<Rightarrow> (bool \<times> nat) option" where
  "cache_find digest c =
     (if n_cur_objects c = 0 then Some (False, 0)
      else do {
        let hash = dg0 digest;
        hs \<leftarrow> rd_range (obj_hash c) 0 (n_cur_objects c);
        let idx1 = std_lower_bound hs hash;
        let idx2 = idx1 + std_upper_bound (drop idx1 hs) hash;
        find_loop [idx1..<idx2] (obj_digest c) digest idx2
      })"

text \<open>Copying out of a chain of pages.\<close>

function load_pages :: "(u64 \<rightharpoonup> u64 \<times> bytes) \<Rightarrow> u64 \<Rightarrow> nat \<Rightarrow> bytes option" where
  "load_pages ps addr rest = (if rest = 0 then Some [] else do {
     (nx, ct) \<leftarrow> ps addr;
     data \<leftarrow> rd_range ct 0 (min rest 4088);
     more \<leftarrow> load_pages ps nx (rest - 4088);
     Some (data @ more)
   })"
  by pat_completeness auto
termination by (relation "measure (\<lambda>(ps, addr, rest). rest)") auto

declare load_pages.simps [simp del]

text \<open>The bytes that are copied to the destination, \<^term>\<open>None\<close> when the object is not there.\<close>

definition cache_load :: "u64 \<Rightarrow> Digest256 \<Rightarrow> u64 \<Rightarrow> DuckCache \<Rightarrow> (bytes option \<times> DuckCache) option" where
  "cache_load tsc digest required_len c = do {
     (hit, idx) \<leftarrow> cache_find digest c;
     if \<not> hit then Some (None, c)
     else do {
       md \<leftarrow> rd (obj_metadata c) idx;
       if md_len md \<noteq> required_len then Some (None, c)
       else do {
         mds \<leftarrow> wr (obj_metadata c) idx (md\<lparr>last_used_tsc := tsc\<rparr>);
         data \<leftarrow> load_pages (pg c) (start_addr md) (unat required_len);
         Some (Some data, c\<lparr>obj_metadata := mds\<rparr>)
       }
     }
   }"

section \<open>Storing\<close>

definition n_pages_for :: "u64 \<Rightarrow> nat" where
  "n_pages_for len = unat (max ((len + ONE_PAGE_CONTENT_SIZE - 1) div ONE_PAGE_CONTENT_SIZE) 1)"

primrec follow :: "(u64 \<rightharpoonup> u64 \<times> bytes) \<Rightarrow> nat \<Rightarrow> u64 \<Rightarrow> u64 option" where
  "follow ps 0 addr = Some addr"
| "follow ps (Suc n) addr = do { (nx, ct) \<leftarrow> ps addr; follow ps n nx }"

definition set_link :: "(u64 \<rightharpoonup> u64 \<times> bytes) \<Rightarrow> u64 \<Rightarrow> u64 \<Rightarrow> (u64 \<rightharpoonup> u64 \<times> bytes) option" where
  "set_link ps addr nx = do { (_, ct) \<leftarrow> ps addr; Some (ps(addr \<mapsto> (nx, ct))) }"

text \<open>Removing one object: it is marked, and its chain goes to the front of the free list.\<close>

definition evict_one :: "nat \<Rightarrow> DuckCache \<Rightarrow> (nat \<times> DuckCache) option" where
  "evict_one k c = do {
     md \<leftarrow> rd (obj_metadata c) k;
     let n_pages = n_pages_for (md_len md);
     mds \<leftarrow> wr (obj_metadata c) k (md\<lparr>last_used_tsc := 0\<rparr>);
     addr \<leftarrow> follow (pg c) (n_pages - 1) (start_addr md);
     ps \<leftarrow> set_link (pg c) addr (free_list_addr c);
     Some (n_pages, c\<lparr>obj_metadata := mds, pg := ps, free_list_addr := start_addr md\<rparr>)
   }"

primrec evict_loop :: "nat list \<Rightarrow> nat \<Rightarrow> nat \<Rightarrow> nat \<Rightarrow> DuckCache \<Rightarrow> (nat \<times> nat \<times> DuckCache) option" where
  "evict_loop [] need rp ro c = Some (rp, ro, c)"
| "evict_loop (k # ids) need rp ro c = do {
     (n_pages, c) \<leftarrow> evict_one k c;
     let ro = ro + 1;
     let rp = rp + n_pages;
     if need > n_free_pages c + rp \<or> n_cur_objects c + 1 > n_max_objects c + ro then evict_loop ids need rp ro c
     else Some (rp, ro, c)
   }"

text \<open>Closing the gaps in the three arrays.\<close>

definition defrag :: "DuckCache \<Rightarrow> DuckCache option" where
  "defrag c = do {
     (_, hs, ds, mds) \<leftarrow> for_opt (\<lambda>i (j, hs, ds, mds). do {
         md \<leftarrow> rd mds i;
         if last_used_tsc md = 0 then Some (j, hs, ds, mds)
         else do {
           h \<leftarrow> rd hs i; hs \<leftarrow> wr hs j h;
           d \<leftarrow> rd ds i; ds \<leftarrow> wr ds j d;
           mds \<leftarrow> wr mds j md;
           Some (j + 1, hs, ds, mds)
         }
       }) [0..<n_cur_objects c] (0, obj_hash c, obj_digest c, obj_metadata c);
     Some (c\<lparr>obj_hash := hs, obj_digest := ds, obj_metadata := mds\<rparr>)
   }"

text \<open>The objects in the order of their last use.\<close>

definition sort_ids :: "DuckCache \<Rightarrow> nat list" where
  "sort_ids c = sort_key (\<lambda>i. last_used_tsc (obj_metadata c ! i)) [0..<n_cur_objects c]"

definition make_room :: "nat \<Rightarrow> Digest256 \<Rightarrow> DuckCache \<Rightarrow> (nat \<times> DuckCache) option" where
  "make_room need digest c = do {
     c_assert (n_cur_objects c \<le> length (obj_metadata c));
     (rp, ro, c) \<leftarrow> evict_loop (sort_ids c) need 0 0 c;
     c \<leftarrow> defrag c;
     let c = c\<lparr>n_cur_objects := n_cur_objects c - ro, n_free_pages := n_free_pages c + rp\<rparr>;
     (hit, idx) \<leftarrow> cache_find digest c;
     c_assert (hit = False);
     Some (idx, c)
   }"

text \<open>Copying into a chain of pages; the address behind the last page written is returned.\<close>

function store_pages :: "(u64 \<rightharpoonup> u64 \<times> bytes) \<Rightarrow> u64 \<Rightarrow> bytes \<Rightarrow> (u64 \<times> (u64 \<rightharpoonup> u64 \<times> bytes)) option" where
  "store_pages ps addr src = (if src = [] then Some (addr, ps) else do {
     (nx, ct) \<leftarrow> ps addr;
     ct \<leftarrow> wr_range ct 0 (take 4088 src);
     store_pages (ps(addr \<mapsto> (nx, ct))) nx (drop 4088 src)
   })"
  by pat_completeness auto
termination by (relation "measure (\<lambda>(ps, addr, src). length src)") auto

declare store_pages.simps [simp del]

definition insert_at :: "nat \<Rightarrow> nat \<Rightarrow> 'a \<Rightarrow> 'a list \<Rightarrow> 'a list option" where
  "insert_at idx n x xs = do {
     tail \<leftarrow> rd_range xs idx (n - idx);
     xs \<leftarrow> wr_range xs (idx + 1) tail;
     wr xs idx x
   }"

definition put_object :: "u64 \<Rightarrow> Digest256 \<Rightarrow> bytes \<Rightarrow> nat \<Rightarrow> nat \<Rightarrow> DuckCache \<Rightarrow> DuckCache option" where
  "put_object tsc digest src need idx c = do {
     hs \<leftarrow> insert_at idx (n_cur_objects c) (dg0 digest) (obj_hash c);
     ds \<leftarrow> insert_at idx (n_cur_objects c) digest (obj_digest c);
     mds \<leftarrow> insert_at idx (n_cur_objects c)
       \<lparr>last_used_tsc = tsc, start_addr = free_list_addr c, md_len = of_nat (length src)\<rparr> (obj_metadata c);
     (addr, ps) \<leftarrow> store_pages (pg c) (free_list_addr c) src;
     addr \<leftarrow> (if src = [] then map_option fst (ps addr) else Some addr);
     Some (c\<lparr>obj_hash := hs, obj_digest := ds, obj_metadata := mds, n_cur_objects := n_cur_objects c + 1,
       pg := ps, n_free_pages := n_free_pages c - need, free_list_addr := addr\<rparr>)
   }"

definition cache_store :: "u64 \<Rightarrow> Digest256 \<Rightarrow> bytes \<Rightarrow> DuckCache \<Rightarrow> (bool \<times> DuckCache) option" where
  "cache_store tsc digest src c = do {
     (hit, idx) \<leftarrow> cache_find digest c;
     if hit then Some (True, c)
     else do {
       let need = n_pages_for (of_nat (length src));
       if need > n_total_pages c then Some (False, c)
       else do {
         (idx, c) \<leftarrow> (if need > n_free_pages c \<or> n_cur_objects c + 1 > n_max_objects c
           then make_room need digest c else Some (idx, c));
         c \<leftarrow> put_object tsc digest src need idx c;
         Some (True, c)
       }
     }
   }"

definition cache_info :: "DuckCache \<Rightarrow> string" where
  "cache_info c = ''size '' @ dec_nat (unat (cache_size c)) @ '', n_objects '' @ dec_nat (n_cur_objects c) @ '' / '' @
     dec_nat (n_max_objects c) @ '', n_pages '' @ dec_nat (n_total_pages c - n_free_pages c) @ '' / '' @ dec_nat (n_total_pages c)"

section \<open>Lookup is correct\<close>

lemma cmp_words_eq: "cmp_digest a b = (if a < b then - 1 else if a = b then 0 else 1)"
  by (cases a; cases b) (auto simp: cmp_digest_def less_Digest256_def digest_key_def less_prod_def')

text \<open>The position of a digest in a sorted list.\<close>

definition position :: "'a :: linorder \<Rightarrow> 'a list \<Rightarrow> nat" where
  "position d ds = length (takeWhile (\<lambda>x. x < d) ds)"

lemma position_le: "position d ds \<le> length ds"
  by (simp add: position_def length_takeWhile_le)

lemma position_before: "j < position d ds \<Longrightarrow> ds ! j < d"
  unfolding position_def by (metis nth_mem set_takeWhileD takeWhile_nth)

lemma position_at: "position d ds < length ds \<Longrightarrow> d \<le> ds ! position d ds"
  unfolding position_def using nth_length_takeWhile[of "\<lambda>x. x < d" ds] by auto

lemma position_mem:
  assumes "sorted_wrt (<) ds"
  shows "d \<in> set ds \<longleftrightarrow> position d ds < length ds \<and> ds ! position d ds = d"
proof
  assume "d \<in> set ds"
  then obtain j where j: "j < length ds" "ds ! j = d" by (auto simp: in_set_conv_nth)
  have "position d ds \<le> j" using position_before[of j d ds] j by (auto simp: not_less[symmetric])
  moreover have "\<not> position d ds < j"
  proof
    assume "position d ds < j"
    then have "ds ! position d ds < d" using sorted_wrt_nth_less[OF assms, of "position d ds" j] j by simp
    then show False using position_at[of d ds] \<open>position d ds < j\<close> j by simp
  qed
  ultimately show "position d ds < length ds \<and> ds ! position d ds = d" using j by simp
qed (auto simp: in_set_conv_nth)

lemma find_loop_spec:
  assumes "i1 \<le> k" "k \<le> i2" "i2 \<le> length ds" "\<forall>j < k. ds ! j < d" "k < i2 \<longrightarrow> d \<le> ds ! k"
  shows "find_loop [i1..<i2] ds d i2 = Some (k < i2 \<and> ds ! k = d, k)"
  using assms(1)
proof (induction "k - i1" arbitrary: i1)
  case 0
  then have "i1 = k" by simp
  show ?case
  proof (cases "k < i2")
    case True
    then have "[i1..<i2] = k # [Suc k..<i2]" using \<open>i1 = k\<close> by (simp add: upt_conv_Cons)
    then show ?thesis using True assms(3,5) by (auto simp: rd_def cmp_words_eq not_less[symmetric])
  qed (use \<open>i1 = k\<close> assms(2) in simp)
next
  case (Suc n)
  then have "i1 < k" by simp
  then have "[i1..<i2] = i1 # [Suc i1..<i2]" using assms(2) by (simp add: upt_conv_Cons)
  moreover have "find_loop [Suc i1..<i2] ds d i2 = Some (k < i2 \<and> ds ! k = d, k)"
    using Suc.hyps(1)[of "Suc i1"] Suc.hyps(2) \<open>i1 < k\<close> by simp
  ultimately show ?case using \<open>i1 < k\<close> assms(2-4) by (simp add: rd_def cmp_words_eq)
qed

lemma dg0_mono: "d < e \<Longrightarrow> dg0 d \<le> dg0 e" "d \<le> e \<Longrightarrow> dg0 d \<le> dg0 e"
  by (auto simp: less_Digest256_def less_eq_Digest256_def digest_key_def less_prod_def' le_less)

lemma takeWhile_length_iff:
  assumes "k \<le> length xs" "\<forall>j < k. P (xs ! j)" "k < length xs \<longrightarrow> \<not> P (xs ! k)"
  shows "length (takeWhile P xs) = k"
proof -
  have "takeWhile P xs = take k xs" using assms by (intro takeWhile_eq_take_P_nth) auto
  then show ?thesis using assms(1) by simp
qed


lemma find_spec:
  assumes n: "n_cur_objects c \<le> length (obj_hash c)" "n_cur_objects c \<le> length (obj_digest c)"
    and ds: "take (n_cur_objects c) (obj_digest c) = ds" and hs: "take (n_cur_objects c) (obj_hash c) = map dg0 ds"
    and sorted: "sorted_wrt (<) ds"
  shows "cache_find d c = Some (d \<in> set ds, position d ds)"
proof (cases "n_cur_objects c = 0")
  case True
  then show ?thesis using ds by (auto simp: cache_find_def position_def)
next
  case False
  let ?h = "dg0 d" and ?hs = "map dg0 ds" and ?k = "position d ds"
  define i1 where "i1 = std_lower_bound ?hs ?h"
  define i2 where "i2 = i1 + std_upper_bound (drop i1 ?hs) ?h"
  have len: "length ds = n_cur_objects c" using ds n(2) by auto
  have i1: "i1 \<le> length ds" "\<forall>j < i1. dg0 (ds ! j) < ?h" "i1 < length ds \<Longrightarrow> ?h \<le> dg0 (ds ! i1)"
    using position_le[of ?h ?hs] position_before[of _ ?h ?hs] position_at[of ?h ?hs]
    unfolding i1_def std_lower_bound_def position_def[symmetric] by (auto simp: less_le_trans)
  have i2: "i2 \<le> length ds" "\<forall>j. i1 \<le> j \<and> j < i2 \<longrightarrow> dg0 (ds ! j) \<le> ?h" "i2 < length ds \<Longrightarrow> ?h < dg0 (ds ! i2)"
  proof -
    let ?t = "takeWhile (\<lambda>y. y \<le> ?h) (drop i1 ?hs)"
    have l: "length ?t \<le> length ds - i1" using length_takeWhile_le[of "\<lambda>y. y \<le> ?h" "drop i1 ?hs"] by simp
    then show "i2 \<le> length ds" using i1(1) by (simp add: i2_def std_upper_bound_def)
    show "\<forall>j. i1 \<le> j \<and> j < i2 \<longrightarrow> dg0 (ds ! j) \<le> ?h"
    proof (intro allI impI)
      fix j assume j: "i1 \<le> j \<and> j < i2"
      then have jt: "j - i1 < length ?t" by (simp add: i2_def std_upper_bound_def) linarith
      then have "?t ! (j - i1) \<le> ?h" using set_takeWhileD nth_mem by metis
      moreover have "?t ! (j - i1) = dg0 (ds ! j)" using takeWhile_nth[OF jt] j jt l i1(1) by simp
      ultimately show "dg0 (ds ! j) \<le> ?h" by simp
    qed
    assume lt: "i2 < length ds"
    then have "length ?t < length (drop i1 ?hs)" by (simp add: i2_def std_upper_bound_def)
    then have "\<not> drop i1 ?hs ! length ?t \<le> ?h" by (rule nth_length_takeWhile)
    then show "?h < dg0 (ds ! i2)" using lt i1(1) by (simp add: i2_def std_upper_bound_def not_le)
  qed
  have lo: "i1 \<le> ?k"
  proof (rule ccontr)
    assume "\<not> i1 \<le> ?k"
    then have "dg0 (ds ! ?k) < ?h" "?k < length ds" using i1 by auto
    then show False using position_at[of d ds] dg0_mono(2) by (metis not_le)
  qed
  have hi: "?k \<le> i2"
  proof (rule ccontr)
    assume "\<not> ?k \<le> i2"
    then have "ds ! i2 < d" "i2 < length ds" using position_before[of i2 d ds] position_le[of d ds] by auto
    then show False using i2(3) dg0_mono(1) by (metis not_le)
  qed
  have mem: "?k < i2 \<and> ds ! ?k = d \<longleftrightarrow> d \<in> set ds"
  proof -
    have "?k < i2" if "?k < length ds" "ds ! ?k = d"
      using that hi i2(3) by (cases "?k = i2") auto
    then show ?thesis using position_mem[OF sorted, of d] i2(1) by auto
  qed
  have fl: "find_loop [i1..<i2] (obj_digest c) d i2 = Some (?k < i2 \<and> obj_digest c ! ?k = d, ?k)"
  proof (rule find_loop_spec[OF lo hi])
    have nth: "obj_digest c ! j = ds ! j" if "j < length ds" for j using that ds len by auto
    show "i2 \<le> length (obj_digest c)" using i2(1) len n(2) by simp
    show "\<forall>j < ?k. obj_digest c ! j < d" using position_before[of _ d ds] position_le[of d ds] nth by auto
    show "?k < i2 \<longrightarrow> d \<le> obj_digest c ! ?k" using position_at[of d ds] i2(1) nth by auto
  qed
  have "obj_digest c ! ?k = ds ! ?k" if "?k < i2" using that i2(1) ds len by auto
  then have "(?k < i2 \<and> obj_digest c ! ?k = d) = (d \<in> set ds)" using mem by auto
  then show ?thesis using False fl n(1) hs by (simp add: cache_find_def Let_def rd_range_def i1_def i2_def)
qed

section \<open>Chains of pages\<close>

text \<open>A chain of pages from one address to another.\<close>

primrec chain :: "(u64 \<rightharpoonup> u64 \<times> bytes) \<Rightarrow> u64 \<Rightarrow> u64 list \<Rightarrow> u64 \<Rightarrow> bool" where
  "chain m a [] b \<longleftrightarrow> a = b"
| "chain m a (p # ps) b \<longleftrightarrow> a = p \<and> (\<exists>nx ct. m p = Some (nx, ct) \<and> length ct = 4088 \<and> chain m nx ps b)"

text \<open>A chain that holds the given bytes, in pieces of 4088.\<close>

primrec stored :: "(u64 \<rightharpoonup> u64 \<times> bytes) \<Rightarrow> u64 \<Rightarrow> u64 list \<Rightarrow> bytes \<Rightarrow> bool" where
  "stored m a [] data \<longleftrightarrow> data = []"
| "stored m a (p # ps) data \<longleftrightarrow> a = p \<and> (\<exists>nx ct. m p = Some (nx, ct) \<and> length ct = 4088 \<and>
     take (min (length data) 4088) ct = take 4088 data \<and> stored m nx ps (drop 4088 data))"

lemma chain_cong: "\<forall>p \<in> set ps. m' p = m p \<Longrightarrow> chain m' a ps b = chain m a ps b"
  by (induction ps arbitrary: a) auto

lemma stored_cong: "\<forall>p \<in> set ps. m' p = m p \<Longrightarrow> stored m' a ps data = stored m a ps data"
  by (induction ps arbitrary: a data) auto

lemma chain_append: "chain m a (ps @ qs) b \<longleftrightarrow> (\<exists>c. chain m a ps c \<and> chain m c qs b)"
  by (induction ps arbitrary: a) auto

lemma stored_chain: "stored m a ps data \<Longrightarrow> \<exists>b. chain m a ps b"
proof (induction ps arbitrary: a data)
  case (Cons p ps)
  then show ?case by (simp only: stored.simps chain.simps) blast
qed (rule exI, simp)

lemma load_stored: "stored m a ps data \<Longrightarrow> load_pages m a (length data) = Some data"
proof (induction ps arbitrary: a data)
  case (Cons p ps)
  then obtain nx ct where p: "a = p" "m p = Some (nx, ct)" "length ct = 4088" "take (min (length data) 4088) ct = take 4088 data"
    "stored m nx ps (drop 4088 data)" by auto
  have "load_pages m nx (length data - 4088) = Some (drop 4088 data)" using Cons.IH[OF p(5)] by simp
  then show ?case using p by (subst load_pages.simps) (simp add: rd_range_def)
qed (simp add: load_pages.simps)

lemma follow_chain: "chain m a (ps @ [p]) b \<Longrightarrow> follow m (length ps) a = Some p"
  by (induction ps arbitrary: a) auto

text \<open>Linking the end of a chain to another one.\<close>

lemma relink:
  assumes "chain m a (ps @ [p]) b" "distinct (ps @ [p])" "m p = Some (nx, ct)"
  shows "chain (m(p \<mapsto> (e, ct))) a (ps @ [p]) e"
proof -
  obtain c where c: "chain m a ps c" "c = p" "length ct = 4088" using assms(1,3) by (auto simp: chain_append)
  have "chain (m(p \<mapsto> (e, ct))) a ps c" using c(1) assms(2) by (subst chain_cong) auto
  then show ?thesis using c by (auto simp: chain_append)
qed

section \<open>Storing into chains\<close>

definition pages_of :: "bytes \<Rightarrow> nat" where
  "pages_of src = (if src = [] then 1 else (length src + 4087) div 4088)"

lemma n_pages_for_length:
  assumes "length src + 4087 < 2 ^ 64"
  shows "n_pages_for (of_nat (length src)) = pages_of src"
proof -
  have u: "unat (of_nat (length src) :: u64) = length src" by (rule unat_of_nat_lt) (use assms in simp)
  have "of_nat (length src) + ONE_PAGE_CONTENT_SIZE - 1 = (of_nat (length src) + 4087 :: u64)"
    by (simp add: ONE_PAGE_CONTENT_SIZE_def PAGE_SIZE_def)
  moreover have "unat (of_nat (length src) + 4087 :: u64) = length src + 4087" using assms u by (subst unat_add_fits) simp_all
  moreover have "unat (ONE_PAGE_CONTENT_SIZE) = 4088" by (simp add: ONE_PAGE_CONTENT_SIZE_def PAGE_SIZE_def)
  ultimately have q: "unat ((of_nat (length src) + ONE_PAGE_CONTENT_SIZE - 1) div ONE_PAGE_CONTENT_SIZE :: u64) = (length src + 4087) div 4088"
    by (simp only: unat_div)
  have "unat (max x 1 :: u64) = max (unat x) 1" for x :: u64
    by (auto simp: max_def word_le_nat_alt)
  then have "n_pages_for (of_nat (length src)) = max ((length src + 4087) div 4088) 1" by (simp only: n_pages_for_def q)
  moreover have "0 < (length src + 4087) div 4088" if "src \<noteq> []" using that by (cases src) (auto simp: div_greater_zero_iff)
  ultimately show ?thesis by (cases "src = []") (auto simp: pages_of_def)
qed

lemma pages_of_pos: "0 < pages_of src"
  by (auto simp: pages_of_def div_greater_zero_iff Suc_le_eq)

lemma pages_of_step: "4088 < length src \<Longrightarrow> pages_of src = Suc (pages_of (drop 4088 src))"
  by (auto simp: pages_of_def le_div_geq)

text \<open>Writing to the front of a chain stores the bytes and returns the rest.\<close>

lemma store_chain:
  assumes "src \<noteq> []" "chain m a (ps @ qs) b" "length ps = pages_of src" "distinct (ps @ qs)"
  shows "\<exists>m' e. store_pages m a src = Some (e, m') \<and> stored m' a ps src \<and> chain m' e qs b \<and>
    (\<forall>x. x \<notin> set ps \<longrightarrow> m' x = m x) \<and> dom m' = dom m"
  using assms
proof (induction ps arbitrary: m a src)
  case Nil
  then show ?case using pages_of_pos[of src] by simp
next
  case (Cons p ps)
  then obtain nx ct where p: "a = p" "m p = Some (nx, ct)" "length ct = 4088" "chain m nx (ps @ qs) b" by auto
  let ?ct = "blit ct 0 (take 4088 src)" and ?m = "m(p \<mapsto> (nx, blit ct 0 (take 4088 src)))"
  have ct: "length ?ct = 4088" "take (min (length src) 4088) ?ct = take 4088 src" using p(3) by (simp_all add: blit_def min_def)
  have step: "store_pages m a src = store_pages ?m nx (drop 4088 src)"
    using Cons.prems(1) p by (subst store_pages.simps) (simp add: wr_range_def)
  have ch: "chain ?m nx (ps @ qs) b" using p(4) Cons.prems(4) by (subst chain_cong) auto
  show ?case
  proof (cases "length src \<le> 4088")
    case True
    then have "(length src + 4087) div 4088 = 1" using Cons.prems(1) by (cases src) (auto simp: le_div_geq)
    then have "drop 4088 src = []" "ps = []" using True Cons.prems(1,3) by (auto simp: pages_of_def)
    then show ?thesis using step ch ct p by (auto simp: store_pages.simps)
  next
    case False
    then have ne: "drop 4088 src \<noteq> []" and len: "length ps = pages_of (drop 4088 src)" using Cons.prems(3) pages_of_step[of src] by auto
    have "distinct (ps @ qs)" using Cons.prems(4) by simp
    from Cons.IH[OF ne ch len this] obtain m' e where m': "store_pages ?m nx (drop 4088 src) = Some (e, m')" "stored m' nx ps (drop 4088 src)"
      "chain m' e qs b" "\<forall>x. x \<notin> set ps \<longrightarrow> m' x = ?m x" "dom m' = dom ?m" by blast
    have "m' p = Some (nx, ?ct)" using m'(4) Cons.prems(4) by auto
    then have "stored m' a (p # ps) src" using m'(2) ct p(1) by simp
    moreover have "\<forall>x. x \<notin> set (p # ps) \<longrightarrow> m' x = m x" using m'(4) by auto
    moreover have "dom m' = dom m" using m'(5) p(2) by auto
    ultimately show ?thesis using step m'(1,3) by auto
  qed
qed

end
