(* ===== verification/Cache_Correct.thy ===== *)
theory Cache_Correct
  imports Duck_Cache
begin

text \<open>
  Correctness of the object cache: a cache represents a list of objects sorted by digest, each with its
  own chain of pages, and a free list; together they are all pages of the cache. Lookup, storing with the
  removal of the least recently used objects, and loading are related to this representation, and through
  it to a finite map from digests to contents.
\<close>

section \<open>Representation\<close>

record obj =
  o_digest :: Digest256
  o_tsc :: u64
  o_pages :: "u64 list"
  o_data :: bytes

definition md_ok :: "(u64 \<rightharpoonup> u64 \<times> bytes) \<Rightarrow> Metadata \<Rightarrow> obj \<Rightarrow> bool" where
  "md_ok m md ob \<longleftrightarrow> last_used_tsc md = o_tsc ob \<and> o_tsc ob \<noteq> 0 \<and> md_len md = of_nat (length (o_data ob)) \<and>
     length (o_data ob) + 4087 < 2 ^ 64 \<and> length (o_pages ob) = pages_of (o_data ob) \<and> stored m (start_addr md) (o_pages ob) (o_data ob)"

lemma md_ok_cong: "\<forall>q \<in> set (o_pages ob). m' q = m q \<Longrightarrow> md_ok m' md ob = md_ok m md ob"
  by (simp add: md_ok_def stored_cong[of "o_pages ob" m' m])

text \<open>The arrays have their size, and their used part lists the objects in the order of their digests.\<close>

definition arrays_ok :: "DuckCache \<Rightarrow> obj list \<Rightarrow> bool" where
  "arrays_ok c os \<longleftrightarrow> length (obj_hash c) = n_max_objects c \<and> length (obj_digest c) = n_max_objects c \<and>
     length (obj_metadata c) = n_max_objects c \<and> n_cur_objects c = length os \<and> length os \<le> n_max_objects c \<and>
     take (length os) (obj_digest c) = map o_digest os \<and> take (length os) (obj_hash c) = map (\<lambda>ob. dg0 (o_digest ob)) os \<and>
     sorted_wrt (<) (map o_digest os)"

definition cache_rep :: "DuckCache \<Rightarrow> obj list \<Rightarrow> u64 list \<Rightarrow> bool" where
  "cache_rep c os fs \<longleftrightarrow> arrays_ok c os \<and> list_all2 (md_ok (pg c)) (take (length os) (obj_metadata c)) os \<and>
     chain (pg c) (free_list_addr c) fs 0 \<and> distinct (concat (map o_pages os) @ fs) \<and>
     length fs = n_free_pages c \<and> length (concat (map o_pages os)) + length fs = n_total_pages c"

definition contents :: "obj list \<Rightarrow> Digest256 \<rightharpoonup> bytes" where
  "contents os = map_of (map (\<lambda>ob. (o_digest ob, o_data ob)) os)"

lemma find_rep: "arrays_ok c os \<Longrightarrow> cache_find d c = Some (d \<in> o_digest ` set os, position d (map o_digest os))"
  by (subst find_spec[where ds = "map o_digest os"]) (auto simp: arrays_ok_def comp_def)

lemma distinct_digests: "arrays_ok c os \<Longrightarrow> distinct (map o_digest os)"
  by (simp add: arrays_ok_def strict_sorted_iff)

lemma contents_nth: "arrays_ok c os \<Longrightarrow> i < length os \<Longrightarrow> contents os (o_digest (os ! i)) = Some (o_data (os ! i))"
  using distinct_digests[of c os] by (auto simp: contents_def comp_def intro!: map_of_is_SomeI)

lemma contents_None: "contents os d = None \<longleftrightarrow> d \<notin> o_digest ` set os"
  by (simp add: contents_def map_of_eq_None_iff image_image)

lemma rep_nth:
  assumes "cache_rep c os fs" "i < length os"
  shows "md_ok (pg c) (obj_metadata c ! i) (os ! i)" "i < length (obj_metadata c)"
  using assms list_all2_nthD2[of "md_ok (pg c)" "take (length os) (obj_metadata c)" os i]
  by (auto simp: cache_rep_def arrays_ok_def)

section \<open>Loading\<close>

lemma load_rep:
  assumes rep: "cache_rep c os fs" and tsc: "tsc \<noteq> 0"
  shows "\<exists>c' os'. cache_load tsc d len c =
      Some (case contents os d of Some data \<Rightarrow> if of_nat (length data) = len then Some data else None | None \<Rightarrow> None, c') \<and>
    cache_rep c' os' fs \<and> contents os' = contents os"
proof -
  have arr: "arrays_ok c os" using rep by (simp add: cache_rep_def)
  let ?i = "position d (map o_digest os)"
  show ?thesis
  proof (cases "d \<in> o_digest ` set os")
    case False
    then show ?thesis using rep find_rep[OF arr, of d] contents_None[of os d] by (auto simp: cache_load_def)
  next
    case True
    then have i: "?i < length os" "o_digest (os ! ?i) = d"
      using position_mem[of "map o_digest os" d] arr by (auto simp: arrays_ok_def)
    note md = rep_nth[OF rep i(1)] and cont = contents_nth[OF arr i(1)]
    let ?md = "obj_metadata c ! ?i" and ?ob = "os ! ?i"
    show ?thesis
    proof (cases "md_len ?md = len")
      case False
      then show ?thesis using rep find_rep[OF arr, of d] True md cont i(2) by (auto simp: cache_load_def rd_def md_ok_def)
    next
      case len: True
      let ?c = "c\<lparr>obj_metadata := (obj_metadata c)[?i := ?md\<lparr>last_used_tsc := tsc\<rparr>]\<rparr>" and ?os = "os[?i := ?ob\<lparr>o_tsc := tsc\<rparr>]"
      have "unat len = length (o_data ?ob)" using len md(1) unat_of_nat_lt[of "length (o_data ?ob)", where 'a = 64] by (simp add: md_ok_def)
      then have load: "load_pages (pg c) (start_addr ?md) (unat len) = Some (o_data ?ob)"
        using md(1) load_stored[of "pg c" "start_addr ?md" "o_pages ?ob" "o_data ?ob"] by (simp add: md_ok_def)
      have same: "map o_digest ?os = map o_digest os" "map o_pages ?os = map o_pages os" "map o_data ?os = map o_data os"
        using i(1) by (simp_all add: map_update) (metis length_map list_update_id nth_map)+
      have dg: "map (\<lambda>ob. dg0 (o_digest ob)) ?os = map (\<lambda>ob. dg0 (o_digest ob)) os" using arg_cong[OF same(1), of "map dg0"] by (simp add: comp_def)
      have co: "contents ?os = contents os"
      proof -
        have z: "map (\<lambda>ob. (o_digest ob, o_data ob)) xs = zip (map o_digest xs) (map o_data xs)" for xs by (induction xs) auto
        show ?thesis by (simp only: contents_def z same)
      qed
      have "cache_rep ?c ?os fs"
      proof -
        have "md_ok (pg c) (?md\<lparr>last_used_tsc := tsc\<rparr>) (?ob\<lparr>o_tsc := tsc\<rparr>)" using md(1) tsc by (simp add: md_ok_def)
        then have "list_all2 (md_ok (pg c)) (take (length os) ((obj_metadata c)[?i := ?md\<lparr>last_used_tsc := tsc\<rparr>])) ?os"
          using rep by (simp add: cache_rep_def take_update_swap list_all2_update_cong)
        then show ?thesis using rep dg same by (simp add: cache_rep_def arrays_ok_def)
      qed
      moreover have "cache_load tsc d len c = Some (Some (o_data ?ob), ?c)"
        using find_rep[OF arr, of d] True len load md(2) by (simp add: cache_load_def rd_def wr_def)
      ultimately show ?thesis using cont i(2) co len md(1) by (auto simp: md_ok_def)
    qed
  qed
qed

section \<open>Removing objects\<close>

lemma distinct_concat_map:
  "distinct ks \<Longrightarrow> \<forall>i \<in> set ks. distinct (f i) \<Longrightarrow> \<forall>i \<in> set ks. \<forall>j \<in> set ks. i \<noteq> j \<longrightarrow> set (f i) \<inter> set (f j) = {} \<Longrightarrow>
    distinct (concat (map f ks))"
  by (induction ks) auto

lemma distinct_concat_nth:
  "distinct (concat xss) \<Longrightarrow> i < length xss \<Longrightarrow> j < length xss \<Longrightarrow> i \<noteq> j \<Longrightarrow> set (xss ! i) \<inter> set (xss ! j) = {}"
proof (induction xss arbitrary: i j)
  case (Cons xs xss)
  have "set xs \<inter> set (xss ! k) = {}" if "k < length xss" for k using Cons.prems(1) that by (auto simp: disjoint_iff) 
  then show ?case using Cons by (cases i; cases j) auto
qed simp

text \<open>Between the removal of objects and the closing of the gaps: the objects with an index in \<open>E\<close> are gone.\<close>

definition partial_rep :: "DuckCache \<Rightarrow> obj list \<Rightarrow> nat set \<Rightarrow> u64 list \<Rightarrow> bool" where
  "partial_rep c os E fs \<longleftrightarrow> arrays_ok c os \<and> E \<subseteq> {..<length os} \<and>
     (\<forall>i < length os. if i \<in> E then last_used_tsc (obj_metadata c ! i) = 0 else md_ok (pg c) (obj_metadata c ! i) (os ! i)) \<and>
     chain (pg c) (free_list_addr c) fs 0 \<and> distinct fs \<and>
     (\<forall>i < length os. i \<notin> E \<longrightarrow> distinct (o_pages (os ! i)) \<and> set (o_pages (os ! i)) \<inter> set fs = {} \<and>
        (\<forall>j < length os. j \<notin> E \<longrightarrow> i \<noteq> j \<longrightarrow> set (o_pages (os ! i)) \<inter> set (o_pages (os ! j)) = {})) \<and>
     length fs = n_free_pages c + (\<Sum>i \<in> E. length (o_pages (os ! i))) \<and>
     length fs + (\<Sum>i \<in> {..<length os} - E. length (o_pages (os ! i))) = n_total_pages c"

lemma rep_partial: "cache_rep c os fs \<Longrightarrow> partial_rep c os {} fs"
proof -
  assume rep: "cache_rep c os fs"
  have "length (concat (map o_pages os)) = (\<Sum>i \<in> {..<length os}. length (o_pages (os ! i)))"
    by (simp add: length_concat sum_list_sum_nth atLeast0LessThan)
  moreover have "distinct (o_pages (os ! i)) \<and> set (o_pages (os ! i)) \<inter> set fs = {} \<and>
      (\<forall>j < length os. i \<noteq> j \<longrightarrow> set (o_pages (os ! i)) \<inter> set (o_pages (os ! j)) = {})" if i: "i < length os" for i
  proof (intro conjI allI impI)
    have d: "distinct (concat (map o_pages os))" "set (concat (map o_pages os)) \<inter> set fs = {}" using rep by (auto simp: cache_rep_def)
    have "o_pages (os ! i) \<in> set (map o_pages os)" using i by simp
    then show "distinct (o_pages (os ! i))" using d(1) distinct_concat_iff by blast
    show "set (o_pages (os ! i)) \<inter> set fs = {}" using d(2) nth_mem[OF i] by (auto simp: disjoint_iff)
    fix j assume "j < length os" "i \<noteq> j"
    then show "set (o_pages (os ! i)) \<inter> set (o_pages (os ! j)) = {}" using distinct_concat_nth[OF d(1), of i j] i by simp
  qed
  ultimately show ?thesis using rep rep_nth(1)[OF rep] by (simp add: partial_rep_def cache_rep_def)
qed

lemma evict_one_rep:
  assumes rep: "partial_rep c os E fs" and i: "i < length os" "i \<notin> E"
  shows "\<exists>c'. evict_one i c = Some (length (o_pages (os ! i)), c') \<and> partial_rep c' os (insert i E) (o_pages (os ! i) @ fs) \<and>
    n_cur_objects c' = n_cur_objects c \<and> n_free_pages c' = n_free_pages c \<and> n_max_objects c' = n_max_objects c \<and>
    n_total_pages c' = n_total_pages c"
proof -
  let ?md = "obj_metadata c ! i" and ?ob = "os ! i"
  have md: "md_ok (pg c) ?md ?ob" and len: "i < length (obj_metadata c)" using rep i by (auto simp: partial_rep_def arrays_ok_def)
  have np: "n_pages_for (md_len ?md) = length (o_pages ?ob)" using md by (simp add: md_ok_def n_pages_for_length)
  obtain ps p where ps: "o_pages ?ob = ps @ [p]"
    using md pages_of_pos[of "o_data ?ob"] by (cases "o_pages ?ob" rule: rev_cases) (auto simp: md_ok_def)
  obtain b where ch: "chain (pg c) (start_addr ?md) (ps @ [p]) b" using md ps stored_chain by (fastforce simp: md_ok_def)
  then obtain nx ct where ct: "pg c p = Some (nx, ct)" by (auto simp: chain_append)
  have dist: "distinct (ps @ [p])" "set (ps @ [p]) \<inter> set fs = {}"
  proof -
    have "distinct (o_pages ?ob) \<and> set (o_pages ?ob) \<inter> set fs = {}" using rep i by (simp add: partial_rep_def)
    then show "distinct (ps @ [p])" "set (ps @ [p]) \<inter> set fs = {}" by (simp_all only: ps)
  qed
  have other: "p \<notin> set (o_pages (os ! j))" if "j < length os" "j \<notin> E" "j \<noteq> i" for j
  proof -
    have "set (o_pages ?ob) \<inter> set (o_pages (os ! j)) = {}" using rep i that by (simp add: partial_rep_def)
    then show ?thesis using ps by auto
  qed
  let ?pg = "(pg c)(p \<mapsto> (free_list_addr c, ct))"
  let ?c = "c\<lparr>obj_metadata := (obj_metadata c)[i := ?md\<lparr>last_used_tsc := 0\<rparr>], pg := ?pg, free_list_addr := start_addr ?md\<rparr>"
  have run: "evict_one i c = Some (length (o_pages ?ob), ?c)"
    using len np ps follow_chain[OF ch] ct by (simp add: evict_one_def rd_def wr_def set_link_def Let_def)
  have free: "chain ?pg (start_addr ?md) (o_pages ?ob @ fs) 0"
  proof -
    have "chain ?pg (start_addr ?md) (ps @ [p]) (free_list_addr c)" using relink[OF ch dist(1) ct] .
    moreover have "chain ?pg (free_list_addr c) fs 0" using rep dist(2) by (subst chain_cong) (auto simp: partial_rep_def)
    ultimately show ?thesis unfolding ps by (subst chain_append) blast
  qed
  have ok: "md_ok ?pg (obj_metadata c ! j) (os ! j)" if "j < length os" "j \<notin> E" "j \<noteq> i" for j
  proof -
    have old: "md_ok (pg c) (obj_metadata c ! j) (os ! j)" using rep that by (simp add: partial_rep_def)
    have agree: "\<forall>q \<in> set (o_pages (os ! j)). ?pg q = pg c q" using other[OF that] by auto
    have "md_ok ?pg (obj_metadata c ! j) (os ! j) = md_ok (pg c) (obj_metadata c ! j) (os ! j)" using agree by (rule md_ok_cong)
    then show ?thesis using old by (simp only:)
  qed
  have fin: "finite E" using rep by (auto simp: partial_rep_def intro: finite_subset)
  have sum1: "(\<Sum>j \<in> insert i E. length (o_pages (os ! j))) = length (o_pages ?ob) + (\<Sum>j \<in> E. length (o_pages (os ! j)))"
    using fin i by simp
  have sum2: "(\<Sum>j \<in> {..<length os} - E. length (o_pages (os ! j))) = length (o_pages ?ob) + (\<Sum>j \<in> {..<length os} - insert i E. length (o_pages (os ! j)))"
  proof -
    have S: "{..<length os} - E = insert i ({..<length os} - insert i E)" using i by auto
    show ?thesis by (subst S, subst sum.insert) simp_all
  qed
  have "partial_rep ?c os (insert i E) (o_pages ?ob @ fs)"
    unfolding partial_rep_def
  proof (intro conjI)
    show "arrays_ok ?c os" using rep by (simp add: partial_rep_def arrays_ok_def)
    show "insert i E \<subseteq> {..<length os}" using rep i by (auto simp: partial_rep_def)
    show "\<forall>j < length os. if j \<in> insert i E then last_used_tsc (obj_metadata ?c ! j) = 0 else md_ok (pg ?c) (obj_metadata ?c ! j) (os ! j)"
      using rep ok len by (auto simp: partial_rep_def nth_list_update)
    show "chain (pg ?c) (free_list_addr ?c) (o_pages ?ob @ fs) 0" using free by simp
    show "distinct (o_pages ?ob @ fs)" using rep dist ps by (auto simp: partial_rep_def)
    show "\<forall>j < length os. j \<notin> insert i E \<longrightarrow> distinct (o_pages (os ! j)) \<and> set (o_pages (os ! j)) \<inter> set (o_pages ?ob @ fs) = {} \<and>
        (\<forall>k < length os. k \<notin> insert i E \<longrightarrow> j \<noteq> k \<longrightarrow> set (o_pages (os ! j)) \<inter> set (o_pages (os ! k)) = {})"
    proof (intro allI impI)
      fix j assume j: "j < length os" "j \<notin> insert i E"
      have "distinct (o_pages (os ! j)) \<and> set (o_pages (os ! j)) \<inter> set fs = {} \<and>
        (\<forall>k < length os. k \<notin> E \<longrightarrow> j \<noteq> k \<longrightarrow> set (o_pages (os ! j)) \<inter> set (o_pages (os ! k)) = {})" using rep j by (simp add: partial_rep_def)
      moreover have "set (o_pages (os ! j)) \<inter> set (o_pages ?ob) = {}" using calculation i j by auto
      ultimately show "distinct (o_pages (os ! j)) \<and> set (o_pages (os ! j)) \<inter> set (o_pages ?ob @ fs) = {} \<and>
        (\<forall>k < length os. k \<notin> insert i E \<longrightarrow> j \<noteq> k \<longrightarrow> set (o_pages (os ! j)) \<inter> set (o_pages (os ! k)) = {})" by auto
    qed
  qed (use rep sum1 sum2 in \<open>simp_all add: partial_rep_def\<close>)
  then show ?thesis using run by (intro exI[of _ ?c]) simp
qed

text \<open>The loop removes objects from the front of the list of candidates, until there is room or none is left.\<close>

lemma evict_loop_rep:
  assumes "partial_rep c os E fs" "set ids \<inter> E = {}" "distinct ids" "set ids \<union> E = {..<length os}" "rp = (\<Sum>i \<in> E. length (o_pages (os ! i)))" "ro = card E"
  shows "\<exists>k c' fs'. evict_loop ids need rp ro c =
      Some (\<Sum>i \<in> E \<union> set (take k ids). length (o_pages (os ! i)), card (E \<union> set (take k ids)), c') \<and>
    partial_rep c' os (E \<union> set (take k ids)) fs' \<and>
    (need \<le> length fs' \<and> length os + 1 \<le> n_max_objects c + card (E \<union> set (take k ids)) \<or> E \<union> set (take k ids) = {..<length os}) \<and>
    n_cur_objects c' = n_cur_objects c \<and> n_free_pages c' = n_free_pages c \<and> n_max_objects c' = n_max_objects c \<and> n_total_pages c' = n_total_pages c"
  using assms
proof (induction ids arbitrary: c E fs rp ro)
  case Nil
  then show ?case by (intro exI[of _ 0] exI[of _ c] exI[of _ fs]) simp
next
  case (Cons i ids)
  have i: "i < length os" "i \<notin> E" using Cons.prems(2,4) by auto
  obtain c1 where c1: "evict_one i c = Some (length (o_pages (os ! i)), c1)" "partial_rep c1 os (insert i E) (o_pages (os ! i) @ fs)"
    "n_cur_objects c1 = n_cur_objects c" "n_free_pages c1 = n_free_pages c" "n_max_objects c1 = n_max_objects c" "n_total_pages c1 = n_total_pages c"
    using evict_one_rep[OF Cons.prems(1) i] by blast
  have fin: "finite E" using Cons.prems(1) by (auto simp: partial_rep_def intro: finite_subset)
  have sm: "rp + length (o_pages (os ! i)) = (\<Sum>i \<in> insert i E. length (o_pages (os ! i)))" "ro + 1 = card (insert i E)"
    using fin i Cons.prems(5,6) by simp_all
  have len: "length (o_pages (os ! i) @ fs) = n_free_pages c + (rp + length (o_pages (os ! i)))" "n_cur_objects c = length os"
    using c1(2,4) sm Cons.prems(1) by (simp_all add: partial_rep_def arrays_ok_def)
  show ?case
  proof (cases "need > n_free_pages c + (rp + length (o_pages (os ! i))) \<or> n_cur_objects c + 1 > n_max_objects c + (ro + 1)")
    case False
    then have "evict_loop (i # ids) need rp ro c = Some (rp + length (o_pages (os ! i)), ro + 1, c1)"
      using c1 by (simp add: Let_def)
    then show ?thesis using False c1 sm len by (intro exI[of _ 1] exI[of _ c1] exI[of _ "o_pages (os ! i) @ fs"]) auto
  next
    case True
    then have run: "evict_loop (i # ids) need rp ro c = evict_loop ids need (rp + length (o_pages (os ! i))) (ro + 1) c1"
      using c1 by (auto simp: Let_def)
    have U: "insert i E \<union> set (take k ids) = E \<union> set (take (Suc k) (i # ids))" for k by auto
    have "set ids \<inter> insert i E = {}" "distinct ids" "set ids \<union> insert i E = {..<length os}" using Cons.prems(2-4) by auto
    from Cons.IH[OF c1(2) this sm] obtain k c' fs' where
      k: "evict_loop ids need (rp + length (o_pages (os ! i))) (ro + 1) c1 =
        Some (\<Sum>i \<in> E \<union> set (take (Suc k) (i # ids)). length (o_pages (os ! i)), card (E \<union> set (take (Suc k) (i # ids))), c')"
      "partial_rep c' os (E \<union> set (take (Suc k) (i # ids))) fs'"
      "need \<le> length fs' \<and> length os + 1 \<le> n_max_objects c + card (E \<union> set (take (Suc k) (i # ids))) \<or> E \<union> set (take (Suc k) (i # ids)) = {..<length os}"
      "n_cur_objects c' = n_cur_objects c \<and> n_free_pages c' = n_free_pages c \<and> n_max_objects c' = n_max_objects c \<and> n_total_pages c' = n_total_pages c"
      unfolding U c1(3-6) by blast
    then show ?thesis unfolding run by blast
  qed
qed

section \<open>Closing the gaps\<close>

definition kept :: "nat set \<Rightarrow> nat \<Rightarrow> nat list" where
  "kept E n = filter (\<lambda>i. i \<notin> E) [0..<n]"

lemma kept_Suc: "kept E (Suc n) = kept E n @ (if n \<in> E then [] else [n])"
  by (simp add: kept_def)

lemma length_kept_le: "length (kept E n) \<le> n"
  by (simp add: kept_def) (metis length_filter_le length_upt diff_zero)

text \<open>One array of the loop: the kept entries so far are at the front, the ones to come are untouched.\<close>

definition compacted :: "nat set \<Rightarrow> nat \<Rightarrow> 'a list \<Rightarrow> 'a list \<Rightarrow> bool" where
  "compacted E i xs ys \<longleftrightarrow> length ys = length xs \<and> take (length (kept E i)) ys = map ((!) xs) (kept E i) \<and>
     (\<forall>j. i \<le> j \<and> j < length xs \<longrightarrow> ys ! j = xs ! j)"

lemma compacted_skip: "compacted E i xs ys \<Longrightarrow> i \<in> E \<Longrightarrow> compacted E (Suc i) xs ys"
  by (simp add: compacted_def kept_Suc)

lemma compacted_keep:
  assumes "compacted E i xs ys" "i \<notin> E" "i < length xs"
  shows "ys ! i = xs ! i" "compacted E (Suc i) xs (ys[length (kept E i) := xs ! i])"
proof -
  show "ys ! i = xs ! i" using assms by (simp add: compacted_def)
  let ?k = "length (kept E i)"
  have k: "?k < length ys" using assms length_kept_le[of E i] by (simp add: compacted_def)
  have "take (Suc ?k) (ys[?k := xs ! i]) = take ?k ys @ [xs ! i]" using k by (simp add: take_Suc_conv_app_nth)
  then show "compacted E (Suc i) xs (ys[?k := xs ! i])"
    using assms length_kept_le[of E i] by (auto simp: compacted_def kept_Suc nth_list_update)
qed

lemma defrag_rep:
  assumes rep: "partial_rep c os E fs"
  shows "\<exists>hs ds mds. defrag c = Some (c\<lparr>obj_hash := hs, obj_digest := ds, obj_metadata := mds\<rparr>) \<and>
    compacted E (length os) (obj_hash c) hs \<and> compacted E (length os) (obj_digest c) ds \<and> compacted E (length os) (obj_metadata c) mds"
proof -
  let ?f = "\<lambda>i (j, hs, ds, mds). do {
         md \<leftarrow> rd mds i;
         if last_used_tsc md = 0 then Some (j, hs, ds, mds)
         else do {
           h \<leftarrow> rd hs i; hs \<leftarrow> wr hs j h;
           d \<leftarrow> rd ds i; ds \<leftarrow> wr ds j d;
           mds \<leftarrow> wr mds j md;
           Some (j + 1, hs, ds, mds)
         }
       }"
  let ?P = "\<lambda>i (j, hs, ds, mds). j = length (kept E i) \<and> compacted E i (obj_hash c) hs \<and> compacted E i (obj_digest c) ds \<and> compacted E i (obj_metadata c) mds"
  have lens: "length (obj_hash c) = n_max_objects c" "length (obj_digest c) = n_max_objects c" "length (obj_metadata c) = n_max_objects c"
    "length os \<le> n_max_objects c" "n_cur_objects c = length os" using rep by (simp_all add: partial_rep_def arrays_ok_def)
  have "\<exists>s'. for_opt ?f [0..<length os] (0, obj_hash c, obj_digest c, obj_metadata c) = Some s' \<and> ?P (length os) s'"
  proof (rule for_opt_upt_inv[where P = ?P])
    fix i s assume i: "i < length os" and P: "?P i s"
    obtain j hs ds mds where s: "s = (j, hs, ds, mds)" by (cases s)
    have lt: "i < length hs" "i < length ds" "i < length mds" "i < length (obj_hash c)" "i < length (obj_digest c)" "i < length (obj_metadata c)"
      using P s i lens by (auto simp: compacted_def)
    have jle: "j \<le> i" using P s length_kept_le[of E i] by simp
    have md: "mds ! i = obj_metadata c ! i" using P s lt by (simp add: compacted_def)
    have iff: "last_used_tsc (obj_metadata c ! i) = 0 \<longleftrightarrow> i \<in> E"
      using rep i by (auto simp: partial_rep_def md_ok_def split: if_splits)
    have C: "compacted E i (obj_hash c) hs" "compacted E i (obj_digest c) ds" "compacted E i (obj_metadata c) mds" and j: "j = length (kept E i)"
      using P s by simp_all
    show "\<exists>s'. ?f i s = Some s' \<and> ?P (Suc i) s'"
    proof (cases "i \<in> E")
      case True
      then have "?f i s = Some s" "kept E (Suc i) = kept E i" using s lt md iff by (simp_all add: rd_def kept_Suc)
      then show ?thesis using s j C[THEN compacted_skip, OF True] by (intro exI[of _ s]) simp
    next
      case False
      let ?s = "(j + 1, hs[j := obj_hash c ! i], ds[j := obj_digest c ! i], mds[j := obj_metadata c ! i])"
      have "?f i s = Some ?s"
        using s lt md iff False jle compacted_keep(1)[OF C(1) False lt(4)] compacted_keep(1)[OF C(2) False lt(5)] by (simp add: rd_def wr_def)
      moreover have "?P (Suc i) ?s"
        using compacted_keep(2)[OF C(1) False lt(4)] compacted_keep(2)[OF C(2) False lt(5)] compacted_keep(2)[OF C(3) False lt(6)] False
        by (simp add: j kept_Suc)
      ultimately show ?thesis by blast
    qed
  qed (simp_all add: compacted_def kept_def)
  then obtain hs ds mds where "for_opt ?f [0..<length os] (0, obj_hash c, obj_digest c, obj_metadata c) = Some (length (kept E (length os)), hs, ds, mds)"
    "compacted E (length os) (obj_hash c) hs" "compacted E (length os) (obj_digest c) ds" "compacted E (length os) (obj_metadata c) mds"
    by auto
  then show ?thesis using lens(5) by (intro exI[of _ hs] exI[of _ ds] exI[of _ mds]) (simp add: defrag_def)
qed

lemma set_kept: "set (kept E n) = {..<n} - E" and distinct_kept: "distinct (kept E n)"
  by (auto simp: kept_def)

lemma length_kept: "E \<subseteq> {..<n} \<Longrightarrow> length (kept E n) = n - card E"
  using distinct_card[OF distinct_kept, of E n] by (simp add: set_kept card_Diff_subset finite_subset)

lemma rep_after_defrag:
  assumes rep: "partial_rep c os E fs"
    and hs: "compacted E (length os) (obj_hash c) hs" and ds: "compacted E (length os) (obj_digest c) ds" and mds: "compacted E (length os) (obj_metadata c) mds"
  shows "cache_rep (c\<lparr>obj_hash := hs, obj_digest := ds, obj_metadata := mds, n_cur_objects := n_cur_objects c - card E,
      n_free_pages := n_free_pages c + (\<Sum>i \<in> E. length (o_pages (os ! i)))\<rparr>) (map ((!) os) (kept E (length os))) fs"
proof -
  let ?k = "kept E (length os)" and ?os = "map ((!) os) (kept E (length os))"
  have arr: "arrays_ok c os" and E: "E \<subseteq> {..<length os}" using rep by (simp_all add: partial_rep_def)
  have lk: "length ?k = length os - card E" "length ?k \<le> length os" using length_kept[OF E] length_kept_le[of E "length os"] by auto
  have mem: "i < length os" "i \<notin> E" if "i \<in> set ?k" for i using that by (auto simp: set_kept)
  have dg: "obj_digest c ! i = o_digest (os ! i)" "obj_hash c ! i = dg0 (o_digest (os ! i))" if "i < length os" for i
    using arr that by (auto simp: arrays_ok_def dest!: arg_cong[where f = "\<lambda>xs. xs ! i"])
  have "sorted_wrt (<) (map o_digest ?os)"
  proof -
    have "sorted_wrt (<) (map (\<lambda>i. o_digest (os ! i)) [0..<length os])"
      using arr map_nth[of os] by (simp add: arrays_ok_def) (metis (no_types, lifting) map_map map_nth comp_apply map_cong)
    then show ?thesis by (simp add: kept_def sorted_wrt_map sorted_wrt_filter)
  qed
  then have "arrays_ok (c\<lparr>obj_hash := hs, obj_digest := ds, obj_metadata := mds, n_cur_objects := n_cur_objects c - card E,
      n_free_pages := n_free_pages c + (\<Sum>i \<in> E. length (o_pages (os ! i)))\<rparr>) ?os"
    using arr hs ds mds lk dg mem by (auto simp: arrays_ok_def compacted_def)
  moreover have "list_all2 (md_ok (pg c)) (take (length ?os) mds) ?os"
  proof -
    have "take (length ?os) mds = map ((!) (obj_metadata c)) ?k" using mds by (simp add: compacted_def)
    moreover have "md_ok (pg c) (obj_metadata c ! i) (os ! i)" if "i \<in> set ?k" for i using rep mem[OF that] by (simp add: partial_rep_def)
    ultimately show ?thesis by (simp add: list_all2_map1 list_all2_map2 list.rel_refl_strong)
  qed
  moreover have "distinct (concat (map o_pages ?os) @ fs)"
  proof -
    have p: "distinct (o_pages (os ! i)) \<and> set (o_pages (os ! i)) \<inter> set fs = {} \<and>
        (\<forall>j < length os. j \<notin> E \<longrightarrow> i \<noteq> j \<longrightarrow> set (o_pages (os ! i)) \<inter> set (o_pages (os ! j)) = {})" if "i \<in> set ?k" for i
      using rep mem[OF that] by (simp add: partial_rep_def)
    have "distinct (concat (map (\<lambda>i. o_pages (os ! i)) ?k))"
      by (rule distinct_concat_map[OF distinct_kept]) (use p mem in blast)+
    moreover have "set (concat (map (\<lambda>i. o_pages (os ! i)) ?k)) \<inter> set fs = {}" using p by (auto simp: disjoint_iff)
    moreover have "distinct fs" using rep by (simp add: partial_rep_def)
    ultimately show ?thesis by (simp add: comp_def)
  qed
  moreover have "length (concat (map o_pages ?os)) = (\<Sum>i \<in> {..<length os} - E. length (o_pages (os ! i)))"
    by (simp add: length_concat comp_def sum_list_distinct_conv_sum_set[OF distinct_kept] set_kept)
  ultimately show ?thesis using rep by (simp add: cache_rep_def partial_rep_def)
qed

text \<open>Making room removes the least recently used objects.\<close>

definition older :: "obj list \<Rightarrow> nat set \<Rightarrow> bool" where
  "older os E \<longleftrightarrow> E \<subseteq> {..<length os} \<and> (\<forall>i \<in> E. \<forall>j \<in> {..<length os} - E. o_tsc (os ! i) \<le> o_tsc (os ! j))"

lemma sort_ids_facts: "distinct (sort_ids c)" "set (sort_ids c) = {..<n_cur_objects c}"
  "sorted (map (\<lambda>i. last_used_tsc (obj_metadata c ! i)) (sort_ids c))"
  by (auto simp: sort_ids_def)

lemma make_room_rep:
  assumes rep: "cache_rep c os fs" and need: "need \<le> n_total_pages c" and max: "0 < n_max_objects c" and d: "d \<notin> o_digest ` set os"
  shows "\<exists>E c' fs'. make_room need d c = Some (position d (map o_digest (map ((!) os) (kept E (length os)))), c') \<and>
    cache_rep c' (map ((!) os) (kept E (length os))) fs' \<and> need \<le> length fs' \<and> length (kept E (length os)) < n_max_objects c' \<and>
    n_max_objects c' = n_max_objects c \<and> n_total_pages c' = n_total_pages c \<and> older os E"
proof -
  have arr: "arrays_ok c os" using rep by (simp add: cache_rep_def)
  then have n: "n_cur_objects c = length os" "length os \<le> n_max_objects c" "n_cur_objects c \<le> length (obj_metadata c)" by (simp_all add: arrays_ok_def)
  let ?ids = "sort_ids c"
  obtain k c1 fs1 where ev: "evict_loop ?ids need 0 0 c = Some (\<Sum>i \<in> set (take k ?ids). length (o_pages (os ! i)), card (set (take k ?ids)), c1)"
    "partial_rep c1 os (set (take k ?ids)) fs1"
    "need \<le> length fs1 \<and> length os + 1 \<le> n_max_objects c + card (set (take k ?ids)) \<or> set (take k ?ids) = {..<length os}"
    "n_cur_objects c1 = n_cur_objects c" "n_free_pages c1 = n_free_pages c" "n_max_objects c1 = n_max_objects c" "n_total_pages c1 = n_total_pages c"
    using evict_loop_rep[OF rep_partial[OF rep], of ?ids 0 0 need] sort_ids_facts[of c] n(1) by auto
  define E where "E = set (take k ?ids)"
  note ev = ev[folded E_def]
  obtain hs ds mds where df: "defrag c1 = Some (c1\<lparr>obj_hash := hs, obj_digest := ds, obj_metadata := mds\<rparr>)"
    "compacted E (length os) (obj_hash c1) hs" "compacted E (length os) (obj_digest c1) ds" "compacted E (length os) (obj_metadata c1) mds"
    using defrag_rep[OF ev(2)] by blast
  let ?c = "c1\<lparr>obj_hash := hs, obj_digest := ds, obj_metadata := mds, n_cur_objects := n_cur_objects c1 - card E,
      n_free_pages := n_free_pages c1 + (\<Sum>i \<in> E. length (o_pages (os ! i)))\<rparr>"
  let ?os = "map ((!) os) (kept E (length os))"
  have rep': "cache_rep ?c ?os fs1" by (rule rep_after_defrag[OF ev(2) df(2-4)])
  have E: "E \<subseteq> {..<length os}" "finite E" using ev(2) by (auto simp: partial_rep_def intro: finite_subset)
  have "d \<notin> o_digest ` set ?os" using d by (auto simp: set_kept)
  then have find: "cache_find d ?c = Some (False, position d (map o_digest ?os))"
    using find_rep[of ?c ?os d] rep' by (simp add: cache_rep_def)
  have run: "make_room need d c = Some (position d (map o_digest ?os), ?c)"
    using n(3) ev(1) df(1) find by (simp add: make_room_def Let_def opt_simps)
  have room: "need \<le> length fs1 \<and> length (kept E (length os)) < n_max_objects c"
  proof (cases "E = {..<length os}")
    case True
    then have "length fs1 = n_total_pages c" using ev(2,7) by (simp add: partial_rep_def)
    then show ?thesis using True need max by (simp add: kept_def)
  next
    case False
    then show ?thesis using ev(3) length_kept[OF E(1)] card_mono[OF _ E(1)] by auto
  qed
  have "older os E"
  proof -
    have tsc: "last_used_tsc (obj_metadata c ! i) = o_tsc (os ! i)" if "i < length os" for i using rep_nth(1)[OF rep that] by (simp add: md_ok_def)
    have "o_tsc (os ! i) \<le> o_tsc (os ! j)" if "i \<in> E" "j \<in> {..<length os} - E" for i j
    proof -
      have "sorted (map (\<lambda>i. last_used_tsc (obj_metadata c ! i)) (take k ?ids) @ map (\<lambda>i. last_used_tsc (obj_metadata c ! i)) (drop k ?ids))"
        using sort_ids_facts(3)[of c] by (simp flip: map_append)
      moreover have "j \<in> set (drop k ?ids)" using that sort_ids_facts(2)[of c] n(1) set_append[of "take k ?ids" "drop k ?ids"] by (auto simp: E_def)
      ultimately have "last_used_tsc (obj_metadata c ! i) \<le> last_used_tsc (obj_metadata c ! j)"
        using that(1) unfolding sorted_append E_def by auto
      then show ?thesis using tsc that E(1) by auto
    qed
    then show ?thesis using E(1) by (auto simp: older_def)
  qed
  then show ?thesis using run rep' room ev(6,7) by (intro exI[of _ E] exI[of _ ?c] exI[of _ fs1]) simp
qed

section \<open>Storing an object\<close>

lemma insert_at_take:
  assumes "idx \<le> n" "n < length xs"
  shows "\<exists>ys. insert_at idx n x xs = Some ys \<and> length ys = length xs \<and> take (n + 1) ys = take idx (take n xs) @ x # drop idx (take n xs)"
proof -
  let ?ys = "(blit xs (idx + 1) (take (n - idx) (drop idx xs)))[idx := x]"
  have "length (blit xs (idx + 1) (take (n - idx) (drop idx xs))) = length xs" using assms by (simp add: blit_def)
  then have "insert_at idx n x xs = Some ?ys" "length ?ys = length xs"
    using assms by (simp_all add: insert_at_def rd_range_def wr_range_def wr_def opt_simps)
  then show ?thesis using table_insert[OF assms, of x] assms by simp
qed

lemma store_any:
  assumes "chain m a (ps @ qs) b" "length ps = pages_of src" "distinct (ps @ qs)"
  shows "\<exists>m' e e'. store_pages m a src = Some (e, m') \<and> (if src = [] then map_option fst (m' e) else Some e) = Some e' \<and>
    stored m' a ps src \<and> chain m' e' qs b \<and> (\<forall>x. x \<notin> set ps \<longrightarrow> m' x = m x)"
proof (cases "src = []")
  case True
  then obtain p where p: "ps = [p]" using assms(2) by (auto simp: pages_of_def length_Suc_conv)
  then show ?thesis using True assms(1) by (auto simp: store_pages.simps)
next
  case False
  then show ?thesis using store_chain[OF False assms] by fastforce
qed

definition inserted :: "nat \<Rightarrow> 'a \<Rightarrow> 'a list \<Rightarrow> 'a list" where
  "inserted idx x xs = take idx xs @ x # drop idx xs"

lemma set_inserted: "set (inserted idx x xs) = insert x (set xs)"
  using set_append[of "take idx xs" "drop idx xs"] by (auto simp: inserted_def)

lemma map_inserted: "map f (inserted idx x xs) = inserted idx (f x) (map f xs)"
  by (simp add: inserted_def take_map drop_map)

lemma length_inserted: "length (inserted idx x xs) = Suc (length xs)"
  by (simp add: inserted_def)

lemma list_all2_inserted: "list_all2 P xs ys \<Longrightarrow> P x y \<Longrightarrow> list_all2 P (inserted idx x xs) (inserted idx y ys)"
  by (simp add: inserted_def list_all2_appendI list_all2_takeI list_all2_dropI)

lemma sorted_inserted:
  "sorted_wrt (<) xs \<Longrightarrow> d \<notin> set (xs :: Digest256 list) \<Longrightarrow> sorted_wrt (<) (inserted (position d xs) d xs)"
proof (induction xs)
  case Nil
  show ?case by (simp add: inserted_def)
next
  case (Cons x xs)
  show ?case
  proof (cases "x < d")
    case True
    then have "inserted (position d (x # xs)) d (x # xs) = x # inserted (position d xs) d xs" by (simp add: inserted_def position_def)
    then show ?thesis using Cons True by (simp add: set_inserted)
  next
    case False
    then have "inserted (position d (x # xs)) d (x # xs) = d # x # xs" by (simp add: inserted_def position_def)
    then show ?thesis using Cons.prems False by auto
  qed
qed

lemma concat_inserted:
  assumes "distinct (concat xs @ ps @ qs)"
  shows "distinct (concat (inserted idx ps xs) @ qs)" "length (concat (inserted idx ps xs)) = length (concat xs) + length ps"
proof -
  have split: "concat xs = concat (take idx xs) @ concat (drop idx xs)" by (simp flip: concat_append)
  show "distinct (concat (inserted idx ps xs) @ qs)" using assms unfolding split inserted_def by auto
  show "length (concat (inserted idx ps xs)) = length (concat xs) + length ps" unfolding split inserted_def by simp
qed

lemma put_object_rep:
  assumes rep: "cache_rep c os fs" and k: "k = pages_of src" "k \<le> length fs" and max: "length os < n_max_objects c"
    and d: "d \<notin> o_digest ` set os" and tsc: "tsc \<noteq> 0" and len: "length src + 4087 < 2 ^ 64"
    and idx: "idx = position d (map o_digest os)" and new: "new = \<lparr>o_digest = d, o_tsc = tsc, o_pages = take k fs, o_data = src\<rparr>"
  shows "\<exists>c'. put_object tsc d src k idx c = Some c' \<and> cache_rep c' (inserted idx new os) (drop k fs) \<and>
    n_max_objects c' = n_max_objects c \<and> n_total_pages c' = n_total_pages c"
proof -
  have arr: "arrays_ok c os" using rep by (simp add: cache_rep_def)
  have n: "n_cur_objects c = length os" "idx \<le> length os" using arr position_le[of d "map o_digest os"] idx by (simp_all add: arrays_ok_def)
  let ?md = "\<lparr>last_used_tsc = tsc, start_addr = free_list_addr c, md_len = of_nat (length src)\<rparr>"
  have lens: "length os < length (obj_hash c)" "length os < length (obj_digest c)" "length os < length (obj_metadata c)"
    using arr max by (simp_all add: arrays_ok_def)
  obtain hs ds mds where ins: "insert_at idx (n_cur_objects c) (dg0 d) (obj_hash c) = Some hs" "insert_at idx (n_cur_objects c) d (obj_digest c) = Some ds"
      "insert_at idx (n_cur_objects c) ?md (obj_metadata c) = Some mds"
    and il: "length hs = length (obj_hash c)" "length ds = length (obj_digest c)" "length mds = length (obj_metadata c)"
    and it: "take (Suc (length os)) hs = inserted idx (dg0 d) (take (length os) (obj_hash c))"
      "take (Suc (length os)) ds = inserted idx d (take (length os) (obj_digest c))"
      "take (Suc (length os)) mds = inserted idx ?md (take (length os) (obj_metadata c))"
    using insert_at_take[OF n(2) lens(1), of "dg0 d"] insert_at_take[OF n(2) lens(2), of d] insert_at_take[OF n(2) lens(3), of ?md]
    unfolding n(1) inserted_def by auto
  have fs: "chain (pg c) (free_list_addr c) (take k fs @ drop k fs) 0" "length (take k fs) = pages_of src" "distinct (take k fs @ drop k fs)"
    using rep k by (simp_all add: cache_rep_def)
  obtain m' e e' where st: "store_pages (pg c) (free_list_addr c) src = Some (e, m')"
      "(if src = [] then map_option fst (m' e) else Some e) = Some e'" "stored m' (free_list_addr c) (take k fs) src"
      "chain m' e' (drop k fs) 0" "\<forall>x. x \<notin> set (take k fs) \<longrightarrow> m' x = pg c x"
    using store_any[OF fs] by blast
  let ?c = "c\<lparr>obj_hash := hs, obj_digest := ds, obj_metadata := mds, n_cur_objects := n_cur_objects c + 1,
       pg := m', n_free_pages := n_free_pages c - k, free_list_addr := e'\<rparr>"
  have run: "put_object tsc d src k idx c = Some ?c" using ins st(1,2) by (simp add: put_object_def opt_simps)
  have "sorted_wrt (<) (inserted idx d (map o_digest os))"
    unfolding idx by (rule sorted_inserted) (use arr d in \<open>auto simp: arrays_ok_def\<close>)
  then have "arrays_ok ?c (inserted idx new os)"
    using arr max il it new by (simp add: arrays_ok_def length_inserted map_inserted)
  moreover have "list_all2 (md_ok m') (take (Suc (length os)) mds) (inserted idx new os)"
  proof -
    have "md_ok m' (obj_metadata c ! i) (os ! i)" if "i < length os" for i
    proof -
      have "set (o_pages (os ! i)) \<inter> set fs = {}" using rep nth_mem[OF that] by (auto simp: cache_rep_def disjoint_iff)
      then have "\<forall>q \<in> set (o_pages (os ! i)). m' q = pg c q" using st(5) in_set_takeD by (metis disjoint_iff)
      from md_ok_cong[OF this] show ?thesis using rep_nth(1)[OF rep that] by blast
    qed
    then have "list_all2 (md_ok m') (take (length os) (obj_metadata c)) os" using lens(3) by (simp add: list_all2_conv_all_nth)
    moreover have "md_ok m' ?md new" using new tsc len st(3) fs(2) by (simp add: md_ok_def)
    ultimately show ?thesis unfolding it by (rule list_all2_inserted)
  qed
  moreover have "distinct (concat (map o_pages (inserted idx new os)) @ drop k fs)"
    "length (concat (map o_pages (inserted idx new os))) = length (concat (map o_pages os)) + k"
    using concat_inserted[of "map o_pages os" "take k fs" "drop k fs" idx] rep new k by (simp_all add: cache_rep_def map_inserted)
  ultimately have "cache_rep ?c (inserted idx new os) (drop k fs)" using rep st(4) k by (simp add: cache_rep_def length_inserted)
  then show ?thesis using run by simp
qed

lemma distinct_inserted_digests: "cache_rep c os fs \<Longrightarrow> distinct (map o_digest os)"
  using distinct_digests[of c os] by (simp add: cache_rep_def)

lemma contents_eqI:
  assumes "distinct (map o_digest os)" "\<And>ob. ob \<in> set os \<Longrightarrow> f (o_digest ob) = Some (o_data ob)" "\<And>d. d \<notin> o_digest ` set os \<Longrightarrow> f d = None"
  shows "contents os = f"
proof
  fix d
  show "contents os d = f d"
  proof (cases "d \<in> o_digest ` set os")
    case True
    then obtain ob where ob: "ob \<in> set os" "d = o_digest ob" by auto
    then have "contents os d = Some (o_data ob)" unfolding contents_def using assms(1) by (auto simp: comp_def intro!: map_of_is_SomeI)
    then show ?thesis using assms(2) ob by simp
  qed (simp add: assms(3) contents_None)
qed

lemma contents_mem: "distinct (map o_digest os) \<Longrightarrow> ob \<in> set os \<Longrightarrow> contents os (o_digest ob) = Some (o_data ob)"
  unfolding contents_def by (auto simp: comp_def intro!: map_of_is_SomeI)

lemma contents_inserted:
  assumes "distinct (map o_digest (inserted idx new os))" "distinct (map o_digest os)"
  shows "contents (inserted idx new os) = (contents os)(o_digest new \<mapsto> o_data new)"
proof (rule contents_eqI[OF assms(1)])
  have sub: "o_digest new \<notin> o_digest ` set os"
    using assms(1) set_append[of "take idx os" "drop idx os"] by (auto simp: inserted_def)
  show "((contents os)(o_digest new \<mapsto> o_data new)) (o_digest ob) = Some (o_data ob)" if "ob \<in> set (inserted idx new os)" for ob
  proof (cases "ob = new")
    case False
    then have ob: "ob \<in> set os" using that by (simp add: set_inserted)
    then have "o_digest ob \<noteq> o_digest new" using sub by (metis imageI)
    then show ?thesis using contents_mem[OF assms(2) ob] by simp
  qed simp
  show "((contents os)(o_digest new \<mapsto> o_data new)) d = None" if "d \<notin> o_digest ` set (inserted idx new os)" for d
    using that contents_None[of os d] by (auto simp: set_inserted)
qed

text \<open>The digests of the objects at the given indices.\<close>

definition digests_at :: "obj list \<Rightarrow> nat set \<Rightarrow> Digest256 set" where
  "digests_at os E = (\<lambda>i. o_digest (os ! i)) ` E"

lemma contents_kept:
  assumes "distinct (map o_digest os)" "E \<subseteq> {..<length os}" "distinct (map o_digest (map ((!) os) (kept E (length os))))"
  shows "contents (map ((!) os) (kept E (length os))) = contents os |` (- digests_at os E)"
proof (rule contents_eqI[OF assms(3)])
  show "(contents os |` (- digests_at os E)) (o_digest ob) = Some (o_data ob)" if "ob \<in> set (map ((!) os) (kept E (length os)))" for ob
  proof -
    from that have "ob \<in> (!) os ` ({..<length os} - E)" by (simp only: set_map set_kept)
    then obtain i where i: "ob = os ! i" "i < length os" "i \<notin> E" by auto
    have "o_digest (os ! i) \<noteq> o_digest (os ! j)" if "j \<in> E" for j
      using assms(1,2) i that nth_eq_iff_index_eq[OF assms(1), of i j] by auto
    then have "o_digest ob \<notin> digests_at os E" using i by (auto simp: digests_at_def)
    then show ?thesis using contents_mem[OF assms(1), of ob] i by (simp add: restrict_map_def)
  qed
  show "(contents os |` (- digests_at os E)) d = None" if out: "d \<notin> o_digest ` set (map ((!) os) (kept E (length os)))" for d
  proof (cases "d \<in> o_digest ` set os")
    case True
    then obtain i where i: "i < length os" "d = o_digest (os ! i)" by (auto simp: in_set_conv_nth)
    then have "i \<in> E" using out by (auto simp: set_kept)
    then show ?thesis using i by (simp add: restrict_map_def digests_at_def)
  qed (simp add: restrict_map_def contents_None)
qed

text \<open>The whole of a store that misses: some of the oldest objects go, then the object is added.\<close>

lemma store_miss:
  assumes rep: "cache_rep c os fs" and need: "pages_of src \<le> n_total_pages c" and max: "0 < n_max_objects c"
    and d: "d \<notin> o_digest ` set os" and tsc: "tsc \<noteq> 0" and len: "length src + 4087 < 2 ^ 64"
  shows "\<exists>c' os' fs' E. cache_store tsc d src c = Some (True, c') \<and> cache_rep c' os' fs' \<and> older os E \<and>
    (pages_of src \<le> n_free_pages c \<and> n_cur_objects c < n_max_objects c \<longrightarrow> E = {}) \<and>
    contents os' = (contents os |` (- digests_at os E))(d \<mapsto> src) \<and> n_max_objects c' = n_max_objects c \<and> n_total_pages c' = n_total_pages c"
proof -
  let ?k = "pages_of src"
  have arr: "arrays_ok c os" using rep by (simp add: cache_rep_def)
  let ?P = "\<lambda>c0 os0 fs0 E. older os E \<and> cache_rep c0 os0 fs0 \<and> os0 = map ((!) os) (kept E (length os)) \<and> ?k \<le> length fs0 \<and>
    length os0 < n_max_objects c0 \<and> n_max_objects c0 = n_max_objects c \<and> n_total_pages c0 = n_total_pages c"
  have "\<exists>c0 os0 fs0 E. (if ?k > n_free_pages c \<or> n_cur_objects c + 1 > n_max_objects c then make_room ?k d c
      else Some (position d (map o_digest os), c)) = Some (position d (map o_digest os0), c0) \<and> ?P c0 os0 fs0 E \<and>
      (?k \<le> n_free_pages c \<and> n_cur_objects c < n_max_objects c \<longrightarrow> E = {})"
  proof (cases "?k > n_free_pages c \<or> n_cur_objects c + 1 > n_max_objects c")
    case True
    obtain E c0 fs0 where mr: "make_room ?k d c = Some (position d (map o_digest (map ((!) os) (kept E (length os)))), c0)"
      "?P c0 (map ((!) os) (kept E (length os))) fs0 E" using make_room_rep[OF rep need max d] by auto
    show ?thesis by (rule exI[of _ c0], rule exI[of _ "map ((!) os) (kept E (length os))"], rule exI[of _ fs0], rule exI[of _ E])
      (use mr True in \<open>auto simp del: map_map\<close>)
  next
    case False
    moreover have "map ((!) os) (kept {} (length os)) = os" by (simp add: kept_def map_nth)
    ultimately show ?thesis using rep by (intro exI[of _ c] exI[of _ os] exI[of _ fs] exI[of _ "{}"])
      (simp add: older_def cache_rep_def arrays_ok_def)
  qed
  then obtain c0 os0 fs0 E where room: "(if ?k > n_free_pages c \<or> n_cur_objects c + 1 > n_max_objects c then make_room ?k d c
      else Some (position d (map o_digest os), c)) = Some (position d (map o_digest os0), c0)" and P: "?P c0 os0 fs0 E"
      and E: "?k \<le> n_free_pages c \<and> n_cur_objects c < n_max_objects c \<longrightarrow> E = {}" by blast
  let ?new = "\<lparr>o_digest = d, o_tsc = tsc, o_pages = take ?k fs0, o_data = src\<rparr>" and ?idx = "position d (map o_digest os0)"
  have d0: "d \<notin> o_digest ` set os0" using d P by (auto simp: set_kept)
  obtain c' where put: "put_object tsc d src ?k ?idx c0 = Some c'" "cache_rep c' (inserted ?idx ?new os0) (drop ?k fs0)"
      "n_max_objects c' = n_max_objects c0" "n_total_pages c' = n_total_pages c0"
    using put_object_rep[of c0 os0 fs0 ?k src d tsc ?idx ?new] P d0 tsc len by blast
  have run: "cache_store tsc d src c = Some (True, c')"
    using find_rep[OF arr, of d] d need n_pages_for_length[OF len] room put(1) by (simp add: cache_store_def Let_def)
  have dist: "distinct (map o_digest os)" "distinct (map o_digest os0)" "distinct (map o_digest (inserted ?idx ?new os0))"
    using distinct_inserted_digests rep P put(2) by blast+
  have "contents os0 = contents os |` (- digests_at os E)"
    using contents_kept[of os E] dist P by (simp add: older_def)
  then have "contents (inserted ?idx ?new os0) = (contents os |` (- digests_at os E))(d \<mapsto> src)"
    using contents_inserted[OF dist(3,2)] by simp
  then show ?thesis using run put P E
    by (intro exI[of _ c'] exI[of _ "inserted ?idx ?new os0"] exI[of _ "drop ?k fs0"] exI[of _ E]) simp
qed

section \<open>The contract of an object cache\<close>

text \<open>
  What the judger relies on: the cache is a finite map from digests to contents, a load gives the
  contents when the length agrees, a store of a new digest adds it and may drop other entries, and
  a store of a known digest or of something too big changes nothing.
\<close>

datatype cache_op = Load u64 Digest256 u64 | Store u64 Digest256 bytes

primrec op_step :: "(u64 \<Rightarrow> Digest256 \<Rightarrow> u64 \<Rightarrow> 'c \<Rightarrow> (bytes option \<times> 'c) option) \<Rightarrow> (u64 \<Rightarrow> Digest256 \<Rightarrow> bytes \<Rightarrow> 'c \<Rightarrow> (bool \<times> 'c) option) \<Rightarrow>
    cache_op \<Rightarrow> 'c \<Rightarrow> 'c option" where
  "op_step ld st (Load tsc d len) c = map_option snd (ld tsc d len c)"
| "op_step ld st (Store tsc d src) c = map_option snd (st tsc d src c)"

primrec op_ok :: "cache_op \<Rightarrow> bool" where
  "op_ok (Load tsc d len) \<longleftrightarrow> tsc \<noteq> 0"
| "op_ok (Store tsc d src) \<longleftrightarrow> tsc \<noteq> 0 \<and> length src + 4087 < 2 ^ 64"

primrec op_stores :: "cache_op \<Rightarrow> Digest256 \<Rightarrow> bytes \<Rightarrow> bool" where
  "op_stores (Load tsc d len) d' data \<longleftrightarrow> False"
| "op_stores (Store tsc d src) d' data \<longleftrightarrow> d = d' \<and> src = data"

locale object_cache =
  fixes is_map :: "'c \<Rightarrow> (Digest256 \<rightharpoonup> bytes) \<Rightarrow> bool"
    and ld :: "u64 \<Rightarrow> Digest256 \<Rightarrow> u64 \<Rightarrow> 'c \<Rightarrow> (bytes option \<times> 'c) option"
    and st :: "u64 \<Rightarrow> Digest256 \<Rightarrow> bytes \<Rightarrow> 'c \<Rightarrow> (bool \<times> 'c) option"
    and fits :: "'c \<Rightarrow> bytes \<Rightarrow> bool"
  assumes load_law: "is_map c f \<Longrightarrow> tsc \<noteq> 0 \<Longrightarrow>
      \<exists>c'. ld tsc d len c = Some (case f d of Some data \<Rightarrow> if of_nat (length data) = len then Some data else None | None \<Rightarrow> None, c') \<and> is_map c' f"
    and store_known: "is_map c f \<Longrightarrow> f d \<noteq> None \<Longrightarrow> st tsc d src c = Some (True, c)"
    and store_big: "is_map c f \<Longrightarrow> f d = None \<Longrightarrow> length src + 4087 < 2 ^ 64 \<Longrightarrow> \<not> fits c src \<Longrightarrow> st tsc d src c = Some (False, c)"
    and store_new: "is_map c f \<Longrightarrow> f d = None \<Longrightarrow> length src + 4087 < 2 ^ 64 \<Longrightarrow> fits c src \<Longrightarrow> tsc \<noteq> 0 \<Longrightarrow>
      \<exists>c' A. st tsc d src c = Some (True, c') \<and> is_map c' ((f |` A)(d \<mapsto> src))"
begin

lemma store_then_load:
  assumes "is_map c f" "f d = None" "length src + 4087 < 2 ^ 64" "fits c src" "tsc \<noteq> 0" "tsc' \<noteq> 0"
  shows "\<exists>c' c''. st tsc d src c = Some (True, c') \<and> ld tsc' d (of_nat (length src)) c' = Some (Some src, c'')"
proof -
  obtain c' A where c': "st tsc d src c = Some (True, c')" "is_map c' ((f |` A)(d \<mapsto> src))"
    using store_new[OF assms(1-5)] by blast
  then show ?thesis using load_law[OF c'(2) assms(6), of d "of_nat (length src)"] by auto
qed

lemma step_history:
  assumes "is_map c f" "op_ok op"
  shows "\<exists>c' f'. op_step ld st op c = Some c' \<and> is_map c' f' \<and> (\<forall>d data. f' d = Some data \<longrightarrow> f d = Some data \<or> op_stores op d data)"
proof (cases op)
  case (Load tsc d len)
  then show ?thesis using load_law[OF assms(1), of tsc d len] assms by fastforce
next
  case (Store tsc d src)
  consider "f d \<noteq> None" | "f d = None" "\<not> fits c src" | "f d = None" "fits c src" by blast
  then show ?thesis
  proof cases
    case 3
    then obtain c' A where c': "st tsc d src c = Some (True, c')" "is_map c' ((f |` A)(d \<mapsto> src))"
      using store_new[OF assms(1), of d src tsc] assms(2) Store by auto
    then show ?thesis using Store
      by (intro exI[of _ c'] exI[of _ "(f |` A)(d \<mapsto> src)"]) (auto simp: restrict_map_def split: if_splits)
  qed (use store_known[OF assms(1), of d tsc src] store_big[OF assms(1), of d src tsc] assms Store in auto)
qed

lemma history:
  assumes "is_map c f" "\<forall>op \<in> set ops. op_ok op"
  shows "\<exists>c' f'. for_opt (op_step ld st) ops c = Some c' \<and> is_map c' f' \<and>
    (\<forall>d data. f' d = Some data \<longrightarrow> f d = Some data \<or> (\<exists>op \<in> set ops. op_stores op d data))"
  using assms
proof (induction ops arbitrary: c f)
  case (Cons op ops)
  obtain c1 f1 where one: "op_step ld st op c = Some c1" "is_map c1 f1" "\<forall>d data. f1 d = Some data \<longrightarrow> f d = Some data \<or> op_stores op d data"
    using step_history[OF Cons.prems(1), of op] Cons.prems(2) by auto
  obtain c' f' where rest: "for_opt (op_step ld st) ops c1 = Some c'" "is_map c' f'"
    "\<forall>d data. f' d = Some data \<longrightarrow> f1 d = Some data \<or> (\<exists>op \<in> set ops. op_stores op d data)"
    using Cons.IH[OF one(2)] Cons.prems(2) by auto
  have "\<forall>d data. f' d = Some data \<longrightarrow> f d = Some data \<or> (\<exists>op \<in> set (op # ops). op_stores op d data)"
    using one(3) rest(3) by (metis list.set_intros(1,2))
  then show ?case using one(1) rest(1,2) by (intro exI[of _ c'] exI[of _ f']) simp
qed auto

end

definition cache_map :: "DuckCache \<Rightarrow> (Digest256 \<rightharpoonup> bytes) \<Rightarrow> bool" where
  "cache_map c f \<longleftrightarrow> (\<exists>os fs. cache_rep c os fs \<and> contents os = f) \<and> 0 < n_max_objects c"

definition cache_fits :: "DuckCache \<Rightarrow> bytes \<Rightarrow> bool" where
  "cache_fits c src \<longleftrightarrow> pages_of src \<le> n_total_pages c"

lemma load_keeps_max: "cache_load tsc d len c = Some (r, c') \<Longrightarrow> n_max_objects c' = n_max_objects c"
  by (auto simp: cache_load_def opt_simps split: if_splits option.splits bind_splits)

lemma find_map: "cache_map c f \<Longrightarrow> \<exists>idx. cache_find d c = Some (f d \<noteq> None, idx)"
  unfolding cache_map_def using find_rep contents_None by (fastforce simp: cache_rep_def)

interpretation dcache: object_cache cache_map cache_load cache_store cache_fits
proof unfold_locales
  fix c f d and src :: bytes and tsc len :: u64
  assume map: "cache_map c f"
  then obtain os fs where rep: "cache_rep c os fs" "contents os = f" "0 < n_max_objects c" by (auto simp: cache_map_def)
  {
    assume "tsc \<noteq> 0"
    from load_rep[OF rep(1) this, of d len]
    show "\<exists>c'. cache_load tsc d len c = Some (case f d of Some data \<Rightarrow> if of_nat (length data) = len then Some data else None | None \<Rightarrow> None, c') \<and> cache_map c' f"
      unfolding cache_map_def rep(2) using rep(3) load_keeps_max[of tsc d len c] by (metis (no_types, lifting))
  }
  { assume "f d \<noteq> None" then show "cache_store tsc d src c = Some (True, c)" using find_map[OF map, of d] by (auto simp: cache_store_def) }
  assume none: "f d = None" and len: "length src + 4087 < 2 ^ 64"
  { assume "\<not> cache_fits c src" then show "cache_store tsc d src c = Some (False, c)"
      using find_map[OF map, of d] none n_pages_for_length[OF len] by (auto simp: cache_store_def cache_fits_def) }
  assume "cache_fits c src" "tsc \<noteq> 0"
  then have "\<exists>c' os' fs' E. cache_store tsc d src c = Some (True, c') \<and> cache_rep c' os' fs' \<and>
    contents os' = (contents os |` (- digests_at os E))(d \<mapsto> src) \<and> n_max_objects c' = n_max_objects c"
    using store_miss[OF rep(1) _ rep(3) _ _ len, of d tsc] none contents_None[of os d] rep(2) by (auto simp: cache_fits_def)
  then show "\<exists>c' A. cache_store tsc d src c = Some (True, c') \<and> cache_map c' ((f |` A)(d \<mapsto> src))"
    unfolding cache_map_def using rep(2,3) by metis
qed

section \<open>A new cache\<close>

lemma link_pages_keeps:
  assumes "link_pages a e n ps = Some (lp, n', ps')" "x < a" "unat a < unat e" "unat e + 4096 < 2 ^ 64"
  shows "ps' x = ps x"
  using assms
proof (induction "unat e - unat a" arbitrary: a n ps rule: less_induct)
  case less
  have up: "unat (a + PAGE_SIZE) = unat a + 4096" using less.prems by (simp add: PAGE_SIZE_def unat_add_fits)
  show ?case
  proof (cases "a + PAGE_SIZE < e")
    case True
    have "link_pages (a + PAGE_SIZE) e (n + 1) (ps(a \<mapsto> (a + PAGE_SIZE, replicate 4088 0))) = Some (lp, n', ps')"
      using less.prems(1) True by (subst (asm) link_pages.simps) simp
    from less.hyps[OF _ this] have "ps' x = (ps(a \<mapsto> (a + PAGE_SIZE, replicate 4088 0))) x"
      using up True less.prems by (simp add: word_less_nat_alt)
    then show ?thesis using less.prems(2) by auto
  qed (use less.prems(1) in \<open>simp add: link_pages.simps\<close>)
qed

lemma link_pages_chain:
  assumes "unat a < unat e" "unat e + 4096 < 2 ^ 64"
  shows "\<exists>ps' fs lp. link_pages a e n ps = Some (lp, n + length fs, ps') \<and> chain (ps'(lp \<mapsto> (0, replicate 4088 0))) a (fs @ [lp]) 0 \<and>
    sorted_wrt (<) (fs @ [lp]) \<and> (\<forall>x \<in> set (fs @ [lp]). a \<le> x) \<and> length fs = (unat e - unat a - 1) div 4096"
  using assms
proof (induction "unat e - unat a" arbitrary: a n ps rule: less_induct)
  case less
  have up: "unat (a + PAGE_SIZE) = unat a + 4096" using less.prems by (simp add: PAGE_SIZE_def unat_add_fits)
  show ?case
  proof (cases "a + PAGE_SIZE < e")
    case False
    then have "unat e - unat a - 1 < 4096" using up less.prems by (simp add: word_less_nat_alt)
    then show ?thesis using False by (intro exI[of _ ps] exI[of _ "[]"] exI[of _ a]) (simp add: link_pages.simps)
  next
    case True
    then have lt: "unat (a + PAGE_SIZE) < unat e" by (simp add: word_less_nat_alt)
    let ?ps = "ps(a \<mapsto> (a + PAGE_SIZE, replicate 4088 0))"
    obtain ps' fs lp where ih: "link_pages (a + PAGE_SIZE) e (n + 1) ?ps = Some (lp, n + 1 + length fs, ps')"
        "chain (ps'(lp \<mapsto> (0, replicate 4088 0))) (a + PAGE_SIZE) (fs @ [lp]) 0" "sorted_wrt (<) (fs @ [lp])"
        "\<forall>x \<in> set (fs @ [lp]). a + PAGE_SIZE \<le> x" "length fs = (unat e - unat (a + PAGE_SIZE) - 1) div 4096"
    proof -
      have "unat e - unat (a + PAGE_SIZE) < unat e - unat a" using lt up by simp
      from less.hyps[OF this lt less.prems(2), of "n + 1" ?ps] show thesis using that by blast
    qed
    have lt_a: "a < a + PAGE_SIZE" using up by (simp add: word_less_nat_alt)
    then have above: "\<forall>x \<in> set (fs @ [lp]). a < x" using ih(4) less_le_trans by blast
    have keep: "ps' a = Some (a + PAGE_SIZE, replicate 4088 0)"
      using link_pages_keeps[OF ih(1) lt_a lt] less.prems by simp
    show ?thesis
    proof (intro exI conjI)
      show "link_pages a e n ps = Some (lp, n + length (a # fs), ps')" using True ih(1) by (subst link_pages.simps) simp
      show "chain (ps'(lp \<mapsto> (0, replicate 4088 0))) a ((a # fs) @ [lp]) 0" using ih(2) keep above by auto
      show "sorted_wrt (<) ((a # fs) @ [lp])" using ih(3) above by simp
      show "\<forall>x \<in> set ((a # fs) @ [lp]). a \<le> x" using above by (auto simp: less_imp_le)
      show "length (a # fs) = (unat e - unat a - 1) div 4096" using ih(5) up lt by (simp add: div_nat_eqI le_div_geq)
    qed
  qed
qed

text \<open>The space that the four tables take at the start of the block.\<close>

definition tables_size :: "nat \<Rightarrow> u64" where
  "tables_size n = round_up (of_nat n * 8) PAGE_SIZE + round_up (of_nat n * 32) PAGE_SIZE + round_up (of_nat n * 24) PAGE_SIZE + round_up (of_nat n * 8) PAGE_SIZE"

text \<open>C26: A cache that is set up in a block with room for its tables and more than one page is empty, all of its pages are free,
  and it has as many pages as fit behind the tables.\<close>

theorem cache_init_empty:
  assumes "allocate_virtual_memory sz m = (a, m')" "a \<noteq> 0" "unat a + unat sz + 4096 < 2 ^ 64"
    and "unat (tables_size n) + 4096 < unat sz" "0 < n"
  shows "\<exists>c. cache_init n sz m = Some (Some c, m') \<and> cache_map c Map.empty \<and> n_max_objects c = n \<and> n_free_pages c = n_total_pages c \<and>
    n_total_pages c = (unat sz - unat (tables_size n) - 1) div 4096 + 1"
proof -
  let ?s = "a + tables_size n" and ?e = "a + sz"
  have u: "unat ?s = unat a + unat (tables_size n)" "unat ?e = unat a + unat sz" using assms(3,4) by (simp_all add: unat_add_fits)
  then have lt: "unat ?s < unat ?e" "unat ?e + 4096 < 2 ^ 64" using assms(3,4) by simp_all
  obtain ps fs lp where link: "link_pages ?s ?e 0 Map.empty = Some (lp, 0 + length fs, ps)"
      "chain (ps(lp \<mapsto> (0, replicate 4088 0))) ?s (fs @ [lp]) 0" "sorted_wrt (<) (fs @ [lp])" "length fs = (unat ?e - unat ?s - 1) div 4096"
    using link_pages_chain[OF lt, of 0 Map.empty] by blast
  have dist: "distinct (fs @ [lp])" using link(3) strict_sorted_iff by blast
  have small: "\<not> ?s + PAGE_SIZE \<ge> ?e" using u assms(3,4) by (simp add: word_le_nat_alt PAGE_SIZE_def unat_add_fits)
  let ?c = "\<lparr>cache_size = sz, n_max_objects = n, n_cur_objects = 0, free_list_addr = ?s, n_free_pages = length fs + 1, n_total_pages = length fs + 1,
     obj_hash = replicate n 0, obj_digest = replicate n (Digest256 0 0 0 0),
     obj_metadata = replicate n \<lparr>last_used_tsc = 0, start_addr = 0, md_len = 0\<rparr>, pg = ps(lp \<mapsto> (0, replicate 4088 0))\<rparr>"
  have "cache_init n sz m = Some (Some ?c, m')"
    using assms(1,2) small link(1) by (simp add: cache_init_def Let_def c_assert_def tables_size_def add.assoc)
  moreover have "cache_rep ?c [] (fs @ [lp])" using link(2) dist by (simp add: cache_rep_def arrays_ok_def)
  then have "cache_map ?c Map.empty" using assms(5) by (auto simp: cache_map_def contents_def)
  ultimately show ?thesis using link(4) u by simp
qed

lemma tables_size_1000: "tables_size 1000 = 73728"
  by (simp add: tables_size_def round_up_def PAGE_SIZE_def)

theorem cache_init_empty_witness:
  "\<exists>c. cache_init 1000 0x10000000 (zero_PM\<lparr>vaddr_break := 0x80000000\<rparr>) = Some (Some c, zero_PM\<lparr>vaddr_break := 0x70000000\<rparr>) \<and>
    cache_map c Map.empty \<and> n_max_objects c = 1000 \<and> n_free_pages c = n_total_pages c \<and> n_total_pages c = 65518"
proof -
  have "allocate_virtual_memory 0x10000000 (zero_PM\<lparr>vaddr_break := 0x80000000\<rparr>) = (0x70000000, zero_PM\<lparr>vaddr_break := 0x70000000\<rparr>)"
    by (simp add: allocate_virtual_memory_def round_up_def HUGE_PAGE_SIZE_def kernel_break_def)
  from cache_init_empty[OF this, of 1000] show ?thesis by (simp add: tables_size_1000)
qed

text \<open>C27: Storing a new object succeeds exactly when the object fits into the whole cache. The cache then maps its digest to its
  contents and keeps every other object, except for the least recently used ones, and none of them when there was room.\<close>

theorem store_refines:
  assumes "cache_rep c os fs" "0 < n_max_objects c" "d \<notin> o_digest ` set os" "tsc \<noteq> 0" "length src + 4087 < 2 ^ 64"
  shows "if pages_of src \<le> n_total_pages c
    then \<exists>c' os' fs' E. cache_store tsc d src c = Some (True, c') \<and> cache_rep c' os' fs' \<and> older os E \<and>
      (pages_of src \<le> n_free_pages c \<and> n_cur_objects c < n_max_objects c \<longrightarrow> E = {}) \<and>
      contents os' = (contents os |` (- digests_at os E))(d \<mapsto> src) \<and> n_max_objects c' = n_max_objects c \<and> n_total_pages c' = n_total_pages c
    else cache_store tsc d src c = Some (False, c)"
proof (cases "pages_of src \<le> n_total_pages c")
  case True
  then show ?thesis using store_miss[OF assms(1) True assms(2-5)] by simp
next
  case False
  have "cache_map c (contents os)" using assms(1,2) by (auto simp: cache_map_def)
  then show ?thesis using False dcache.store_big[of c "contents os" d src tsc] assms contents_None[of os d] by (simp add: cache_fits_def)
qed

text \<open>A cache of one page that holds one empty object.\<close>

definition demo_obj :: obj where
  "demo_obj = \<lparr>o_digest = Digest256 1 2 3 4, o_tsc = 5, o_pages = [4096], o_data = []\<rparr>"

definition demo_cache :: DuckCache where
  "demo_cache = \<lparr>cache_size = 0, n_max_objects = 1, n_cur_objects = 1, free_list_addr = 0, n_free_pages = 0, n_total_pages = 1,
     obj_hash = [1], obj_digest = [Digest256 1 2 3 4], obj_metadata = [\<lparr>last_used_tsc = 5, start_addr = 4096, md_len = 0\<rparr>],
     pg = [4096 \<mapsto> (0, replicate 4088 0)]\<rparr>"

lemma demo_rep: "cache_rep demo_cache [demo_obj] []"
  by (simp add: cache_rep_def arrays_ok_def demo_cache_def demo_obj_def md_ok_def pages_of_def)

theorem store_refines_witness:
  "\<exists>c' os' fs'. cache_store 9 (Digest256 0 0 0 0) [7] demo_cache = Some (True, c') \<and> cache_rep c' os' fs' \<and>
     contents os' (Digest256 0 0 0 0) = Some [7] \<and> n_max_objects c' = 1 \<and> n_total_pages c' = 1"
proof -
  have "if pages_of [7] \<le> n_total_pages demo_cache
    then \<exists>c' os' fs' E. cache_store 9 (Digest256 0 0 0 0) [7] demo_cache = Some (True, c') \<and> cache_rep c' os' fs' \<and> older [demo_obj] E \<and>
      (pages_of [7] \<le> n_free_pages demo_cache \<and> n_cur_objects demo_cache < n_max_objects demo_cache \<longrightarrow> E = {}) \<and>
      contents os' = (contents [demo_obj] |` (- digests_at [demo_obj] E))(Digest256 0 0 0 0 \<mapsto> [7]) \<and>
      n_max_objects c' = n_max_objects demo_cache \<and> n_total_pages c' = n_total_pages demo_cache
    else cache_store 9 (Digest256 0 0 0 0) [7] demo_cache = Some (False, demo_cache)"
    by (rule store_refines[OF demo_rep]) (simp_all add: demo_cache_def demo_obj_def)
  moreover have "pages_of [7] \<le> n_total_pages demo_cache" "n_max_objects demo_cache = 1" "n_total_pages demo_cache = 1"
    by (simp_all add: pages_of_def demo_cache_def)
  ultimately obtain c' os' fs' E where c': "cache_store 9 (Digest256 0 0 0 0) [7] demo_cache = Some (True, c')" "cache_rep c' os' fs'"
      "contents os' = (contents [demo_obj] |` (- digests_at [demo_obj] E))(Digest256 0 0 0 0 \<mapsto> [7])" "n_max_objects c' = 1" "n_total_pages c' = 1"
    by auto
  then show ?thesis by (intro exI[of _ c'] exI[of _ os'] exI[of _ fs']) simp
qed

text \<open>C28: An object that has been stored can be loaded back unchanged.\<close>

theorem store_load_roundtrip:
  assumes "cache_map c f" "f d = None" "length src + 4087 < 2 ^ 64" "cache_fits c src" "tsc \<noteq> 0" "tsc' \<noteq> 0"
  shows "\<exists>c' c''. cache_store tsc d src c = Some (True, c') \<and> cache_load tsc' d (of_nat (length src)) c' = Some (Some src, c'')"
  using assms by (rule dcache.store_then_load)

theorem store_load_roundtrip_witness:
  "\<exists>c' c''. cache_store 9 (Digest256 0 0 0 0) [7] demo_cache = Some (True, c') \<and>
     cache_load 10 (Digest256 0 0 0 0) (of_nat (length [7 :: u8])) c' = Some (Some [7], c'')"
proof (rule store_load_roundtrip)
  show "cache_map demo_cache (contents [demo_obj])" using demo_rep by (auto simp: cache_map_def demo_cache_def)
qed (simp_all add: contents_def demo_obj_def cache_fits_def demo_cache_def pages_of_def)

text \<open>C29: A sequence of loads and stores never faults, whatever it evicts, and afterwards the cache holds for a digest only
  what it held before or what one of the stores put under this digest.\<close>

theorem cache_history:
  assumes "cache_map c f" "\<forall>op \<in> set ops. op_ok op"
  shows "\<exists>c' f'. for_opt (op_step cache_load cache_store) ops c = Some c' \<and> cache_map c' f' \<and>
    (\<forall>d data. f' d = Some data \<longrightarrow> f d = Some data \<or> (\<exists>op \<in> set ops. op_stores op d data))"
  using assms by (rule dcache.history)

theorem cache_history_witness:
  "\<exists>c' f'. for_opt (op_step cache_load cache_store) [Store 9 (Digest256 0 0 0 0) [7], Load 10 (Digest256 1 2 3 4) 0] demo_cache = Some c' \<and>
    cache_map c' f' \<and> f' (Digest256 5 5 5 5) = None \<and> f' (Digest256 0 0 0 0) \<noteq> Some [8]"
proof -
  let ?ops = "[Store 9 (Digest256 0 0 0 0) [7], Load 10 (Digest256 1 2 3 4) 0]"
  have "cache_map demo_cache (contents [demo_obj])" using demo_rep by (auto simp: cache_map_def demo_cache_def)
  from cache_history[OF this, of ?ops] obtain c' f' where c': "for_opt (op_step cache_load cache_store) ?ops demo_cache = Some c'" "cache_map c' f'"
    and hist: "\<And>d data. f' d = Some data \<Longrightarrow> contents [demo_obj] d = Some data \<or> (\<exists>op \<in> set ?ops. op_stores op d data)" by auto
  have "f' (Digest256 5 5 5 5) = None" using hist[of "Digest256 5 5 5 5"]
    by (cases "f' (Digest256 5 5 5 5)") (auto simp: contents_def demo_obj_def)
  moreover have "f' (Digest256 0 0 0 0) \<noteq> Some [8]" using hist[of "Digest256 0 0 0 0" "[8]"] by (auto simp: contents_def demo_obj_def)
  ultimately show ?thesis using c' by blast
qed

end
