(* ===== verification/Elf.thy ===== *)
theory Elf
  imports Page_Memory
begin

text \<open>
  The program loader, \<open>lib/elf.cpp\<close>, with the structures of \<open>inc/elf.hpp\<close> and \<open>inc/abi.hpp\<close>.

  The file to load and the buffers for the input are byte lists: what lies in the judger's buffer
  behind the pointers of the configuration. The program's memory is reached through the page tables,
  one byte at a time. A refused program is \<^term>\<open>None\<close>; an access outside of a buffer or to an address
  that is not mapped is a fault, an outer \<^term>\<open>None\<close>. Reloading the page table register and the log
  output have no effect in the model.
\<close>

section \<open>Bytes at virtual addresses\<close>

definition vget :: "u64 \<Rightarrow> PM \<Rightarrow> u8 option" where
  "vget v m = do { a \<leftarrow> translate m v; Some (ucast (drop_bit (8 * unat (a AND 7)) (phys m (a AND NOT 7)))) }"

definition vput :: "u64 \<Rightarrow> u8 \<Rightarrow> PM \<Rightarrow> PM option" where
  "vput v b m = do {
     a \<leftarrow> translate m v;
     let c = a AND NOT 7;
     let k = 8 * unat (a AND 7);
     Some (m\<lparr>phys := (phys m)(c := (phys m c AND NOT (push_bit k 255)) OR push_bit k (ucast b))\<rparr>)
   }"

primrec vwrite :: "bytes \<Rightarrow> u64 \<Rightarrow> PM \<Rightarrow> PM option" where
  "vwrite [] v m = Some m"
| "vwrite (b # bs) v m = do { m \<leftarrow> vput v b m; vwrite bs (v + 1) m }"

primrec vread :: "nat \<Rightarrow> u64 \<Rightarrow> PM \<Rightarrow> bytes option" where
  "vread 0 v m = Some []"
| "vread (Suc n) v m = do { b \<leftarrow> vget v m; bs \<leftarrow> vread n (v + 1) m; Some (b # bs) }"

definition memcpy_in :: "u64 \<Rightarrow> bytes \<Rightarrow> u64 \<Rightarrow> PM \<Rightarrow> PM option" where
  "memcpy_in dst src n m = do { bs \<leftarrow> rd_range src 0 (unat n); vwrite bs dst m }"

section \<open>Structures\<close>

record AppConfig =
  cf_memory_hard_limit :: u64
  cf_stdin_ptr :: bytes
  cf_stdin_size :: u64
  cf_stdout_max_size :: u64
  cf_stderr_max_size :: u64
  cf_IB_ptr :: bytes
  cf_IB_size :: u64
  cf_OB_ptr :: bytes
  cf_OB_size :: u64
  cf_OB_need_clear :: bool

record DuckInfo_t =
  di_abi_version :: u64
  di_stdin_ptr :: u64
  di_stdin_size :: u64
  di_stdout_ptr :: u64
  di_stdout_limit :: u64
  di_stdout_size :: u64
  di_stderr_ptr :: u64
  di_stderr_limit :: u64
  di_stderr_size :: u64
  di_IB_ptr :: u64
  di_IB_limit :: u64
  di_OB_ptr :: u64
  di_OB_limit :: u64
  di_tsc_frequency :: u64

record DuckInfo32_t =
  d32_abi_version :: u32
  d32_stdin_ptr :: u32
  d32_stdin_size :: u32
  d32_stdout_ptr :: u32
  d32_stdout_limit :: u32
  d32_stdout_size :: u32
  d32_stderr_ptr :: u32
  d32_stderr_limit :: u32
  d32_stderr_size :: u32
  d32_IB_ptr :: u32
  d32_IB_limit :: u32
  d32_OB_ptr :: u32
  d32_OB_limit :: u32
  d32_tsc_frequency :: u64

definition ABI_version :: u64 where "ABI_version = 40"
definition AT_DUCK :: u64 where "AT_DUCK = 0x6b637564"
definition DUCK_sys_exit :: u32 where "DUCK_sys_exit = 60"
definition DUCK_sys_exit_32 :: u32 where "DUCK_sys_exit_32 = 1"
definition DUCK_sys_set_thread_area :: u32 where "DUCK_sys_set_thread_area = 243"

text \<open>The structures as the program sees them in memory.\<close>

definition duckinfo_bytes :: "DuckInfo_t \<Rightarrow> bytes" where
  "duckinfo_bytes d = concat (map bytes64 [di_abi_version d, di_stdin_ptr d, di_stdin_size d, di_stdout_ptr d, di_stdout_limit d,
     di_stdout_size d, di_stderr_ptr d, di_stderr_limit d, di_stderr_size d, di_IB_ptr d, di_IB_limit d, di_OB_ptr d, di_OB_limit d,
     di_tsc_frequency d])"

definition duckinfo32_bytes :: "DuckInfo32_t \<Rightarrow> bytes" where
  "duckinfo32_bytes d = concat (map bytes32 [d32_abi_version d, d32_stdin_ptr d, d32_stdin_size d, d32_stdout_ptr d, d32_stdout_limit d,
     d32_stdout_size d, d32_stderr_ptr d, d32_stderr_limit d, d32_stderr_size d, d32_IB_ptr d, d32_IB_limit d, d32_OB_ptr d, d32_OB_limit d]) @
     bytes64 (d32_tsc_frequency d)"

text \<open>A pointer to the structure that is not there is \<^term>\<open>0\<close>.\<close>

record App =
  app_entry :: u64
  app_rsp :: u64
  app_start_addr :: u64
  app_break_addr :: u64
  app_special_region_start_addr :: u64
  app_special_region_break_addr :: u64
  app_stdin_start_addr :: u64
  app_stdin_break_addr :: u64
  app_duckinfo_orig :: DuckInfo_t
  app_duckinfo_ptr :: u64
  app_duckinfo32_ptr :: u64

section \<open>The stack\<close>

definition push :: "bytes \<Rightarrow> u64 \<times> PM \<Rightarrow> (u64 \<times> PM) option" where
  "push bs = (\<lambda>(rsp, m). do {
     let rsp = rsp - of_nat (length bs);
     m \<leftarrow> vwrite bs rsp m;
     Some (rsp, m)
   })"

definition pushq :: "u64 \<Rightarrow> u64 \<times> PM \<Rightarrow> (u64 \<times> PM) option" where
  "pushq val = push (bytes64 val)"

definition pushl :: "u32 \<Rightarrow> u64 \<times> PM \<Rightarrow> (u64 \<times> PM) option" where
  "pushl val = push (bytes32 val)"

definition align_stack :: "u64 \<Rightarrow> u64 \<times> PM \<Rightarrow> (u64 \<times> PM) option" where
  "align_stack auxv_end = (\<lambda>(rsp, m).
     if rsp mod 16 \<noteq> 0 then do {
       let new_rsp = round_down rsp 16;
       bs \<leftarrow> vread (unat (auxv_end - rsp)) rsp m;
       m \<leftarrow> vwrite bs new_rsp m;
       Some (new_rsp, m)
     } else Some (rsp, m))"

section \<open>File headers\<close>

text \<open>The layout and the constants of \<open>elf.h\<close> that the loader uses.\<close>

definition ELFMAG :: bytes where "ELFMAG = [0x7f, 0x45, 0x4c, 0x46]"
definition ELFCLASS32 :: u8 where "ELFCLASS32 = 1"
definition ELFCLASS64 :: u8 where "ELFCLASS64 = 2"
definition PT_LOAD :: u32 where "PT_LOAD = 1"
definition PF_X :: u32 where "PF_X = 1"
definition PF_W :: u32 where "PF_W = 2"
definition EHDR64_SIZE :: nat where "EHDR64_SIZE = 64"
definition EHDR32_SIZE :: nat where "EHDR32_SIZE = 52"
definition PHDR64_SIZE :: nat where "PHDR64_SIZE = 56"
definition PHDR32_SIZE :: nat where "PHDR32_SIZE = 32"

record Ehdr =
  e_entry :: u64
  e_phoff :: u64
  e_phentsize :: u64
  e_phnum :: u64

record Phdr =
  p_type :: u32
  p_flags :: u32
  p_offset :: u64
  p_vaddr :: u64
  p_filesz :: u64
  p_memsz :: u64
  p_align :: u64

definition read_phdr64 :: "bytes \<Rightarrow> nat \<Rightarrow> Phdr option" where
  "read_phdr64 buf off = do {
     ty \<leftarrow> get32 buf off;
     fl \<leftarrow> get32 buf (off + 4);
     po \<leftarrow> get64 buf (off + 8);
     va \<leftarrow> get64 buf (off + 16);
     fs \<leftarrow> get64 buf (off + 32);
     ms \<leftarrow> get64 buf (off + 40);
     al \<leftarrow> get64 buf (off + 48);
     Some \<lparr>p_type = ty, p_flags = fl, p_offset = po, p_vaddr = va, p_filesz = fs, p_memsz = ms, p_align = al\<rparr>
   }"

definition read_phdr32 :: "bytes \<Rightarrow> nat \<Rightarrow> Phdr option" where
  "read_phdr32 buf off = do {
     ty \<leftarrow> get32 buf off;
     po \<leftarrow> get32 buf (off + 4);
     va \<leftarrow> get32 buf (off + 8);
     fs \<leftarrow> get32 buf (off + 16);
     ms \<leftarrow> get32 buf (off + 20);
     fl \<leftarrow> get32 buf (off + 24);
     al \<leftarrow> get32 buf (off + 28);
     Some \<lparr>p_type = ty, p_flags = fl, p_offset = ucast po, p_vaddr = ucast va, p_filesz = ucast fs, p_memsz = ucast ms, p_align = ucast al\<rparr>
   }"

text \<open>Identification, type, machine and version; machine 62 is x86-64, machine 3 is i386.\<close>

definition check_ident :: "u8 \<Rightarrow> u16 \<Rightarrow> bytes \<Rightarrow> bool option" where
  "check_ident cls machine buf = do {
     id \<leftarrow> rd_range buf 0 8;
     ty \<leftarrow> get16 buf 16;
     mach \<leftarrow> get16 buf 18;
     ver \<leftarrow> get32 buf 20;
     Some (take 4 id = ELFMAG \<and> id ! 4 = cls \<and> id ! 5 = 1 \<and> id ! 6 = 1 \<and> (id ! 7 = 0 \<or> id ! 7 = 3) \<and>
       ty = 2 \<and> mach = machine \<and> ver = 1)
   }"

definition ehdr_in_file :: "u32 \<Rightarrow> Ehdr \<Rightarrow> bool" where
  "ehdr_in_file len h \<longleftrightarrow> e_phoff h < ucast len \<and> e_phentsize h < ucast len \<and> e_phnum h < ucast len"

definition read_ehdr64 :: "bytes \<Rightarrow> u32 \<Rightarrow> Ehdr option option" where
  "read_ehdr64 buf len =
     (if unat len < EHDR64_SIZE then Some None
      else do {
        ok \<leftarrow> check_ident ELFCLASS64 62 buf;
        if \<not> ok then Some None
        else do {
          entry \<leftarrow> get64 buf 24;
          phoff \<leftarrow> get64 buf 32;
          entsz \<leftarrow> get16 buf 54;
          num \<leftarrow> get16 buf 56;
          let h = \<lparr>e_entry = entry, e_phoff = phoff, e_phentsize = ucast entsz, e_phnum = ucast num\<rparr>;
          Some (if ehdr_in_file len h then Some h else None)
        }
      })"

definition read_ehdr32 :: "bytes \<Rightarrow> u32 \<Rightarrow> Ehdr option option" where
  "read_ehdr32 buf len =
     (if unat len < EHDR32_SIZE then Some None
      else do {
        ok \<leftarrow> check_ident ELFCLASS32 3 buf;
        if \<not> ok then Some None
        else do {
          entry \<leftarrow> get32 buf 24;
          phoff \<leftarrow> get32 buf 28;
          entsz \<leftarrow> get16 buf 42;
          num \<leftarrow> get16 buf 44;
          let h = \<lparr>e_entry = ucast entry, e_phoff = ucast phoff, e_phentsize = ucast entsz, e_phnum = ucast num\<rparr>;
          Some (if ehdr_in_file len h then Some h else None)
        }
      })"

section \<open>Program headers\<close>

definition phdr_offset :: "Ehdr \<Rightarrow> nat \<Rightarrow> u64" where
  "phdr_offset h i = e_phoff h + of_nat i * e_phentsize h"

definition phdr_ok :: "(u64 \<Rightarrow> bool) \<Rightarrow> u32 \<Rightarrow> Phdr \<Rightarrow> bool" where
  "phdr_ok align_ok len ph \<longleftrightarrow>
     \<not> (p_filesz ph \<noteq> 0 \<and> (p_offset ph > ucast len \<or> p_offset ph + p_filesz ph > ucast len)) \<and>
     align_ok (p_align ph) \<and> \<not> p_memsz ph < p_filesz ph \<and> \<not> p_vaddr ph + p_memsz ph < p_vaddr ph"

text \<open>The loop over the program headers, with the lowest and the highest address so far.\<close>

primrec scan_phdrs :: "(bytes \<Rightarrow> nat \<Rightarrow> Phdr option) \<Rightarrow> nat \<Rightarrow> (u64 \<Rightarrow> bool) \<Rightarrow> bytes \<Rightarrow> u32 \<Rightarrow> Ehdr \<Rightarrow> nat list \<Rightarrow>
    u64 \<Rightarrow> u64 \<Rightarrow> (u64 \<times> u64) option option" where
  "scan_phdrs rdp psize align_ok buf len h [] mn mx = Some (Some (mn, mx))"
| "scan_phdrs rdp psize align_ok buf len h (i # ids) mn mx =
     (if phdr_offset h i + of_nat psize > ucast len then Some None
      else do {
        ph \<leftarrow> rdp buf (unat (phdr_offset h i));
        if p_type ph \<noteq> PT_LOAD then scan_phdrs rdp psize align_ok buf len h ids mn mx
        else if \<not> phdr_ok align_ok len ph then Some None
        else scan_phdrs rdp psize align_ok buf len h ids (min mn (p_vaddr ph)) (max mx (p_vaddr ph + p_memsz ph))
      })"

definition scan_phdrs64 :: "bytes \<Rightarrow> u32 \<Rightarrow> Ehdr \<Rightarrow> (u64 \<times> u64) option option" where
  "scan_phdrs64 buf len h = scan_phdrs read_phdr64 PHDR64_SIZE (\<lambda>a. a = PAGE_SIZE \<or> a = HUGE_PAGE_SIZE) buf len h [0..<unat (e_phnum h)] (- 1) 0"

definition scan_phdrs32 :: "bytes \<Rightarrow> u32 \<Rightarrow> Ehdr \<Rightarrow> (u64 \<times> u64) option option" where
  "scan_phdrs32 buf len h = scan_phdrs read_phdr32 PHDR32_SIZE (\<lambda>a. a = PAGE_SIZE) buf len h [0..<unat (e_phnum h)] (- 1) 0"

section \<open>Layout of the program's memory\<close>

text \<open>A region is a pair of its first address and the address behind it.\<close>

record Layout =
  load_vaddr_start :: u64
  load_vaddr_break :: u64
  stdin_load :: "u64 \<times> u64"
  stdout_load :: "u64 \<times> u64"
  stderr_load :: "u64 \<times> u64"
  IB_load :: "u64 \<times> u64"
  OB_load :: "u64 \<times> u64"
  special_region_break :: u64
  ELF_image_load :: "u64 \<times> u64"
  random_bytes_load :: "u64 \<times> u64"

text \<open>Taking whole pages for a buffer, with the checks for overflow; \<^term>\<open>None\<close> is a refusal.\<close>

definition alloc_region :: "u64 \<Rightarrow> u64 \<Rightarrow> (u64 \<times> u64) option" where
  "alloc_region sz cur = (let alloc_size = round_up sz PAGE_SIZE in
     if alloc_size < sz then None
     else if cur + alloc_size < cur then None
     else Some (cur, cur + alloc_size))"

text \<open>The memory for the program itself: its segments and one page for the stack, at a fixed address.\<close>

definition load_range :: "u64 \<Rightarrow> AppConfig \<Rightarrow> u64 \<Rightarrow> u64 \<times> u64 \<Rightarrow> u64 option" where
  "load_range start config vbreak = (\<lambda>(mn, mx).
     let min_vaddr = round_down mn PAGE_SIZE;
         max_vaddr = round_up mx PAGE_SIZE;
         memory_limit = round_up (cf_memory_hard_limit config) PAGE_SIZE;
         memory_needed = max_vaddr - min_vaddr in
     if min_vaddr < get_kernel_break then None
     else if max_vaddr \<le> min_vaddr \<or> max_vaddr > vbreak then None
     else if memory_limit < memory_needed then None
     else if memory_limit < memory_needed + PAGE_SIZE then None
     else if min_vaddr \<noteq> start then None
     else if start + memory_limit < start then None
     else if start + memory_limit > vbreak then None
     else Some (start + memory_limit))"

definition layout64 :: "AppConfig \<Rightarrow> u64 \<Rightarrow> u64 \<times> u64 \<Rightarrow> Layout option" where
  "layout64 config vbreak rng = do {
     lbreak \<leftarrow> load_range 0x400000 config vbreak rng;
     stdin \<leftarrow> alloc_region (cf_stdin_size config) lbreak;
     stdout \<leftarrow> alloc_region (cf_stdout_max_size config) (snd stdin);
     stderr \<leftarrow> alloc_region (cf_stderr_max_size config) (snd stdout);
     IB \<leftarrow> alloc_region (cf_IB_size config) (snd stderr);
     OB \<leftarrow> alloc_region (cf_OB_size config) (snd IB);
     let image = (snd OB, snd OB + PAGE_SIZE);
     if snd image < fst image then None
     else do {
       let random = (snd image, snd image + PAGE_SIZE);
       if snd random < fst random then None
       else if snd random < lbreak then None
       else if snd random > vbreak then None
       else Some \<lparr>load_vaddr_start = 0x400000, load_vaddr_break = lbreak, stdin_load = stdin, stdout_load = stdout,
         stderr_load = stderr, IB_load = IB, OB_load = OB, special_region_break = snd random,
         ELF_image_load = image, random_bytes_load = random\<rparr>
     }
   }"

text \<open>The image of the file header comes behind the end of the special region here, and the random bytes are left out.\<close>

definition layout32 :: "AppConfig \<Rightarrow> u64 \<Rightarrow> u64 \<times> u64 \<Rightarrow> Layout option" where
  "layout32 config vbreak rng = do {
     lbreak \<leftarrow> load_range 0x8048000 config vbreak rng;
     stdin \<leftarrow> alloc_region (cf_stdin_size config) lbreak;
     stdout \<leftarrow> alloc_region (cf_stdout_max_size config) (snd stdin);
     stderr \<leftarrow> alloc_region (cf_stderr_max_size config) (snd stdout);
     IB \<leftarrow> alloc_region (cf_IB_size config) (snd stderr);
     OB \<leftarrow> alloc_region (cf_OB_size config) (snd IB);
     let special_break = snd OB;
     if special_break < lbreak then None
     else if special_break > vbreak then None
     else do {
       let image = (snd OB, snd OB + PAGE_SIZE);
       if snd image < fst image then None
       else if (0x8048000 :: u64) > push_bit 32 1 then None
       else if special_break > push_bit 32 1 then None
       else Some \<lparr>load_vaddr_start = 0x8048000, load_vaddr_break = lbreak, stdin_load = stdin, stdout_load = stdout,
         stderr_load = stderr, IB_load = IB, OB_load = OB, special_region_break = special_break,
         ELF_image_load = image, random_bytes_load = (0, 0)\<rparr>
     }
   }"

section \<open>Loading\<close>

definition setup_pages :: "Layout \<Rightarrow> PM \<Rightarrow> PM option" where
  "setup_pages l m = do {
     m \<leftarrow> set_page_flags_kernel get_kernel_break (load_vaddr_start l) m;
     m \<leftarrow> set_page_flags_user_writable (load_vaddr_start l) (special_region_break l) m;
     m \<leftarrow> set_page_flags_kernel (special_region_break l) (get_vaddr_break m) m;
     clear_duck_written_pages (load_vaddr_start l) (special_region_break l) m
   }"

definition copy_segment :: "(bytes \<Rightarrow> nat \<Rightarrow> Phdr option) \<Rightarrow> bytes \<Rightarrow> Ehdr \<Rightarrow> nat \<Rightarrow> PM \<Rightarrow> PM option" where
  "copy_segment rdp buf h i m = do {
     ph \<leftarrow> rdp buf (unat (phdr_offset h i));
     if p_type ph \<noteq> PT_LOAD then Some m
     else if p_filesz ph = 0 then Some m
     else do {
       bs \<leftarrow> rd_range buf (unat (p_offset ph)) (unat (p_filesz ph));
       m \<leftarrow> vwrite bs (p_vaddr ph) m;
       set_duck_written (round_down (p_vaddr ph) PAGE_SIZE) (round_up (p_vaddr ph + p_filesz ph) PAGE_SIZE) m
     }
   }"

definition load_readonly :: "u64 \<times> u64 \<Rightarrow> bytes \<Rightarrow> u64 \<Rightarrow> PM \<Rightarrow> PM option" where
  "load_readonly = (\<lambda>(vaddr, brk) src n m. do {
     m \<leftarrow> memcpy_in vaddr src n m;
     m \<leftarrow> set_duck_written vaddr brk m;
     set_page_flags_user_readonly vaddr brk m
   })"

definition load_OB :: "AppConfig \<Rightarrow> Layout \<Rightarrow> PM \<Rightarrow> PM option" where
  "load_OB config l m =
     (if cf_OB_need_clear config then Some m
      else do {
        m \<leftarrow> set_duck_written (fst (OB_load l)) (fst (OB_load l) + round_up (cf_OB_size config) PAGE_SIZE) m;
        memcpy_in (fst (OB_load l)) (cf_OB_ptr config) (cf_OB_size config) m
      })"

definition load_buffers :: "bytes \<Rightarrow> u32 \<Rightarrow> AppConfig \<Rightarrow> Layout \<Rightarrow> PM \<Rightarrow> PM option" where
  "load_buffers buf len config l m = do {
     m \<leftarrow> load_readonly (stdin_load l) (cf_stdin_ptr config) (cf_stdin_size config) m;
     m \<leftarrow> load_readonly (IB_load l) (cf_IB_ptr config) (cf_IB_size config) m;
     m \<leftarrow> load_OB config l m;
     load_readonly (ELF_image_load l) buf (ucast (min len (ucast PAGE_SIZE))) m
   }"

definition segment_flags :: "(bytes \<Rightarrow> nat \<Rightarrow> Phdr option) \<Rightarrow> bytes \<Rightarrow> Ehdr \<Rightarrow> nat \<Rightarrow> PM \<Rightarrow> PM option" where
  "segment_flags rdp buf h i m = do {
     ph \<leftarrow> rdp buf (unat (phdr_offset h i));
     if p_type ph \<noteq> PT_LOAD then Some m
     else do {
       let start = round_down (p_vaddr ph) PAGE_SIZE;
       let fin = round_up (p_vaddr ph + p_memsz ph) PAGE_SIZE;
       m \<leftarrow> set_page_flags_user_readonly start fin m;
       m \<leftarrow> (if p_flags ph AND PF_X \<noteq> 0 then add_page_flags_executable start fin m else Some m);
       if p_flags ph AND PF_W \<noteq> 0 then add_page_flags_writable start fin m else Some m
     }
   }"

definition make_duckinfo :: "u64 \<Rightarrow> AppConfig \<Rightarrow> Layout \<Rightarrow> DuckInfo_t" where
  "make_duckinfo tscf config l = \<lparr>
     di_abi_version = ABI_version,
     di_stdin_ptr = fst (stdin_load l),
     di_stdin_size = cf_stdin_size config,
     di_stdout_ptr = fst (stdout_load l),
     di_stdout_limit = cf_stdout_max_size config,
     di_stdout_size = 0,
     di_stderr_ptr = fst (stderr_load l),
     di_stderr_limit = cf_stderr_max_size config,
     di_stderr_size = 0,
     di_IB_ptr = fst (IB_load l),
     di_IB_limit = cf_IB_size config,
     di_OB_ptr = fst (OB_load l),
     di_OB_limit = cf_OB_size config,
     di_tsc_frequency = tscf\<rparr>"

definition make_duckinfo32 :: "u64 \<Rightarrow> AppConfig \<Rightarrow> Layout \<Rightarrow> DuckInfo32_t" where
  "make_duckinfo32 tscf config l = \<lparr>
     d32_abi_version = ucast ABI_version,
     d32_stdin_ptr = ucast (fst (stdin_load l)),
     d32_stdin_size = ucast (cf_stdin_size config),
     d32_stdout_ptr = ucast (fst (stdout_load l)),
     d32_stdout_limit = ucast (cf_stdout_max_size config),
     d32_stdout_size = 0,
     d32_stderr_ptr = ucast (fst (stderr_load l)),
     d32_stderr_limit = ucast (cf_stderr_max_size config),
     d32_stderr_size = 0,
     d32_IB_ptr = ucast (fst (IB_load l)),
     d32_IB_limit = ucast (cf_IB_size config),
     d32_OB_ptr = ucast (fst (OB_load l)),
     d32_OB_limit = ucast (cf_OB_size config),
     d32_tsc_frequency = tscf\<rparr>"

text \<open>The auxiliary vector, in the order of the pushes; the tags are those of \<open>sys/auxv.h\<close>.\<close>

definition auxv64 :: "u64 \<Rightarrow> Ehdr \<Rightarrow> Layout \<Rightarrow> u64 list" where
  "auxv64 duckinfo_ptr h l = [
     0,
     PAGE_SIZE, 6,
     duckinfo_ptr, AT_DUCK,
     fst (ELF_image_load l), 7,
     fst (ELF_image_load l) + e_phoff h, 3,
     e_entry h, 9,
     e_phentsize h, 4,
     e_phnum h, 5,
     0xbfebfbff, 16,
     0x2, 16,
     1000, 11,
     1000, 12,
     1000, 13,
     1000, 14,
     0, 23,
     fst (random_bytes_load l), 25,
     0, 0, 0]"

definition auxv32 :: "u64 \<Rightarrow> Ehdr \<Rightarrow> Layout \<Rightarrow> bytes list" where
  "auxv32 duckinfo32_ptr h l =
     map bytes32 [0, ucast PAGE_SIZE, 6, ucast duckinfo32_ptr, ucast AT_DUCK] @
     map bytes64 [
       fst (ELF_image_load l), 7,
       fst (ELF_image_load l) + e_phoff h, 3,
       e_entry h, 9,
       e_phentsize h, 4,
       e_phnum h, 5] @
     map bytes32 [0, 0, 0]"

definition setup_stack64 :: "u64 \<Rightarrow> AppConfig \<Rightarrow> Ehdr \<Rightarrow> Layout \<Rightarrow> PM \<Rightarrow> (u64 \<times> u64 \<times> PM) option" where
  "setup_stack64 tscf config h l m = do {
     (duckinfo_ptr, m) \<leftarrow> push (duckinfo_bytes (make_duckinfo tscf config l)) (load_vaddr_break l, m);
     (rsp, m) \<leftarrow> for_opt pushq (auxv64 duckinfo_ptr h l) (duckinfo_ptr, m);
     (rsp, m) \<leftarrow> align_stack duckinfo_ptr (rsp, m);
     m \<leftarrow> set_duck_written (load_vaddr_break l - PAGE_SIZE) (load_vaddr_break l) m;
     Some (duckinfo_ptr, rsp, m)
   }"

definition setup_stack32 :: "u64 \<Rightarrow> AppConfig \<Rightarrow> Ehdr \<Rightarrow> Layout \<Rightarrow> PM \<Rightarrow> (u64 \<times> u64 \<times> PM) option" where
  "setup_stack32 tscf config h l m = do {
     (duckinfo32_ptr, m) \<leftarrow> push (duckinfo32_bytes (make_duckinfo32 tscf config l)) (load_vaddr_break l, m);
     (esp, m) \<leftarrow> for_opt push (auxv32 duckinfo32_ptr h l) (duckinfo32_ptr, m);
     (esp, m) \<leftarrow> align_stack duckinfo32_ptr (esp, m);
     m \<leftarrow> set_duck_written (load_vaddr_break l - PAGE_SIZE) (load_vaddr_break l) m;
     Some (duckinfo32_ptr, esp, m)
   }"

definition make_app :: "u64 \<Rightarrow> u64 \<Rightarrow> Layout \<Rightarrow> DuckInfo_t \<Rightarrow> u64 \<Rightarrow> u64 \<Rightarrow> App" where
  "make_app entry rsp l di ptr ptr32 = \<lparr>
     app_entry = entry,
     app_rsp = rsp,
     app_start_addr = load_vaddr_start l,
     app_break_addr = load_vaddr_break l,
     app_special_region_start_addr = load_vaddr_break l,
     app_special_region_break_addr = special_region_break l,
     app_stdin_start_addr = fst (stdin_load l),
     app_stdin_break_addr = snd (stdin_load l),
     app_duckinfo_orig = di,
     app_duckinfo_ptr = ptr,
     app_duckinfo32_ptr = ptr32\<rparr>"

text \<open>From the page flags on, nothing is refused any more.\<close>

definition load_body64 :: "u64 \<Rightarrow> bytes \<Rightarrow> u32 \<Rightarrow> AppConfig \<Rightarrow> Ehdr \<Rightarrow> Layout \<Rightarrow> PM \<Rightarrow> (App \<times> PM) option" where
  "load_body64 tscf buf len config h l m = do {
     m \<leftarrow> setup_pages l m;
     m \<leftarrow> for_opt (copy_segment read_phdr64 buf h) [0..<unat (e_phnum h)] m;
     m \<leftarrow> load_buffers buf len config l m;
     m \<leftarrow> vwrite (bytes64 0xf44c01c8 @ bytes64 0x22b64652) (fst (random_bytes_load l)) m;
     m \<leftarrow> set_duck_written (fst (random_bytes_load l)) (snd (random_bytes_load l)) m;
     m \<leftarrow> set_page_flags_user_readonly (fst (random_bytes_load l)) (snd (random_bytes_load l)) m;
     (ptr, rsp, m) \<leftarrow> setup_stack64 tscf config h l m;
     m \<leftarrow> for_opt (segment_flags read_phdr64 buf h) [0..<unat (e_phnum h)] m;
     m \<leftarrow> clear_access_and_dirty_flags (load_vaddr_start l) (special_region_break l) m;
     Some (make_app (e_entry h) rsp l (make_duckinfo tscf config l) ptr 0, m)
   }"

definition load_body32 :: "u64 \<Rightarrow> bytes \<Rightarrow> u32 \<Rightarrow> AppConfig \<Rightarrow> Ehdr \<Rightarrow> Layout \<Rightarrow> PM \<Rightarrow> (App \<times> PM) option" where
  "load_body32 tscf buf len config h l m = do {
     m \<leftarrow> setup_pages l m;
     m \<leftarrow> for_opt (copy_segment read_phdr32 buf h) [0..<unat (e_phnum h)] m;
     m \<leftarrow> load_buffers buf len config l m;
     (ptr, esp, m) \<leftarrow> setup_stack32 tscf config h l m;
     m \<leftarrow> for_opt (segment_flags read_phdr32 buf h) [0..<unat (e_phnum h)] m;
     m \<leftarrow> clear_access_and_dirty_flags (load_vaddr_start l) (special_region_break l) m;
     Some (make_app (e_entry h) esp l (make_duckinfo tscf config l) 0 ptr, m)
   }"

text \<open>The result is the loaded program, or a refusal, with the memory.\<close>

definition load_elf64 :: "u64 \<Rightarrow> bytes \<Rightarrow> u32 \<Rightarrow> AppConfig \<Rightarrow> PM \<Rightarrow> (App option \<times> PM) option" where
  "load_elf64 tscf buf len config m = do {
     h \<leftarrow> read_ehdr64 buf len;
     case h of None \<Rightarrow> Some (None, m) | Some h \<Rightarrow> do {
       rng \<leftarrow> scan_phdrs64 buf len h;
       case rng \<bind> layout64 config (get_vaddr_break m) of None \<Rightarrow> Some (None, m)
       | Some l \<Rightarrow> do { (app, m) \<leftarrow> load_body64 tscf buf len config h l m; Some (Some app, m) }
     }
   }"

definition load_elf32 :: "u64 \<Rightarrow> bytes \<Rightarrow> u32 \<Rightarrow> AppConfig \<Rightarrow> PM \<Rightarrow> (App option \<times> PM) option" where
  "load_elf32 tscf buf len config m = do {
     h \<leftarrow> read_ehdr32 buf len;
     case h of None \<Rightarrow> Some (None, m) | Some h \<Rightarrow> do {
       rng \<leftarrow> scan_phdrs32 buf len h;
       case rng \<bind> layout32 config (get_vaddr_break m) of None \<Rightarrow> Some (None, m)
       | Some l \<Rightarrow> do { (app, m) \<leftarrow> load_body32 tscf buf len config h l m; Some (Some app, m) }
     }
   }"

definition elf_load :: "u64 \<Rightarrow> bytes \<Rightarrow> u32 \<Rightarrow> AppConfig \<Rightarrow> PM \<Rightarrow> (App option \<times> PM) option" where
  "elf_load tscf buf len config m =
     (if unat len < EHDR32_SIZE then Some (None, m)
      else do {
        ei_class \<leftarrow> rd buf 4;
        if ei_class = ELFCLASS64 then load_elf64 tscf buf len config m
        else if ei_class = ELFCLASS32 then load_elf32 tscf buf len config m
        else Some (None, m)
      })"

section \<open>Reading the file stays inside of it\<close>

lemma read_phdr64_in: "off + 56 \<le> length buf \<Longrightarrow> \<exists>ph. read_phdr64 buf off = Some ph"
  using get64_in[of "off + 8" buf] get64_in[of "off + 16" buf] get64_in[of "off + 32" buf] get64_in[of "off + 40" buf] get64_in[of "off + 48" buf]
  by (auto simp: read_phdr64_def get32_in)

lemma read_phdr32_in: "off + 32 \<le> length buf \<Longrightarrow> \<exists>ph. read_phdr32 buf off = Some ph"
  by (auto simp: read_phdr32_def get32_in)

text \<open>The fields of an accepted header are small, so that the offsets of the program headers do not wrap.\<close>

definition ehdr_small :: "u32 \<Rightarrow> Ehdr \<Rightarrow> bool" where
  "ehdr_small len h \<longleftrightarrow> e_phoff h < ucast len \<and> unat (e_phentsize h) < 2 ^ 16 \<and> unat (e_phnum h) < 2 ^ 16"

lemma phdr_offset_unat:
  assumes "ehdr_small len h" "i < unat (e_phnum h)"
  shows "unat (phdr_offset h i) = unat (e_phoff h) + i * unat (e_phentsize h)" "unat (phdr_offset h i) < 2 ^ 33"
proof -
  have len: "unat (ucast len :: u64) < 2 ^ 32" using unat_ucast_up[of len, where 'b = 64] unsigned_less[of len, where 'a = nat] by simp
  have off: "unat (e_phoff h) < 2 ^ 32" using assms(1) len by (simp add: ehdr_small_def word_less_nat_alt)
  have "i * unat (e_phentsize h) \<le> (2 ^ 16 - 1) * (2 ^ 16 - 1)"
    by (rule mult_le_mono) (use assms in \<open>simp_all add: ehdr_small_def\<close>)
  then have prod: "i * unat (e_phentsize h) < 2 ^ 32" by simp
  have ui: "unat (of_nat i :: u64) = i" by (rule unat_of_nat_lt) (use assms in \<open>simp add: ehdr_small_def\<close>)
  have "unat (of_nat i * e_phentsize h) = i * unat (e_phentsize h)" using prod ui by (subst unat_mult_fits) simp_all
  then show "unat (phdr_offset h i) = unat (e_phoff h) + i * unat (e_phentsize h)"
    unfolding phdr_offset_def using prod off by (subst unat_add_fits) simp_all
  then show "unat (phdr_offset h i) < 2 ^ 33" using prod off by simp
qed

lemma scan_phdrs_total:
  assumes rdp: "\<And>off. off + psize \<le> length buf \<Longrightarrow> \<exists>ph. rdp buf off = Some ph" and "psize < 2 ^ 16" "unat len \<le> length buf"
    and h: "ehdr_small len h" and ids: "\<forall>i \<in> set ids. i < unat (e_phnum h)"
  shows "\<exists>r. scan_phdrs rdp psize align_ok buf len h ids mn mx = Some r"
  using ids
proof (induction ids arbitrary: mn mx)
  case (Cons i ids)
  then have IH: "\<exists>r. scan_phdrs rdp psize align_ok buf len h ids mn mx = Some r" for mn mx by simp
  show ?case
  proof (cases "phdr_offset h i + of_nat psize > ucast len")
    case False
    have ps: "unat (of_nat psize :: u64) = psize" by (rule unat_of_nat_lt) (use assms(2) in simp)
    have "unat (phdr_offset h i + of_nat psize) = unat (phdr_offset h i) + psize"
      using phdr_offset_unat(2)[OF h, of i] Cons.prems ps assms(2) by (subst unat_add_fits) simp_all
    moreover have "unat (phdr_offset h i + of_nat psize) \<le> unat len"
      using False unat_ucast_up[of len, where 'b = 64] by (simp add: word_le_nat_alt not_less)
    ultimately obtain ph where "rdp buf (unat (phdr_offset h i)) = Some ph" using rdp[of "unat (phdr_offset h i)"] assms(3) by auto
    then show ?thesis using False IH by simp
  qed simp
qed simp

lemma scan64_total: "unat len \<le> length buf \<Longrightarrow> ehdr_small len h \<Longrightarrow> \<exists>r. scan_phdrs64 buf len h = Some r"
  unfolding scan_phdrs64_def by (rule scan_phdrs_total) (auto simp: PHDR64_SIZE_def read_phdr64_in)

lemma scan32_total: "unat len \<le> length buf \<Longrightarrow> ehdr_small len h \<Longrightarrow> \<exists>r. scan_phdrs32 buf len h = Some r"
  unfolding scan_phdrs32_def by (rule scan_phdrs_total) (auto simp: PHDR32_SIZE_def read_phdr32_in)

lemma check_ident_total: "24 \<le> length buf \<Longrightarrow> \<exists>b. check_ident c mc buf = Some b"
  by (simp add: check_ident_def opt_simps)

lemma read_ehdr64_total:
  assumes "unat len \<le> length buf"
  shows "\<exists>r. read_ehdr64 buf len = Some r \<and> (\<forall>h. r = Some h \<longrightarrow> ehdr_small len h)"
proof (cases "unat len < 64")
  case False
  then have l: "64 \<le> length buf" using assms by simp
  obtain a b where "get64 buf 24 = Some a" "get64 buf 32 = Some b" using get64_in[of 24 buf] get64_in[of 32 buf] l by auto
  moreover obtain ok where "check_ident ELFCLASS64 62 buf = Some ok" using check_ident_total[of buf] l by auto
  moreover have "unat (ucast x :: u64) < 2 ^ 16" for x :: u16 using unat_ucast_up[of x, where 'b = 64] unsigned_less[of x, where 'a = nat] by simp
  ultimately show ?thesis using False l by (simp add: read_ehdr64_def EHDR64_SIZE_def get16_in Let_def ehdr_in_file_def ehdr_small_def)
qed (simp add: read_ehdr64_def EHDR64_SIZE_def)

lemma read_ehdr32_total:
  assumes "unat len \<le> length buf"
  shows "\<exists>r. read_ehdr32 buf len = Some r \<and> (\<forall>h. r = Some h \<longrightarrow> ehdr_small len h)"
proof (cases "unat len < 52")
  case False
  then have l: "52 \<le> length buf" using assms by simp
  obtain ok where "check_ident ELFCLASS32 3 buf = Some ok" using check_ident_total[of buf] l by auto
  moreover have "unat (ucast x :: u64) < 2 ^ 16" for x :: u16 using unat_ucast_up[of x, where 'b = 64] unsigned_less[of x, where 'a = nat] by simp
  ultimately show ?thesis using False l by (simp add: read_ehdr32_def EHDR32_SIZE_def get32_in get16_in Let_def ehdr_in_file_def ehdr_small_def)
qed (simp add: read_ehdr32_def EHDR32_SIZE_def)

lemma layout64_None: "layout64 config vb r = None"
  by (cases r) (simp add: layout64_def load_range_def Let_def get_kernel_break_def kernel_break_def)

text \<open>C30: A 64-bit program is always refused, without a read outside of the file and without a change of memory: it would have to be
  linked to the address 4 MiB, and this is below the end of the kernel.\<close>

theorem load_elf64_refuses:
  assumes "unat len \<le> length buf"
  shows "load_elf64 tscf buf len config m = Some (None, m)"
proof -
  obtain r where r: "read_ehdr64 buf len = Some r" "\<forall>h. r = Some h \<longrightarrow> ehdr_small len h" using read_ehdr64_total[OF assms] by blast
  show ?thesis
  proof (cases r)
    case (Some h)
    then obtain s where "scan_phdrs64 buf len h = Some s"
      using scan64_total[OF assms] r(2) by blast
    then show ?thesis using r Some by (cases s) (simp_all add: load_elf64_def layout64_None)
  qed (use r in \<open>simp add: load_elf64_def\<close>)
qed

definition demo_config :: AppConfig where
  "demo_config = \<lparr>cf_memory_hard_limit = 0x10000, cf_stdin_ptr = [], cf_stdin_size = 0, cf_stdout_max_size = 1, cf_stderr_max_size = 1,
     cf_IB_ptr = [], cf_IB_size = 0, cf_OB_ptr = [], cf_OB_size = 0, cf_OB_need_clear = True\<rparr>"

theorem load_elf64_refuses_witness:
  "load_elf64 0 (ELFMAG @ replicate 100 2) 100 demo_config zero_PM = Some (None, zero_PM)"
  by (rule load_elf64_refuses) (simp add: ELFMAG_def)

section \<open>Regions do not overlap\<close>

lemma round_up_page:
  "round_up sz PAGE_SIZE = 0 \<or> (unat sz \<le> unat (round_up sz PAGE_SIZE) \<and> unat (round_up sz PAGE_SIZE) < unat sz + 4096 \<and>
     unat (round_up sz PAGE_SIZE) mod 4096 = 0)"
proof (cases "unat sz + 4096 \<le> 2 ^ 64")
  case True
  then have "unat (round_up sz PAGE_SIZE) = (unat sz + 4096 - 1) div 4096 * 4096" using unat_round_up[of PAGE_SIZE sz] by (simp add: PAGE_SIZE_def)
  then show ?thesis using ceiling_multiple[of 4096 "unat sz"] by simp
next
  case False
  have "unat (4095 + sz) = unat sz + 4095 - 2 ^ 64" using False unsigned_less[of sz, where 'a = nat] by (simp add: unat_word_ariths(1) mod_if)
  then have "unat ((4095 + sz) div 4096) = 0" using unsigned_less[of sz, where 'a = nat] by (simp add: unat_div)
  then have "(4095 + sz) div 4096 = 0" by (simp only: unat_eq_0)
  then show ?thesis by (simp add: round_up_def PAGE_SIZE_def)
qed

definition region_fits :: "u64 \<times> u64 \<Rightarrow> u64 \<Rightarrow> bool" where
  "region_fits r n \<longleftrightarrow> unat (fst r) + unat n \<le> unat (snd r) \<and> unat (snd r) < unat (fst r) + unat n + 4096"

text \<open>Consecutive regions of whole pages between two addresses.\<close>

primrec tiles :: "u64 \<Rightarrow> (u64 \<times> u64) list \<Rightarrow> u64 \<Rightarrow> bool" where
  "tiles a [] b \<longleftrightarrow> a = b"
| "tiles a (r # rs) b \<longleftrightarrow> fst r = a \<and> a \<le> snd r \<and> unat (snd r) mod 4096 = 0 \<and> tiles (snd r) rs b"

lemma alloc_region_tile:
  assumes run: "alloc_region sz a = Some r" and al: "unat a mod 4096 = 0"
  shows "fst r = a \<and> a \<le> snd r \<and> unat (snd r) mod 4096 = 0 \<and> region_fits r sz"
proof -
  let ?n = "round_up sz PAGE_SIZE"
  have c: "sz \<le> ?n" "a \<le> a + ?n" "r = (a, a + ?n)" using run by (auto simp: alloc_region_def Let_def not_less split: if_splits)
  have up: "unat (a + ?n) = unat a + unat ?n" using c(2) by (simp only: unat_plus_simple[symmetric])
  have n: "unat ?n mod 4096 = 0" "unat ?n < unat sz + 4096" "unat sz \<le> unat ?n" using round_up_page[of sz] c(1) by (auto simp: word_le_nat_alt)
  then have "(unat a + unat ?n) mod 4096 = 0" using al by (simp add: mod_add_eq[symmetric])
  then show ?thesis using c up n by (simp add: region_fits_def word_le_nat_alt)
qed

lemma load_range_tile:
  assumes run: "load_range start config vb (mn, mx) = Some b" and al: "unat start mod 4096 = 0" "4096 \<le> unat start"
  shows "start \<le> mn \<and> unat mx + 4096 \<le> unat b \<and> start \<le> b \<and> unat b mod 4096 = 0 \<and> b \<le> vb"
proof -
  let ?n = "round_up (cf_memory_hard_limit config) PAGE_SIZE" and ?x = "round_up mx PAGE_SIZE"
  have c: "round_down mn PAGE_SIZE = start" "start < ?x" "?x - start \<le> ?n" "?x - start + PAGE_SIZE \<le> ?n" "start \<le> start + ?n" "b = start + ?n" "b \<le> vb"
    using run by (auto simp: load_range_def Let_def not_less not_le split: if_splits)
  have up: "unat (start + ?n) = unat start + unat ?n" using c(5) by (simp only: unat_plus_simple[symmetric])
  have x: "unat (?x - start) = unat ?x - unat start" using c(2) by (simp add: unat_sub less_imp_le)
  have mx: "unat mx \<le> unat ?x" using round_up_page[of mx] c(2) by auto
  have "unat (?x - start + PAGE_SIZE) = unat ?x - unat start + 4096"
    using x al unsigned_less[of ?x, where 'a = nat] by (subst unat_add_fits) (simp_all add: PAGE_SIZE_def)
  then have n: "unat ?x - unat start + 4096 \<le> unat ?n" using c(4) by (simp add: word_le_nat_alt)
  then have "unat ?n mod 4096 = 0" using round_up_page[of "cf_memory_hard_limit config"] by auto
  then have "(unat start + unat ?n) mod 4096 = 0" using al by (simp add: mod_add_eq[symmetric])
  moreover have "start \<le> mn" using round_down_le[of mn PAGE_SIZE] c(1) by simp
  moreover have "unat start < unat ?x" using c(2) by (simp add: word_less_nat_alt)
  ultimately show ?thesis using c up n mx by (simp add: word_le_nat_alt)
qed



end
