(* ===== verification/Kern_Trap.thy ===== *)
theory Kern_Trap
  imports Elf
begin

text \<open>
  Traps and running a user program, \<open>kern/trap.cpp\<close> and the entry points of \<open>kern/trap_entry.S\<close>.

  A handler of the source ends by jumping into an assembly routine that leaves the kernel; here it returns
  which one, with its frame. The program between two entries of the kernel is a parameter: what it is
  given is the frame and the memory, what it gives back is the trap it enters the kernel with and the
  memory then. Addresses of kernel objects, the time stamp counter and control registers are arguments.
  The log output is left out.
\<close>

section \<open>Structures\<close>

record InterruptDescriptor =
  ptr_low :: u16
  selector :: u16
  ist :: u8
  options :: u8
  ptr_mid :: u16
  ptr_high :: u32
  id_reserved :: u32

record PushRegs =
  rcx :: u64
  rbx :: u64
  rbp :: u64
  rsi :: u64
  rdi :: u64
  r8_r15 :: "u64 list"
  tsc :: u64
  rax :: u64
  rdx :: u64

record Trapframe =
  fxstate :: bytes
  tf_fsbase :: u64
  tf_regs :: PushRegs
  tf_num :: u64
  tf_errorcode :: u64
  tf_rip :: u64
  tf_cs :: u64
  tf_rflags :: u64
  tf_rsp :: u64
  tf_ss :: u64

record TaskState =
  ts_rsp :: "u64 list"
  ts_ist :: "u64 list"
  IOPB_offset :: u16

text \<open>The size is rounded up to the alignment of 16.\<close>

definition TSS_SIZE :: u64 where "TSS_SIZE = 112"

definition zero_regs :: PushRegs where
  "zero_regs = \<lparr>rcx = 0, rbx = 0, rbp = 0, rsi = 0, rdi = 0, r8_r15 = replicate 8 0, tsc = 0, rax = 0, rdx = 0\<rparr>"

definition zero_frame :: Trapframe where
  "zero_frame = \<lparr>fxstate = replicate 512 0, tf_fsbase = 0, tf_regs = zero_regs, tf_num = 0, tf_errorcode = 0, tf_rip = 0, tf_cs = 0,
     tf_rflags = 0, tf_rsp = 0, tf_ss = 0\<rparr>"

definition GDT_KERNEL_CS :: nat where "GDT_KERNEL_CS = 8"
definition GDT_KERNEL_SS :: nat where "GDT_KERNEL_SS = 16"
definition GDT_USER32_CS :: nat where "GDT_USER32_CS = 24"
definition GDT_USER_SS :: nat where "GDT_USER_SS = 32"
definition GDT_USER_CS :: nat where "GDT_USER_CS = 40"
definition GDT_USER32_SS :: nat where "GDT_USER32_SS = 48"
definition GDT_USER32_TLS :: nat where "GDT_USER32_TLS = 56"
definition GDT_ESPFIX_SS :: nat where "GDT_ESPFIX_SS = 64"
definition GDT_KERNEL32_CS :: nat where "GDT_KERNEL32_CS = 72"
definition GDT_TSS :: nat where "GDT_TSS = 80"

definition initial_gdt :: "u64 \<Rightarrow> u64 list" where
  "initial_gdt tss = [
     0,
     push_bit 43 1 OR push_bit 44 1 OR push_bit 47 1 OR push_bit 53 1,
     push_bit 44 1 OR push_bit 47 1 OR push_bit 41 1,
     0x00cffa000000ffff,
     push_bit 44 1 OR push_bit 47 1 OR push_bit 41 1 OR push_bit 45 3,
     push_bit 43 1 OR push_bit 44 1 OR push_bit 47 1 OR push_bit 53 1 OR push_bit 45 3,
     0x00cff2000000ffff,
     0,
     0,
     0x00cf9a000000ffff,
     (TSS_SIZE - 1) OR push_bit 16 (tss AND 0xffffff) OR push_bit 40 9 OR push_bit 45 0 OR push_bit 47 1 OR push_bit 53 1 OR
       push_bit 56 (drop_bit 24 tss),
     drop_bit 32 tss]"

definition STACK_SIZE :: u64 where "STACK_SIZE = 4096"
definition TRAP_IRQ :: u32 where "TRAP_IRQ = 32"
definition TRAP_RUN_USER :: u32 where "TRAP_RUN_USER = 233"
definition TRAP_RUN_USER32 :: u32 where "TRAP_RUN_USER32 = 234"
definition TRAP_ABORT :: u8 where "TRAP_ABORT = 253"
definition TRAP_INVALID_SYSCALL :: u8 where "TRAP_INVALID_SYSCALL = 254"
definition TRAP_SYSCALL :: u8 where "TRAP_SYSCALL = 255"
definition TRAP_SYSCALL32 :: u8 where "TRAP_SYSCALL32 = 128"
definition IRQ_TIMER :: u32 where "IRQ_TIMER = 0"

definition MSR_TSC_ADJUST :: u32 where "MSR_TSC_ADJUST = 0x3b"
definition MSR_Efer :: u32 where "MSR_Efer = 0xC0000080"
definition MSR_Star :: u32 where "MSR_Star = 0xC0000081"
definition MSR_LStar :: u32 where "MSR_LStar = 0xC0000082"
definition MSR_CStar :: u32 where "MSR_CStar = 0xC0000083"
definition MSR_SFMask :: u32 where "MSR_SFMask = 0xC0000084"

text \<open>The static state, with the model specific registers, the interrupt controller and the data segments.\<close>

record Trap =
  gdt :: "u64 list"
  idt :: "InterruptDescriptor list"
  task_state :: TaskState
  syscall_stack :: u64
  tf_run_user :: Trapframe
  tf_from_user :: Trapframe
  tf_to_user :: Trapframe
  user_time_limit_ns :: u64
  trap_epc :: u64
  trap_cr2 :: u64
  espfix_new_kernel_rsp :: u64
  msr :: "u32 \<Rightarrow> u64"
  lapic :: Lapic
  data_segments :: nat

section \<open>Interrupt descriptors\<close>

definition set_idt :: "nat \<Rightarrow> u64 \<Rightarrow> Trap \<Rightarrow> Trap option" where
  "set_idt i a s = do {
     ds \<leftarrow> wr (idt s) i \<lparr>
       ptr_low = ucast a,
       selector = of_nat GDT_KERNEL_CS,
       ist = 0,
       options = 14 OR push_bit 7 1,
       ptr_mid = ucast (drop_bit 16 a),
       ptr_high = ucast (drop_bit 32 a),
       id_reserved = 0\<rparr>;
     Some (s\<lparr>idt := ds\<rparr>)
   }"

text \<open>The address that the processor jumps to.\<close>

definition gate_target :: "InterruptDescriptor \<Rightarrow> u64" where
  "gate_target d = ucast (ptr_low d) OR push_bit 16 (ucast (ptr_mid d)) OR push_bit 32 (ucast (ptr_high d))"

definition allow_user_gate :: "nat \<Rightarrow> Trap \<Rightarrow> Trap option" where
  "allow_user_gate i s = do {
     d \<leftarrow> rd (idt s) i;
     ds \<leftarrow> wr (idt s) i (d\<lparr>options := options d OR push_bit 5 3\<rparr>);
     Some (s\<lparr>idt := ds\<rparr>)
   }"

section \<open>The trap handler\<close>

datatype leave =
  Trap_return Trapframe
| Syscall_return Trapframe
| Syscall_return_32 Trapframe
| Trap_0x80_return Trapframe
| Reboot

definition restore_tsc :: "Trapframe \<Rightarrow> Trap \<Rightarrow> Trapframe \<times> Trap" where
  "restore_tsc tf s = (tf\<lparr>tf_regs := (tf_regs tf)\<lparr>tsc := tsc (tf_regs tf) - msr s MSR_TSC_ADJUST\<rparr>\<rparr>,
     s\<lparr>msr := (msr s)(MSR_TSC_ADJUST := 0)\<rparr>)"

text \<open>The number is an \<open>int\<close>; it is extended with its sign when it becomes the result of the \<open>int\<close> instruction.\<close>

definition trap_num :: "Trapframe \<Rightarrow> u32" where "trap_num tf = ucast (tf_num tf)"

definition trap_from_user :: "u64 \<Rightarrow> Trapframe \<Rightarrow> Trap \<Rightarrow> leave \<times> Trap" where
  "trap_from_user cr2 tf s = (
     let s = s\<lparr>lapic := timer_disable (eoi (lapic s)), tf_from_user := tf\<rparr>;
         ru = tf_run_user s;
         tsc_subtract = tsc (tf_regs (tf_to_user s));
         ru = ru\<lparr>tf_regs := (tf_regs ru)\<lparr>rax := scast (trap_num tf), tsc := tsc (tf_regs (tf_from_user s)) - tsc_subtract\<rparr>\<rparr>;
         s = s\<lparr>tf_run_user := ru, trap_epc := tf_rip (tf_from_user s), trap_cr2 := cr2\<rparr>
     in (Trap_return ru, s))"

definition setup_run_user :: "u64 \<Rightarrow> (nat \<Rightarrow> u64) \<Rightarrow> bool \<Rightarrow> Trap \<Rightarrow> Trap option" where
  "setup_run_user trap_0x80_entry traps is32 s =
     (if is32 then do {
        let s = s\<lparr>data_segments := GDT_USER32_SS + 3\<rparr>;
        s \<leftarrow> set_idt 0x80 trap_0x80_entry s;
        allow_user_gate 0x80 s
      } else do {
        let s = s\<lparr>data_segments := 0\<rparr>;
        set_idt 0x80 (traps 0x80) s
      })"

definition trap_run_user :: "Timer \<Rightarrow> u64 \<Rightarrow> (nat \<Rightarrow> u64) \<Rightarrow> Trapframe \<Rightarrow> Trap \<Rightarrow> (leave \<times> Trap) option" where
  "trap_run_user t trap_0x80_entry traps tf s = do {
     let s = s\<lparr>tf_run_user := tf\<rparr>;
     g \<leftarrow> wr (gdt s) (GDT_USER32_TLS div 8) 0;
     let s = s\<lparr>gdt := g\<rparr>;
     s \<leftarrow> setup_run_user trap_0x80_entry traps (trap_num tf = TRAP_RUN_USER32) s;
     s \<leftarrow> (if user_time_limit_ns s \<noteq> 0 then do {
         let timer_cnt = user_time_limit_ns s div 500000;
         l \<leftarrow> timer_periodic_ns t 500000 (timer_cnt + timer_cnt div 1000 + 20) (lapic s);
         Some (s\<lparr>lapic := l\<rparr>)
       } else Some s);
     Some (if trap_num tf = TRAP_RUN_USER then Syscall_return (tf_to_user s) else Syscall_return_32 (tf_to_user s), s)
   }"

definition trap_handler :: "Timer \<Rightarrow> u64 \<Rightarrow> (nat \<Rightarrow> u64) \<Rightarrow> u64 \<Rightarrow> Trapframe \<Rightarrow> Trap \<Rightarrow> (leave \<times> Trap) option" where
  "trap_handler t trap_0x80_entry traps cr2 tf s = (
     let (tf, s) = restore_tsc tf s;
         num = trap_num tf in
     if tf_cs tf AND 3 \<noteq> 0 then Some (trap_from_user cr2 tf s)
     else if num = TRAP_IRQ + IRQ_TIMER then
       Some (Trap_return (tf\<lparr>tf_rflags := tf_rflags tf AND NOT 0x200\<rparr>), s\<lparr>lapic := timer_disable (eoi (lapic s))\<rparr>)
     else if num = TRAP_RUN_USER \<or> num = TRAP_RUN_USER32 then trap_run_user t trap_0x80_entry traps tf s
     else Some (Reboot, s))"

section \<open>The system call of 32-bit programs\<close>

definition prepare_espfix :: "u64 \<Rightarrow> u64 \<Rightarrow> Trap \<Rightarrow> Trap option" where
  "prepare_espfix orig_rsp new_rsp s = do {
     let base_addr = push_bit 16 (drop_bit 16 orig_rsp - drop_bit 16 new_rsp);
     let base_addr = (ucast (ucast base_addr :: u32) :: u64);
     let tmp = 0xffff OR push_bit 16 (base_addr AND 0xffffff) OR push_bit 56 (drop_bit 24 base_addr) OR 0x00cf920000000000;
     g \<leftarrow> wr (gdt s) (GDT_ESPFIX_SS div 8) tmp;
     Some (s\<lparr>gdt := g, espfix_new_kernel_rsp := ucast (ucast (orig_rsp - base_addr) :: u32)\<rparr>)
   }"

text \<open>The packed structure that the program passes: three words and eight bits of flags.\<close>

definition USER_DESC_SIZE :: u64 where "USER_DESC_SIZE = 13"

definition vget32 :: "u64 \<Rightarrow> PM \<Rightarrow> u32 option" where
  "vget32 v m = do { bs \<leftarrow> vread 4 v m; get32 bs 0 }"

definition EINVAL :: u64 where "EINVAL = 22"
definition EFAULT :: u64 where "EFAULT = 14"

definition tls_descriptor :: "u32 \<Rightarrow> u32 \<Rightarrow> u64" where
  "tls_descriptor base limit = (ucast limit AND 0xffff) OR push_bit 16 (ucast base AND 0xffffff) OR
     push_bit 56 (ucast (drop_bit 24 base)) OR 0x00cff20000000000"

definition set_thread_area :: "u64 \<Rightarrow> Trap \<Rightarrow> PM \<Rightarrow> (u64 \<times> Trap \<times> PM) option" where
  "set_thread_area p s m = do {
     ok1 \<leftarrow> user_writable_check p m;
     if \<not> ok1 then Some (- EFAULT, s, m)
     else do {
       ok2 \<leftarrow> user_writable_check (p + USER_DESC_SIZE - 1) m;
       if \<not> ok2 then Some (- EFAULT, s, m)
       else do {
         entry_number \<leftarrow> vget32 p m;
         if entry_number \<noteq> - 1 \<and> entry_number \<noteq> of_nat (GDT_USER32_TLS div 8) then Some (- EINVAL, s, m)
         else do {
           base_addr \<leftarrow> vget32 (p + 4) m;
           limit \<leftarrow> vget32 (p + 8) m;
           g \<leftarrow> wr (gdt s) (GDT_USER32_TLS div 8) (tls_descriptor base_addr limit);
           m \<leftarrow> vwrite (bytes32 (of_nat (GDT_USER32_TLS div 8))) p m;
           Some (0, s\<lparr>gdt := g\<rparr>, m)
         }
       }
     }
   }"

text \<open>\<open>frame_rip\<close> is the address of the field \<open>tf_rip\<close> of the frame on the kernel stack.\<close>

definition trap_0x80_handler :: "Timer \<Rightarrow> u64 \<Rightarrow> (nat \<Rightarrow> u64) \<Rightarrow> u64 \<Rightarrow> u64 \<Rightarrow> Trapframe \<Rightarrow> Trap \<Rightarrow> PM \<Rightarrow> (leave \<times> Trap \<times> PM) option" where
  "trap_0x80_handler t trap_0x80_entry traps frame_rip cr2 tf s m =
     (if (ucast (rax (tf_regs tf)) :: u32) = DUCK_sys_set_thread_area then do {
        s \<leftarrow> prepare_espfix frame_rip (tf_rsp tf) s;
        (ret, s, m) \<leftarrow> set_thread_area (ucast (ucast (rbx (tf_regs tf)) :: u32)) s m;
        Some (Trap_0x80_return (tf\<lparr>tf_regs := (tf_regs tf)\<lparr>rax := ret\<rparr>, tf_ss := of_nat (GDT_USER32_SS + 3)\<rparr>), s, m)
      } else do {
        (r, s) \<leftarrow> trap_handler t trap_0x80_entry traps cr2 tf s;
        Some (r, s, m)
      })"

section \<open>The timer\<close>

text \<open>The entry of the timer interrupt counts down and reaches the handler, \<^term>\<open>None\<close>, with the last one.\<close>

definition trap_32_entry :: "Lapic \<Rightarrow> Lapic option" where
  "trap_32_entry l = (if lapic_timer_cnt l - 1 = 0 then None else Some (eoi (l\<lparr>lapic_timer_cnt := lapic_timer_cnt l - 1\<rparr>)))"

section \<open>Initialisation\<close>

text \<open>\<open>stacks\<close> is the address of the interrupt stacks, \<open>traps\<close> the table of entry points.\<close>

definition interrupt_stack_top :: "u64 \<Rightarrow> nat \<Rightarrow> u64" where
  "interrupt_stack_top stacks i = stacks + of_nat i * STACK_SIZE + STACK_SIZE"

definition init_task_state :: "u64 \<Rightarrow> TaskState \<Rightarrow> TaskState option" where
  "init_task_state stacks ts = do {
     rsp \<leftarrow> wr (ts_rsp ts) 0 (interrupt_stack_top stacks 0);
     is \<leftarrow> for_opt (\<lambda>i xs. wr xs i (interrupt_stack_top stacks i)) [1..<8] (ts_ist ts);
     Some (ts\<lparr>ts_rsp := rsp, ts_ist := is, IOPB_offset := ucast TSS_SIZE\<rparr>)
   }"

definition init_msrs :: "u64 \<Rightarrow> (u32 \<Rightarrow> u64) \<Rightarrow> u32 \<Rightarrow> u64" where
  "init_msrs syscall_entry ms = ms(
     MSR_Efer := ms MSR_Efer OR 1,
     MSR_LStar := syscall_entry,
     MSR_CStar := syscall_entry,
     MSR_Star := push_bit 32 (of_nat GDT_KERNEL_CS) OR push_bit 48 (of_nat GDT_USER32_CS),
     MSR_SFMask := 0x200)"

definition trap_init :: "(nat \<Rightarrow> u64) \<Rightarrow> u64 \<Rightarrow> u64 \<Rightarrow> Trap \<Rightarrow> Trap option" where
  "trap_init traps stacks syscall_entry s = do {
     s \<leftarrow> for_opt (\<lambda>i. set_idt i (traps i)) [0..<256] s;
     s \<leftarrow> allow_user_gate 3 s;
     d \<leftarrow> rd (idt s) (unat TRAP_RUN_USER);
     ds \<leftarrow> wr (idt s) (unat TRAP_RUN_USER) (d\<lparr>ist := 7\<rparr>);
     let s = s\<lparr>idt := ds\<rparr>;
     ts \<leftarrow> init_task_state stacks (task_state s);
     top \<leftarrow> rd (ts_rsp ts) 0;
     Some (s\<lparr>task_state := ts, msr := init_msrs syscall_entry (msr s), syscall_stack := top\<rparr>)
   }"

section \<open>Running a program\<close>

definition make_trapframe :: "u64 \<Rightarrow> u64 \<Rightarrow> u64 \<Rightarrow> Trapframe" where
  "make_trapframe rflags rip rsp = zero_frame\<lparr>
     tf_rip := rip,
     tf_cs := of_nat (GDT_USER_CS + 3),
     tf_rflags := (rflags AND NOT 0x8d5) OR 0x200,
     tf_rsp := rsp,
     tf_ss := of_nat (GDT_USER_SS + 3)\<rparr>"

definition make_trapframe_32 :: "u64 \<Rightarrow> u64 \<Rightarrow> u64 \<Rightarrow> Trapframe" where
  "make_trapframe_32 rflags eip esp = zero_frame\<lparr>
     tf_rip := eip,
     tf_cs := of_nat (GDT_USER32_CS + 3),
     tf_rflags := (rflags AND NOT 0x8d5) OR 0x200,
     tf_rsp := esp,
     tf_ss := of_nat (GDT_USER32_SS + 3)\<rparr>"

text \<open>The frame of an \<open>int\<close> instruction in the kernel, \<open>kf\<close> being the registers at that point.\<close>

definition int_frame :: "u32 \<Rightarrow> Trapframe \<Rightarrow> Trapframe" where
  "int_frame num kf = kf\<lparr>tf_num := ucast num, tf_errorcode := 0, tf_cs := of_nat GDT_KERNEL_CS\<rparr>"

text \<open>On the way out the time stamp counter is read into the frame, at \<open>t1\<close>, and then set to zero, at \<open>t2\<close>. The processor
  adds the difference of a write to the adjustment register.\<close>

definition record_tsc :: "u64 \<Rightarrow> u64 \<Rightarrow> Trap \<Rightarrow> Trap" where
  "record_tsc t1 t2 s = s\<lparr>tf_to_user := (tf_to_user s)\<lparr>tf_regs := (tf_regs (tf_to_user s))\<lparr>tsc := t1\<rparr>\<rparr>,
     msr := (msr s)(MSR_TSC_ADJUST := msr s MSR_TSC_ADJUST - t2)\<rparr>"

text \<open>How the program enters the kernel: through an ordinary gate or the \<open>syscall\<close> instruction, or through the gate of
  \<open>int 0x80\<close>; with the fault address and, for the latter, the place of the frame.\<close>

datatype user_trap = User_trap u64 Trapframe | User_int80 u64 u64 Trapframe

type_synonym user_program = "nat \<Rightarrow> Trapframe \<Rightarrow> PM \<Rightarrow> (user_trap \<times> PM) option"

partial_function (option) user_loop :: "Timer \<Rightarrow> u64 \<Rightarrow> (nat \<Rightarrow> u64) \<Rightarrow> user_program \<Rightarrow> nat \<Rightarrow> Trapframe \<Rightarrow> Trap \<Rightarrow> PM \<Rightarrow>
    (leave \<times> Trap \<times> PM) option" where
  "user_loop t trap_0x80_entry traps user k tf s m = do {
     (ev, m) \<leftarrow> user k tf m;
     (r, s, m) \<leftarrow> (case ev of
         User_trap cr2 tf \<Rightarrow> do { (r, s) \<leftarrow> trap_handler t trap_0x80_entry traps cr2 tf s; Some (r, s, m) }
       | User_int80 frame_rip cr2 tf \<Rightarrow> trap_0x80_handler t trap_0x80_entry traps frame_rip cr2 tf s m);
     case r of Trap_0x80_return tf \<Rightarrow> user_loop t trap_0x80_entry traps user (Suc k) tf s m | _ \<Rightarrow> Some (r, s, m)
   }"

text \<open>The addresses and inputs of a run that the code does not compute.\<close>

record run_env =
  env_timer :: Timer
  env_0x80_entry :: u64
  env_traps :: "nat \<Rightarrow> u64"
  env_rflags :: u64
  env_kernel_frame :: Trapframe
  env_cr2 :: u64
  env_t1 :: u64
  env_t2 :: u64
  env_user :: user_program

text \<open>From the \<open>int\<close> instruction until it returns; the result is the low byte of the register it returns in.\<close>

definition int_run_user :: "run_env \<Rightarrow> u32 \<Rightarrow> Trap \<Rightarrow> PM \<Rightarrow> (u8 \<times> Trap \<times> PM) option" where
  "int_run_user env num s m = do {
     (r, s) \<leftarrow> trap_handler (env_timer env) (env_0x80_entry env) (env_traps env) (env_cr2 env) (int_frame num (env_kernel_frame env)) s;
     let s = record_tsc (env_t1 env) (env_t2 env) s;
     (r, s, m) \<leftarrow> user_loop (env_timer env) (env_0x80_entry env) (env_traps env) (env_user env) 0 (tf_to_user s) s m;
     case r of Trap_return tf \<Rightarrow> Some (ucast (rax (tf_regs tf)), s, m) | _ \<Rightarrow> None
   }"

definition SYS_tkill :: u32 where "SYS_tkill = 200"

text \<open>The trap number and the exit code that the caller sees; \<open>rc\<close> is the value of its variable before the call.\<close>

definition export_result_64 :: "u8 \<Rightarrow> Trapframe \<Rightarrow> u32 \<Rightarrow> u8 \<times> u32" where
  "export_result_64 num tf rc =
     (if num = TRAP_SYSCALL then
        let syscall_num = (ucast (rax (tf_regs tf)) :: u32) in
        if syscall_num = SYS_tkill then (TRAP_ABORT, rc)
        else if syscall_num \<noteq> DUCK_sys_exit then (TRAP_INVALID_SYSCALL, 0)
        else (num, ucast (rdi (tf_regs tf)))
      else (num, 0))"

definition export_result_32 :: "u8 \<Rightarrow> Trapframe \<Rightarrow> u8 \<times> u32" where
  "export_result_32 num tf =
     (if num = TRAP_SYSCALL32 then
        if (ucast (rax (tf_regs tf)) :: u32) \<noteq> DUCK_sys_exit_32 then (TRAP_INVALID_SYSCALL, 0)
        else (TRAP_SYSCALL, ucast (rbx (tf_regs tf)))
      else if num = TRAP_SYSCALL then (TRAP_INVALID_SYSCALL, 0)
      else (num, 0))"

definition run_user_64 :: "run_env \<Rightarrow> u64 \<Rightarrow> u64 \<Rightarrow> u64 \<Rightarrow> u32 \<Rightarrow> Trap \<Rightarrow> PM \<Rightarrow> ((u64 \<times> u8 \<times> u32) \<times> Trap \<times> PM) option" where
  "run_user_64 env entry rsp time_limit_ns rc s m = do {
     let s = s\<lparr>user_time_limit_ns := time_limit_ns, tf_to_user := make_trapframe (env_rflags env) entry rsp\<rparr>;
     (num, s, m) \<leftarrow> int_run_user env TRAP_RUN_USER s m;
     Some ((tsc (tf_regs (tf_run_user s)), export_result_64 num (tf_from_user s) rc), s, m)
   }"

definition run_user_32 :: "run_env \<Rightarrow> u64 \<Rightarrow> u64 \<Rightarrow> u64 \<Rightarrow> Trap \<Rightarrow> PM \<Rightarrow> ((u64 \<times> u8 \<times> u32) \<times> Trap \<times> PM) option" where
  "run_user_32 env entry esp time_limit_ns s m = do {
     let s = s\<lparr>user_time_limit_ns := time_limit_ns, tf_to_user := make_trapframe_32 (env_rflags env) entry esp\<rparr>;
     (num, s, m) \<leftarrow> int_run_user env TRAP_RUN_USER32 s m;
     Some ((tsc (tf_regs (tf_run_user s)), export_result_32 num (tf_from_user s)), s, m)
   }"

section \<open>Gates\<close>

definition user_callable :: "InterruptDescriptor \<Rightarrow> bool" where
  "user_callable d \<longleftrightarrow> options d AND 0x60 \<noteq> 0"

lemma gate_target_split: "gate_target \<lparr>ptr_low = ucast a, selector = sel, ist = n, options = opt, ptr_mid = ucast (drop_bit 16 a),
    ptr_high = ucast (drop_bit 32 a), id_reserved = r\<rparr> = a"
proof (rule bit_word_eqI)
  fix n assume "n < LENGTH(64)"
  then consider "n < 16" | "16 \<le> n" "n < 32" | "32 \<le> n" "n < 64" by force
  then show "bit (gate_target \<lparr>ptr_low = ucast a, selector = sel, ist = n', options = opt, ptr_mid = ucast (drop_bit 16 a),
    ptr_high = ucast (drop_bit 32 a), id_reserved = r\<rparr>) n = bit a n" for n'
    by cases (auto simp: gate_target_def bit_simps)
qed

lemma gate_target_update [simp]: "gate_target (d\<lparr>options := x\<rparr>) = gate_target d" "gate_target (d\<lparr>ist := y\<rparr>) = gate_target d"
  by (simp_all add: gate_target_def)

lemma user_callable_update: "\<not> user_callable \<lparr>ptr_low = a, selector = sel, ist = n, options = 14 OR push_bit 7 1, ptr_mid = b,
    ptr_high = c, id_reserved = r\<rparr>" "user_callable (d\<lparr>options := options d OR push_bit 5 3\<rparr>)" "user_callable (d\<lparr>ist := y\<rparr>) = user_callable d"
proof -
  have "bit ((options d OR push_bit 5 3) AND 0x60) 5" by (simp add: bit_simps)
  then show "user_callable (d\<lparr>options := options d OR push_bit 5 3\<rparr>)" by (auto simp: user_callable_def)
qed (simp_all add: user_callable_def)

text \<open>A table in which every gate leads to its entry, apart from the gate of \<open>int 0x80\<close> which may have been opened for a
  32-bit program.\<close>

definition gates_ok :: "u64 \<Rightarrow> (nat \<Rightarrow> u64) \<Rightarrow> nat set \<Rightarrow> InterruptDescriptor list \<Rightarrow> bool" where
  "gates_ok e80 traps U ds \<longleftrightarrow> length ds = 256 \<and>
     (\<forall>i < 256. (user_callable (ds ! i) \<longleftrightarrow> i \<in> U) \<and> gate_target (ds ! i) = (if i = 0x80 \<and> 0x80 \<in> U then e80 else traps i))"

lemma set_idt_Some: "i < length (idt s) \<Longrightarrow> \<exists>d. set_idt i a s = Some (s\<lparr>idt := (idt s)[i := d]\<rparr>) \<and> gate_target d = a \<and> \<not> user_callable d"
  using gate_target_split user_callable_update(1) by (auto simp: set_idt_def wr_in)

lemma allow_user_gate_Some: "i < length (idt s) \<Longrightarrow>
    \<exists>d. allow_user_gate i s = Some (s\<lparr>idt := (idt s)[i := d]\<rparr>) \<and> gate_target d = gate_target (idt s ! i) \<and> user_callable d"
  using user_callable_update(2) by (auto simp: allow_user_gate_def opt_simps)

lemma init_gates:
  assumes "length (idt s) = 256" "n \<le> 256"
  shows "\<exists>ds. for_opt (\<lambda>i. set_idt i (traps i)) [0..<n] s = Some (s\<lparr>idt := ds\<rparr>) \<and> length ds = 256 \<and>
    (\<forall>i < n. gate_target (ds ! i) = traps i \<and> \<not> user_callable (ds ! i))"
  using assms(2)
proof (induction n)
  case 0
  then show ?case using assms(1) by (auto intro: exI[of _ "idt s"])
next
  case (Suc n)
  then obtain ds where ds: "for_opt (\<lambda>i. set_idt i (traps i)) [0..<n] s = Some (s\<lparr>idt := ds\<rparr>)" "length ds = 256"
    "\<forall>i < n. gate_target (ds ! i) = traps i \<and> \<not> user_callable (ds ! i)" by auto
  obtain d where "set_idt n (traps n) (s\<lparr>idt := ds\<rparr>) = Some (s\<lparr>idt := ds[n := d]\<rparr>)" "gate_target d = traps n" "\<not> user_callable d"
    using set_idt_Some[of n "s\<lparr>idt := ds\<rparr>" "traps n"] ds(2) Suc.prems by auto
  then show ?case using ds Suc.prems by (auto simp: for_opt_append nth_list_update less_Suc_eq intro!: exI[of _ "ds[n := d]"])
qed

text \<open>Which gates a program may call while it runs.\<close>

definition open_gates :: "bool \<Rightarrow> nat set" where
  "open_gates is32 = (if is32 then {3, 0x80} else {3})"

lemma setup_run_user_gates:
  assumes "gates_ok e80 traps U (idt s)" "U = {3} \<or> U = {3, 0x80}"
  shows "\<exists>s'. setup_run_user e80 traps is32 s = Some s' \<and> gates_ok e80 traps (open_gates is32) (idt s') \<and> gdt s' = gdt s \<and>
    user_time_limit_ns s' = user_time_limit_ns s \<and> lapic s' = lapic s \<and> msr s' = msr s \<and> tf_to_user s' = tf_to_user s \<and> tf_run_user s' = tf_run_user s"
proof -
  have l: "length (idt s) = 256" and g: "\<And>i. i < 256 \<Longrightarrow> i \<noteq> 0x80 \<Longrightarrow> (user_callable (idt s ! i) \<longleftrightarrow> i = 3) \<and> gate_target (idt s ! i) = traps i"
    using assms by (auto simp: gates_ok_def)
  show ?thesis
  proof (cases is32)
    case True
    let ?s = "s\<lparr>data_segments := GDT_USER32_SS + 3\<rparr>"
    obtain d where d: "set_idt 0x80 e80 ?s = Some (?s\<lparr>idt := (idt s)[0x80 := d]\<rparr>)" "gate_target d = e80"
      using set_idt_Some[of "0x80" ?s e80] l by auto
    obtain d' where d': "allow_user_gate 0x80 (?s\<lparr>idt := (idt s)[0x80 := d]\<rparr>) = Some (?s\<lparr>idt := (idt s)[0x80 := d']\<rparr>)"
        "gate_target d' = e80" "user_callable d'"
      using allow_user_gate_Some[of "0x80" "?s\<lparr>idt := (idt s)[0x80 := d]\<rparr>"] l d(2) by auto
    have "gates_ok e80 traps {3, 0x80} ((idt s)[0x80 := d'])" using l g d' by (auto simp: gates_ok_def nth_list_update)
    then show ?thesis using True d d' by (simp add: setup_run_user_def open_gates_def)
  next
    case False
    let ?s = "s\<lparr>data_segments := 0\<rparr>"
    obtain d where d: "set_idt 0x80 (traps 0x80) ?s = Some (?s\<lparr>idt := (idt s)[0x80 := d]\<rparr>)" "gate_target d = traps 0x80" "\<not> user_callable d"
      using set_idt_Some[of "0x80" ?s "traps 0x80"] l by auto
    have "gates_ok e80 traps {3} ((idt s)[0x80 := d])" using l g d by (auto simp: gates_ok_def nth_list_update)
    then show ?thesis using False d by (simp add: setup_run_user_def open_gates_def)
  qed
qed

section \<open>The tables stay well-formed\<close>

text \<open>Access rights and granularity of a descriptor.\<close>

definition access_bits :: "u64 \<Rightarrow> u64" where
  "access_bits d = drop_bit 40 d AND 0xffff"

definition gdt_ok :: "u64 \<Rightarrow> u64 list \<Rightarrow> bool" where
  "gdt_ok tss g \<longleftrightarrow> length g = 12 \<and> (\<forall>i < 12. i \<noteq> 7 \<and> i \<noteq> 8 \<longrightarrow> g ! i = initial_gdt tss ! i) \<and>
     (g ! 7 = 0 \<or> access_bits (g ! 7) = 0xcff2) \<and> (g ! 8 = 0 \<or> access_bits (g ! 8) = 0xcf92)"

definition trap_wf :: "u64 \<Rightarrow> u64 \<Rightarrow> (nat \<Rightarrow> u64) \<Rightarrow> Trap \<Rightarrow> bool" where
  "trap_wf tss e80 traps s \<longleftrightarrow> gdt_ok tss (gdt s) \<and> (gates_ok e80 traps (open_gates True) (idt s) \<or> gates_ok e80 traps (open_gates False) (idt s))"

lemma drop_40_small: "drop_bit 40 (push_bit 16 (x AND 0xffffff)) = (0 :: u64)"
proof -
  have m: "(0xffffff :: u64) = mask 24" by (simp add: mask_eq_exp_minus_1)
  show ?thesis unfolding m by (rule bit_word_eqI) (auto simp: bit_simps)
qed

lemma access_descriptor:
  assumes "a < 0x10000" "c = push_bit 40 k" "k AND 0xffff = k"
  shows "access_bits (a OR push_bit 16 (b AND 0xffffff) OR push_bit 56 h OR c) = k"
proof -
  have m: "(0xffff :: u64) = mask 16" by (simp add: mask_eq_exp_minus_1)
  have a: "drop_bit 40 a = 0"
  proof -
    have "unat a < 0x10000" using assms(1) by (simp add: word_less_nat_alt)
    moreover have "unat (drop_bit 40 a) = unat a div 2 ^ 40" by (simp add: drop_bit_eq_div unat_div)
    ultimately have "unat (drop_bit 40 a) = 0" by simp
    then show ?thesis by (simp only: unat_eq_0)
  qed
  have h: "drop_bit 40 (push_bit 56 h) AND mask 16 = (0 :: u64)" by (rule bit_word_eqI) (auto simp: bit_simps)
  have c: "drop_bit 40 c AND mask 16 = k" unfolding assms(2)
  proof (rule bit_word_eqI)
    fix n assume n: "n < LENGTH(64)"
    have "bit k n \<Longrightarrow> n < 16" using assms(3) unfolding m by (metis bit_and_iff bit_mask_iff)
    then show "bit (drop_bit 40 (push_bit 40 k) AND mask 16) n = bit k n" by (auto simp: bit_simps)
  qed
  show ?thesis unfolding access_bits_def m using h c a drop_40_small[of b]
    by (simp add: drop_bit_or bit.conj_disj_distrib2)
qed

lemma access_tls: "access_bits (tls_descriptor base limit) = 0xcff2"
  unfolding tls_descriptor_def by (rule access_descriptor) (simp_all add: word_and_le2 le_less_trans[OF word_and_le1])

lemma gdt_ok_tls: "gdt_ok tss g \<Longrightarrow> d = 0 \<or> access_bits d = 0xcff2 \<Longrightarrow> gdt_ok tss (g[7 := d])"
  by (auto simp: gdt_ok_def nth_list_update)

lemma prepare_espfix_wf: "trap_wf tss e80 traps s \<Longrightarrow> prepare_espfix a b s = Some s' \<Longrightarrow> trap_wf tss e80 traps s'"
proof -
  assume wf: "trap_wf tss e80 traps s" and run: "prepare_espfix a b s = Some s'"
  obtain x h where s': "gdt s' = (gdt s)[8 := 0xffff OR push_bit 16 (x AND 0xffffff) OR push_bit 56 h OR 0x00cf920000000000]" "idt s' = idt s"
    using run by (auto simp: prepare_espfix_def Let_def GDT_ESPFIX_SS_def dest!: wr_SomeD split: bind_splits)
  have "access_bits (0xffff OR push_bit 16 (x AND 0xffffff) OR push_bit 56 h OR 0x00cf920000000000) = 0xcf92" by (rule access_descriptor) simp_all
  then show ?thesis using wf s' by (auto simp: trap_wf_def gdt_ok_def nth_list_update)
qed

lemma set_thread_area_wf: "trap_wf tss e80 traps s \<Longrightarrow> set_thread_area p s m = Some (r, s', m') \<Longrightarrow> trap_wf tss e80 traps s'"
  using gdt_ok_tls[of tss "gdt s"] access_tls
  by (auto simp: set_thread_area_def trap_wf_def GDT_USER32_TLS_def dest!: wr_SomeD split: bind_splits if_splits)

lemma run_user_wf:
  assumes wf: "trap_wf tss e80 traps s" and run: "trap_run_user t e80 traps tf s = Some (r, s')"
  shows "trap_wf tss e80 traps s'"
proof -
  let ?s = "s\<lparr>tf_run_user := tf, gdt := (gdt s)[7 := 0]\<rparr>"
  have l: "length (gdt s) = 12" using wf by (simp add: trap_wf_def gdt_ok_def)
  obtain U where U: "gates_ok e80 traps U (idt ?s)" "U = {3} \<or> U = {3, 0x80}" using wf by (auto simp: trap_wf_def open_gates_def)
  obtain s1 where s1: "setup_run_user e80 traps (trap_num tf = TRAP_RUN_USER32) ?s = Some s1"
      "gates_ok e80 traps (open_gates (trap_num tf = TRAP_RUN_USER32)) (idt s1)" "gdt s1 = (gdt s)[7 := 0]"
    using setup_run_user_gates[OF U, of "trap_num tf = TRAP_RUN_USER32"] by auto
  have g: "gdt_ok tss (gdt s1)" using wf s1(3) gdt_ok_tls[of tss "gdt s" 0] by (simp add: trap_wf_def)
  have "idt s' = idt s1 \<and> gdt s' = gdt s1"
    using run s1(1) l by (auto simp: trap_run_user_def Let_def wr_in GDT_USER32_TLS_def split: bind_splits if_splits)
  then show ?thesis using g s1(2) by (cases "trap_num tf = TRAP_RUN_USER32") (simp_all add: trap_wf_def)
qed

lemma trap_handler_wf:
  assumes wf: "trap_wf tss e80 traps s" and run: "trap_handler t e80 traps cr2 tf s = Some (r, s')"
  shows "trap_wf tss e80 traps s'"
proof -
  obtain tf1 s1 where r: "restore_tsc tf s = (tf1, s1)" by fastforce
  then have wf1: "trap_wf tss e80 traps s1" using wf by (auto simp: restore_tsc_def trap_wf_def)
  have "trap_wf tss e80 traps (snd (trap_from_user cr2 tf1 s1))" "trap_wf tss e80 traps (s1\<lparr>lapic := l\<rparr>)" for l
    using wf1 by (simp_all add: trap_from_user_def Let_def trap_wf_def)
  then show ?thesis using run r wf1 run_user_wf[OF wf1] by (auto simp: trap_handler_def Let_def split: if_splits)
qed

lemma trap_0x80_handler_wf:
  assumes wf: "trap_wf tss e80 traps s" and run: "trap_0x80_handler t e80 traps fr cr2 tf s m = Some (r, s', m')"
  shows "trap_wf tss e80 traps s'"
proof (cases "(ucast (rax (tf_regs tf)) :: u32) = DUCK_sys_set_thread_area")
  case True
  then obtain s1 x where "prepare_espfix fr (tf_rsp tf) s = Some s1" "set_thread_area (ucast (ucast (rbx (tf_regs tf)) :: u32)) s1 m = Some (x, s', m')"
    using run by (auto simp: trap_0x80_handler_def split: bind_splits)
  then show ?thesis using prepare_espfix_wf[OF wf] set_thread_area_wf by blast
next
  case False
  then have "trap_handler t e80 traps cr2 tf s = Some (r, s')" using run by (auto simp: trap_0x80_handler_def split: bind_splits)
  then show ?thesis by (rule trap_handler_wf[OF wf])
qed

lemma user_step_wf:
  assumes "(case ev of User_trap cr2 tf \<Rightarrow> do { (r, s) \<leftarrow> trap_handler t e80 traps cr2 tf s; Some (r, s, m) }
       | User_int80 fr cr2 tf \<Rightarrow> trap_0x80_handler t e80 traps fr cr2 tf s m) = Some (r, s', m')" "trap_wf tss e80 traps s"
  shows "trap_wf tss e80 traps s'"
proof (cases ev)
  case (User_trap cr2 tf)
  then have "trap_handler t e80 traps cr2 tf s = Some (r, s')" using assms(1) by (auto split: bind_splits)
  then show ?thesis by (rule trap_handler_wf[OF assms(2)])
next
  case (User_int80 fr cr2 tf)
  then have "trap_0x80_handler t e80 traps fr cr2 tf s m = Some (r, s', m')" using assms(1) by simp
  then show ?thesis by (rule trap_0x80_handler_wf[OF assms(2)])
qed

lemma user_loop_wf:
  assumes "user_loop t e80 traps user k tf s m = Some y" "trap_wf tss e80 traps s"
  shows "trap_wf tss e80 traps (fst (snd y))"
proof -
  have "trap_wf tss e80 traps s \<longrightarrow> trap_wf tss e80 traps (fst (snd y))"
  proof (rule user_loop.raw_induct[OF _ assms(1)])
    fix loop t e80 traps user k tf s m y
    assume IH: "\<And>t e80 traps user k tf s m y. loop t e80 traps user k tf s m = Some y \<Longrightarrow> trap_wf tss e80 traps s \<longrightarrow> trap_wf tss e80 traps (fst (snd y))"
      and body: "do { (ev, m) \<leftarrow> user k tf m;
         (r, s, m) \<leftarrow> (case ev of
             User_trap cr2 tf \<Rightarrow> do { (r, s) \<leftarrow> trap_handler t e80 traps cr2 tf s; Some (r, s, m) }
           | User_int80 frame_rip cr2 tf \<Rightarrow> trap_0x80_handler t e80 traps frame_rip cr2 tf s m);
         case r of Trap_0x80_return tf \<Rightarrow> loop t e80 traps user (Suc k) tf s m | _ \<Rightarrow> Some (r, s, m) } = Some y"
    obtain ev m1 where u: "user k tf m = Some (ev, m1)" using body by (cases "user k tf m") auto
    obtain r s2 m2 where st: "(case ev of User_trap cr2 tf \<Rightarrow> do { (r, s) \<leftarrow> trap_handler t e80 traps cr2 tf s; Some (r, s, m1) }
           | User_int80 fr cr2 tf \<Rightarrow> trap_0x80_handler t e80 traps fr cr2 tf s m1) = Some (r, s2, m2)" (is "?st = _")
      using body u by (cases ?st) auto
    have rest: "(case r of Trap_0x80_return tf \<Rightarrow> loop t e80 traps user (Suc k) tf s2 m2 | _ \<Rightarrow> Some (r, s2, m2)) = Some y"
      using body u st by simp
    have "trap_wf tss e80 traps s \<Longrightarrow> trap_wf tss e80 traps s2" by (rule user_step_wf[OF st])
    then show "trap_wf tss e80 traps s \<longrightarrow> trap_wf tss e80 traps (fst (snd y))" using rest IH by (cases r) auto
  qed
  then show ?thesis using assms(2) by simp
qed

lemma int_run_user_wf:
  assumes "trap_wf tss (env_0x80_entry env) (env_traps env) s" "int_run_user env num s m = Some (n, s', m')"
  shows "trap_wf tss (env_0x80_entry env) (env_traps env) s'"
proof -
  have rec: "trap_wf tss e80 traps (record_tsc a b s) = trap_wf tss e80 traps s" for tss e80 traps a b s
    by (simp add: record_tsc_def trap_wf_def)
  let ?h = "trap_handler (env_timer env) (env_0x80_entry env) (env_traps env) (env_cr2 env) (int_frame num (env_kernel_frame env)) s"
  obtain r s1 where run1: "?h = Some (r, s1)" using assms(2) by (cases ?h) (auto simp: int_run_user_def)
  let ?s = "record_tsc (env_t1 env) (env_t2 env) s1"
  let ?u = "user_loop (env_timer env) (env_0x80_entry env) (env_traps env) (env_user env) 0 (tf_to_user ?s) ?s m"
  have "\<exists>r2. ?u = Some (r2, s', m')"
  proof (cases ?u)
    case (Some x)
    obtain r2 s2 m2 where x: "x = (r2, s2, m2)" by (cases x) auto
    then show ?thesis using assms(2) run1 Some by (cases r2) (simp_all add: int_run_user_def Let_def)
  qed (use assms(2) run1 in \<open>simp add: int_run_user_def Let_def\<close>)
  then obtain r2 where run2: "?u = Some (r2, s', m')" by blast
  have "trap_wf tss (env_0x80_entry env) (env_traps env) (record_tsc (env_t1 env) (env_t2 env) s1)"
    unfolding rec by (rule trap_handler_wf[OF assms(1) run1])
  from user_loop_wf[OF run2 this] show ?thesis by simp
qed

section \<open>Properties\<close>

lemma nth_of_twelve: "length [a, b, c, d, e, f, g, h, i, j, k, l] = 12" "[a, b, c, d, e, f, g, h, i, j, k, l] ! 7 = h"
  "[a, b, c, d, e, f, g, h, i, j, k, l] ! 8 = i"
  by simp_all

lemma initial_gdt_entries: "length (initial_gdt tss) = 12" "initial_gdt tss ! 7 = 0" "initial_gdt tss ! 8 = 0"
  unfolding initial_gdt_def by (rule nth_of_twelve)+

text \<open>C32: After the initialisation every one of the 256 gates leads to its own entry point, a program can call the breakpoint gate and no
  other, and each privileged stack starts at the top of its own area.\<close>

theorem trap_init_gates:
  assumes "length (idt s) = 256" "length (ts_rsp (task_state s)) = 3" "length (ts_ist (task_state s)) = 8" "gdt s = initial_gdt tss"
  shows "\<exists>s'. trap_init traps stacks entry s = Some s' \<and> gates_ok e80 traps {3} (idt s') \<and> trap_wf tss e80 traps s' \<and>
    syscall_stack s' = stacks + 4096 \<and> (\<forall>i \<in> {1..7}. ts_ist (task_state s') ! i = stacks + of_nat i * 4096 + 4096)"
proof -
  obtain ds where ds: "for_opt (\<lambda>i. set_idt i (traps i)) [0..<256] s = Some (s\<lparr>idt := ds\<rparr>)" "length ds = 256"
      "\<forall>i < 256. gate_target (ds ! i) = traps i \<and> \<not> user_callable (ds ! i)"
    using init_gates[OF assms(1), of 256 traps] by auto
  obtain d where d: "allow_user_gate 3 (s\<lparr>idt := ds\<rparr>) = Some (s\<lparr>idt := ds[3 := d]\<rparr>)" "gate_target d = traps 3" "user_callable d"
    using allow_user_gate_Some[of 3 "s\<lparr>idt := ds\<rparr>"] ds(2,3) by auto
  let ?ds = "ds[3 := d, 233 := (ds ! 233)\<lparr>ist := 7\<rparr>]"
  have g: "gates_ok e80 traps {3} ?ds"
    using ds(2,3) d(2,3) user_callable_update(3) by (auto simp: gates_ok_def nth_list_update)
  obtain sts where sts: "for_opt (\<lambda>i xs. wr xs i (interrupt_stack_top stacks i)) [1..<8] (ts_ist (task_state s)) = Some sts"
      "\<forall>i \<in> {1..7}. sts ! i = stacks + of_nat i * 4096 + 4096"
  proof -
    have up: "[1..<8] = [1, 2, 3, 4, 5, 6, 7 :: nat]" by (simp add: upt_rec)
    have rng: "{1..7 :: nat} = {1, 2, 3, 4, 5, 6, 7}" by auto
    let ?f = "interrupt_stack_top stacks" and ?xs = "ts_ist (task_state s)"
    have "for_opt (\<lambda>i xs. wr xs i (?f i)) [1..<8] ?xs = Some (?xs[1 := ?f 1, 2 := ?f 2, 3 := ?f 3, 4 := ?f 4, 5 := ?f 5, 6 := ?f 6, 7 := ?f 7])"
      unfolding up by (simp add: wr_in assms(3))
    then show thesis by (rule that) (unfold rng, simp add: assms(3) nth_list_update interrupt_stack_top_def STACK_SIZE_def)
  qed
  let ?ts = "(task_state s)\<lparr>ts_rsp := (ts_rsp (task_state s))[0 := stacks + 4096], ts_ist := sts, IOPB_offset := ucast TSS_SIZE\<rparr>"
  have ts: "init_task_state stacks (task_state s) = Some ?ts"
    using sts(1) assms(2) by (simp add: init_task_state_def wr_in interrupt_stack_top_def STACK_SIZE_def)
  have run: "trap_init traps stacks entry s = Some (s\<lparr>idt := ?ds, task_state := ?ts, msr := init_msrs entry (msr s), syscall_stack := stacks + 4096\<rparr>)"
    using ds(1,2) d(1) ts assms(2) by (simp add: trap_init_def TRAP_RUN_USER_def opt_simps Let_def)
  have "gdt_ok tss (initial_gdt tss)" by (simp add: gdt_ok_def initial_gdt_entries)
  then show ?thesis using run g sts(2) assms(4) by (simp add: trap_wf_def open_gates_def)
qed

definition demo_trap :: Trap where
  "demo_trap = \<lparr>gdt = initial_gdt 0, idt = replicate 256 \<lparr>ptr_low = 0, selector = 0, ist = 0, options = 0, ptr_mid = 0, ptr_high = 0, id_reserved = 0\<rparr>,
     task_state = \<lparr>ts_rsp = replicate 3 0, ts_ist = replicate 8 0, IOPB_offset = 0\<rparr>, syscall_stack = 0, tf_run_user = zero_frame,
     tf_from_user = zero_frame, tf_to_user = zero_frame, user_time_limit_ns = 0, trap_epc = 0, trap_cr2 = 0, espfix_new_kernel_rsp = 0,
     msr = (\<lambda>_. 0), lapic = \<lparr>lapic_writes = [], lapic_timer_cnt = 0\<rparr>, data_segments = 0\<rparr>"

theorem trap_init_gates_witness:
  "\<exists>s'. trap_init (\<lambda>i. of_nat i) 0x5000 7 demo_trap = Some s' \<and> gates_ok 9 (\<lambda>i. of_nat i) {3} (idt s') \<and> trap_wf 0 9 (\<lambda>i. of_nat i) s'"
proof -
  have "\<exists>s'. trap_init (\<lambda>i. of_nat i) 0x5000 7 demo_trap = Some s' \<and> gates_ok 9 (\<lambda>i. of_nat i) {3} (idt s') \<and> trap_wf 0 9 (\<lambda>i. of_nat i) s' \<and>
    syscall_stack s' = 0x5000 + 4096 \<and> (\<forall>i \<in> {1..7}. ts_ist (task_state s') ! i = 0x5000 + of_nat i * 4096 + 4096)"
    by (rule trap_init_gates) (simp_all add: demo_trap_def)
  then show ?thesis by blast
qed

text \<open>C33: Whatever a program does, the descriptor tables stay well-formed: a program of either kind cannot get a descriptor with the
  rights of the kernel, change another entry of the table, or redirect a gate.\<close>

theorem run_user_wf_tables:
  assumes "trap_wf tss (env_0x80_entry env) (env_traps env) s"
  shows "(run_user_64 env entry rsp limit rc s m = Some (r64, s64, m64) \<longrightarrow> trap_wf tss (env_0x80_entry env) (env_traps env) s64) \<and>
    (run_user_32 env entry rsp limit s m = Some (r32, s32, m32) \<longrightarrow> trap_wf tss (env_0x80_entry env) (env_traps env) s32)"
proof -
  have wf: "trap_wf tss (env_0x80_entry env) (env_traps env) (s\<lparr>user_time_limit_ns := limit, tf_to_user := tf\<rparr>)" for tf
    using assms by (simp add: trap_wf_def)
  show ?thesis using int_run_user_wf[OF wf] unfolding run_user_64_def run_user_32_def Let_def by (auto split: bind_splits)
qed

lemma timer_periodic_Some: "timer_ticks t ns < 4000000000 \<Longrightarrow> \<exists>l'. timer_periodic_ns t ns cnt l = Some l'"
  by (simp add: timer_periodic_ns_def Let_def c_assert_True)

lemma ucast_scast_num: "ucast (scast (ucast (x :: u64) :: u32) :: u64) = (ucast x :: u8)"
  by (rule bit_word_eqI) (auto simp: bit_simps)

text \<open>Entering the kernel with \<open>int\<close> and going out to the program.\<close>

lemma enter_user_32:
  assumes wf: "trap_wf tss e80 traps s" and ticks: "timer_ticks t 500000 < 4000000000"
  shows "\<exists>s'. trap_handler t e80 traps cr2 (int_frame TRAP_RUN_USER32 kf) s = Some (Syscall_return_32 (tf_to_user s), s') \<and>
    tf_to_user s' = tf_to_user s \<and> msr s' MSR_TSC_ADJUST = 0 \<and> trap_wf tss e80 traps s'"
proof -
  define tf1 s1 where r: "tf1 = fst (restore_tsc (int_frame TRAP_RUN_USER32 kf) s)" "s1 = snd (restore_tsc (int_frame TRAP_RUN_USER32 kf) s)"
  have tf1: "tf_cs tf1 AND 3 = 0" "trap_num tf1 = TRAP_RUN_USER32"
    unfolding r by (simp_all add: restore_tsc_def int_frame_def GDT_KERNEL_CS_def trap_num_def TRAP_RUN_USER32_def)
  have s1: "tf_to_user s1 = tf_to_user s" "msr s1 MSR_TSC_ADJUST = 0" "gdt s1 = gdt s" "idt s1 = idt s" unfolding r by (simp_all add: restore_tsc_def)
  have l: "length (gdt s) = 12" using wf by (simp add: trap_wf_def gdt_ok_def)
  let ?s = "s1\<lparr>tf_run_user := tf1, gdt := (gdt s)[7 := 0]\<rparr>"
  obtain U where U: "gates_ok e80 traps U (idt ?s)" "U = {3} \<or> U = {3, 0x80}" using wf s1 by (auto simp: trap_wf_def open_gates_def)
  obtain s2 where s2: "setup_run_user e80 traps True ?s = Some s2" "msr s2 = msr s1" "tf_to_user s2 = tf_to_user s"
    using setup_run_user_gates[OF U, of True] s1 by auto
  obtain l' where l': "timer_periodic_ns t 500000 (user_time_limit_ns s2 div 500000 + user_time_limit_ns s2 div 500000 div 1000 + 20) (lapic s2) = Some l'"
    using timer_periodic_Some[OF ticks] by blast
  let ?s3 = "if user_time_limit_ns s2 \<noteq> 0 then s2\<lparr>lapic := l'\<rparr> else s2"
  have n: "TRAP_RUN_USER32 \<noteq> TRAP_RUN_USER" "TRAP_RUN_USER32 \<noteq> TRAP_IRQ + IRQ_TIMER" by (simp_all add: TRAP_RUN_USER32_def TRAP_RUN_USER_def TRAP_IRQ_def IRQ_TIMER_def)
  have "trap_run_user t e80 traps tf1 s1 = Some (Syscall_return_32 (tf_to_user s), ?s3)"
    using s2 l' l tf1(2) n s1(3) by (simp add: trap_run_user_def Let_def wr_in GDT_USER32_TLS_def)
  then have run: "trap_handler t e80 traps cr2 (int_frame TRAP_RUN_USER32 kf) s = Some (Syscall_return_32 (tf_to_user s), ?s3)"
    using tf1 n by (simp add: trap_handler_def Let_def case_prod_unfold flip: r)
  then show ?thesis using trap_handler_wf[OF wf run] s2 s1(2) by auto
qed

lemma run_32_finish:
  assumes wf: "trap_wf tss (env_0x80_entry env) (env_traps env) s" and ticks: "timer_ticks (env_timer env) 500000 < 4000000000"
    and user: "env_user env 0 ((make_trapframe_32 (env_rflags env) entry esp)\<lparr>tf_regs := zero_regs\<lparr>tsc := env_t1 env\<rparr>\<rparr>) m = Some (ev, m')"
    and ev: "ev = User_trap cr2 tf \<or> ev = User_int80 fr cr2 tf \<and> (ucast (rax (tf_regs tf)) :: u32) \<noteq> DUCK_sys_set_thread_area"
    and tf: "tf_cs tf AND 3 \<noteq> 0" "tsc (tf_regs tf) = now - env_t2 env"
  shows "\<exists>s'. run_user_32 env entry esp limit s m = Some ((now - env_t1 env, export_result_32 (ucast (tf_num tf)) tf), s', m') \<and>
    trap_epc s' = tf_rip tf \<and> trap_cr2 s' = cr2"
proof -
  let ?t = "env_timer env" and ?e80 = "env_0x80_entry env" and ?traps = "env_traps env" and ?tf0 = "make_trapframe_32 (env_rflags env) entry esp"
  let ?s = "s\<lparr>user_time_limit_ns := limit, tf_to_user := ?tf0\<rparr>"
  have wf': "trap_wf tss ?e80 ?traps ?s" using wf by (simp add: trap_wf_def)
  obtain s1 where s1: "trap_handler ?t ?e80 ?traps (env_cr2 env) (int_frame TRAP_RUN_USER32 (env_kernel_frame env)) ?s = Some (Syscall_return_32 ?tf0, s1)"
      "tf_to_user s1 = ?tf0" "msr s1 MSR_TSC_ADJUST = 0"
    using enter_user_32[OF wf' ticks] by auto
  define s2 where "s2 = record_tsc (env_t1 env) (env_t2 env) s1"
  have tf0: "tf_to_user s2 = ?tf0\<lparr>tf_regs := zero_regs\<lparr>tsc := env_t1 env\<rparr>\<rparr>" "msr s2 MSR_TSC_ADJUST = - env_t2 env"
    unfolding s2_def using s1(2,3) by (simp_all add: record_tsc_def make_trapframe_32_def zero_frame_def)
  define tf' where "tf' = tf\<lparr>tf_regs := (tf_regs tf)\<lparr>tsc := now\<rparr>\<rparr>"
  define s3 where "s3 = s2\<lparr>msr := (msr s2)(MSR_TSC_ADJUST := 0)\<rparr>"
  have rst: "restore_tsc tf s2 = (tf', s3)" using tf(2) tf0(2) by (simp add: restore_tsc_def tf'_def s3_def)
  have cs: "tf_cs tf' AND 3 \<noteq> 0" using tf(1) by (simp add: tf'_def)
  define ru where "ru = (tf_run_user s3)\<lparr>tf_regs := (tf_regs (tf_run_user s3))\<lparr>rax := scast (trap_num tf'), tsc := now - env_t1 env\<rparr>\<rparr>"
  define s4 where "s4 = snd (trap_from_user cr2 tf' s3)"
  have fu: "trap_from_user cr2 tf' s3 = (Trap_return ru, s4)" "tf_run_user s4 = ru" "tf_from_user s4 = tf'" "trap_epc s4 = tf_rip tf" "trap_cr2 s4 = cr2"
    unfolding s4_def using tf0(1) by (simp_all add: trap_from_user_def Let_def ru_def s3_def tf'_def)
  have "trap_handler ?t ?e80 ?traps cr2 tf s2 = Some (Trap_return ru, s4)" using rst cs fu(1) by (simp add: trap_handler_def)
  then have step: "(case ev of User_trap cr2 tf \<Rightarrow> do { (r, s) \<leftarrow> trap_handler ?t ?e80 ?traps cr2 tf s2; Some (r, s, m') }
       | User_int80 fr cr2 tf \<Rightarrow> trap_0x80_handler ?t ?e80 ?traps fr cr2 tf s2 m') = Some (Trap_return ru, s4, m')"
    using ev by (auto simp: trap_0x80_handler_def)
  have loop: "user_loop ?t ?e80 ?traps (env_user env) 0 (tf_to_user s2) s2 m = Some (Trap_return ru, s4, m')"
    unfolding tf0(1) by (subst user_loop.simps) (simp add: user step)
  have num: "(ucast (rax (tf_regs ru)) :: u8) = ucast (tf_num tf)" by (simp add: ru_def trap_num_def tf'_def ucast_scast_num)
  have "int_run_user env TRAP_RUN_USER32 ?s m = Some (ucast (tf_num tf), s4, m')"
    using s1(1) loop num by (simp add: int_run_user_def Let_def flip: s2_def)
  moreover have "export_result_32 x tf' = export_result_32 x tf" for x by (simp add: export_result_32_def tf'_def)
  ultimately show ?thesis using fu by (simp add: run_user_32_def Let_def) (simp add: ru_def)
qed


text \<open>A program that exits at once with the code 42.\<close>

definition demo_frame :: Trapframe where
  "demo_frame = zero_frame\<lparr>tf_regs := zero_regs\<lparr>tsc := 90, rax := 1, rbx := 42\<rparr>, tf_num := 0x80, tf_cs := 27\<rparr>"

definition demo_env :: run_env where
  "demo_env = \<lparr>env_timer = zero_Timer, env_0x80_entry = 0, env_traps = (\<lambda>_. 0), env_rflags = 2, env_kernel_frame = zero_frame,
     env_cr2 = 0, env_t1 = 10, env_t2 = 11, env_user = (\<lambda>k tf m. Some (User_int80 0 0 demo_frame, m))\<rparr>"

definition demo_ready :: Trap where
  "demo_ready = demo_trap\<lparr>idt := (idt demo_trap)[3 := (idt demo_trap ! 3)\<lparr>options := 0x60\<rparr>]\<rparr>"

lemma demo_ready_wf: "trap_wf 0 0 (\<lambda>_. 0) demo_ready"
proof -
  have "gates_ok 0 (\<lambda>_. 0) {3} (idt demo_ready)"
    by (simp add: gates_ok_def demo_ready_def demo_trap_def nth_list_update user_callable_def gate_target_def)
  moreover have "gdt demo_ready = initial_gdt 0" by (simp add: demo_ready_def demo_trap_def)
  then have "gdt_ok 0 (gdt demo_ready)" by (simp add: gdt_ok_def initial_gdt_entries)
  ultimately show ?thesis by (simp add: trap_wf_def open_gates_def)
qed

lemmas demo_run = demo_env_def demo_frame_def zero_frame_def zero_regs_def DUCK_sys_set_thread_area_def timer_ticks_def zero_Timer_def


theorem run_user_wf_tables_witness:
  "\<exists>r s' m'. run_user_32 demo_env 5 6 0 demo_ready zero_PM = Some (r, s', m') \<and> trap_wf 0 0 (\<lambda>_. 0) s'"
proof -
  have "\<exists>s'. run_user_32 demo_env 5 6 0 demo_ready zero_PM = Some ((101 - env_t1 demo_env, export_result_32 (ucast (tf_num demo_frame)) demo_frame), s', zero_PM) \<and>
    trap_epc s' = tf_rip demo_frame \<and> trap_cr2 s' = 0"
    by (rule run_32_finish[where tss = 0 and fr = 0 and ev = "User_int80 0 0 demo_frame"]) (simp_all add: demo_run demo_ready_wf)
  then obtain r s' m' where run: "run_user_32 demo_env 5 6 0 demo_ready zero_PM = Some (r, s', m')" by blast
  have "trap_wf 0 (env_0x80_entry demo_env) (env_traps demo_env) demo_ready" using demo_ready_wf by (simp add: demo_env_def)
  from run_user_wf_tables[OF this, of 5 6 0] have "trap_wf 0 (env_0x80_entry demo_env) (env_traps demo_env) s'" using run by blast
  then have "trap_wf 0 0 (\<lambda>_. 0) s'" by (simp add: demo_env_def)
  then show ?thesis using run by blast
qed

section \<open>The time limit\<close>

primrec timer_interrupts :: "nat \<Rightarrow> Lapic \<Rightarrow> Lapic option" where
  "timer_interrupts 0 l = Some l"
| "timer_interrupts (Suc n) l = do { l \<leftarrow> trap_32_entry l; timer_interrupts n l }"

lemma timer_interrupts_None: "0 < unat (lapic_timer_cnt l) \<Longrightarrow> timer_interrupts n l = None \<longleftrightarrow> unat (lapic_timer_cnt l) \<le> n"
proof (induction n arbitrary: l)
  case (Suc n)
  have u: "unat (lapic_timer_cnt l - 1) = unat (lapic_timer_cnt l) - 1" using Suc.prems by (simp add: unat_minus_one unat_gt_0)
  show ?case
  proof (cases "lapic_timer_cnt l - 1 = 0")
    case True
    then show ?thesis using u by (simp add: trap_32_entry_def)
  next
    case False
    then have "0 < unat (lapic_timer_cnt l - 1)" by (simp add: unat_gt_0)
    then show ?thesis using Suc.IH[of "eoi (l\<lparr>lapic_timer_cnt := lapic_timer_cnt l - 1\<rparr>)"] False u
      by (auto simp: trap_32_entry_def eoi_def lapicw_def)
  qed
qed simp

definition timer_budget :: "nat \<Rightarrow> nat" where
  "timer_budget limit = limit div 500000 + limit div 500000 div 1000 + 20"

lemma timer_budget_unat: "unat (limit div 500000 + limit div 500000 div 1000 + 20 :: u64) = timer_budget (unat limit)"
proof -
  have l: "unat limit div 500000 < 2 ^ 46" using unsigned_less[of limit, where 'a = nat] by (simp add: less_mult_imp_div_less)
  have q: "unat (limit div 500000) = unat limit div 500000" "unat (limit div 500000 div 1000) = unat limit div 500000 div 1000" by (simp_all add: unat_div)
  have "unat limit div 500000 div 1000 \<le> unat limit div 500000" by simp
  then have small: "unat limit div 500000 div 1000 < 2 ^ 46" using l by simp
  have s1: "unat (limit div 500000 + limit div 500000 div 1000) = unat limit div 500000 + unat limit div 500000 div 1000"
    using l q small by (subst unat_add_fits) (simp_all only: q, simp)
  then have "unat (limit div 500000 + limit div 500000 div 1000) + unat (20 :: u64) < 2 ^ 64" using l small by simp
  then show ?thesis unfolding timer_budget_def using s1 by (subst unat_add_fits) simp_all
qed



end
