(* ===== verification/Kern_Judger.thy ===== *)
theory Kern_Judger
  imports Cache_Correct Kern_Trap
begin

text \<open>
  The judger, \<open>kern/judger.cpp\<close>, and running a loaded program, \<open>ELF::run\<close> of \<open>lib/elf.cpp\<close>.

  The judger's buffer is a byte list of its size. Its place in virtual memory is above everything that
  a program can get, so that it is kept apart from the program's memory. An access outside of the
  buffer is a fault, \<^term>\<open>None\<close>. The program and the machine are the environment of \<open>Kern_Trap\<close>; the time of a cache
  operation is an argument.
\<close>

section \<open>Running a loaded program\<close>

record RunResult =
  rr_count_inst :: u64
  rr_clk_thread :: u64
  rr_clk_ref_tsc :: u64
  rr_time_tsc :: u64
  rr_time_ns :: u64
  rr_time_ns_ref_tsc :: u64
  rr_time_ns_real :: u64
  rr_memory_bytes :: u64
  rr_memory_kb :: u64
  rr_memory_kb_accessed :: u64
  rr_trap_num :: u8
  rr_return_code :: u32
  rr_trap_epc :: u64
  rr_trap_cr2 :: u64
  rr_stdout_ptr :: u64
  rr_stdout_size :: u64
  rr_stderr_ptr :: u64
  rr_stderr_size :: u64
  rr_OB_ptr :: u64

definition vget64 :: "u64 \<Rightarrow> PM \<Rightarrow> u64 option" where
  "vget64 v m = do { bs \<leftarrow> vread 8 v m; get64 bs 0 }"

text \<open>The sizes that the program has left in its structure, of either word size.\<close>

definition output_sizes :: "App \<Rightarrow> PM \<Rightarrow> (u64 \<times> u64) option" where
  "output_sizes app m =
     (if app_duckinfo_ptr app \<noteq> 0 then do {
        o1 \<leftarrow> vget64 (app_duckinfo_ptr app + 40) m;
        e1 \<leftarrow> vget64 (app_duckinfo_ptr app + 64) m;
        Some (o1, e1)
      } else do {
        o1 \<leftarrow> vget32 (app_duckinfo32_ptr app + 20) m;
        e1 \<leftarrow> vget32 (app_duckinfo32_ptr app + 32) m;
        Some (ucast o1, ucast e1)
      })"

text \<open>\<open>rc\<close> is the content of the uninitialised result variable.\<close>

definition elf_run :: "run_env \<Rightarrow> u32 \<Rightarrow> App \<Rightarrow> u64 \<Rightarrow> Trap \<Rightarrow> PM \<Rightarrow> (RunResult \<times> Trap \<times> PM) option" where
  "elf_run env rc app time_limit_ns s m = do {
     let t = env_timer env;
     ((time_tsc, num, code), s, m) \<leftarrow>
       (if app_duckinfo_ptr app \<noteq> 0 then run_user_64 env (app_entry app) (app_rsp app) time_limit_ns rc s m
        else run_user_32 env (app_entry app) (app_rsp app) time_limit_ns s m);
     let (count_inst, clk_thread, clk_ref_tsc) = read_performance_counters;
     time_ns \<leftarrow> clk_to_ns t clk_thread;
     time_ns_ref_tsc \<leftarrow> tsc_to_ns t clk_ref_tsc;
     time_ns_real \<leftarrow> tsc_to_ns t time_tsc;
     m \<leftarrow> set_duck_written_by_dirty (app_start_addr app) (app_special_region_break_addr app) m;
     dirty \<leftarrow> count_dirty_pages (app_start_addr app) (app_special_region_break_addr app) m;
     accessed \<leftarrow> count_accessed_pages (app_start_addr app) (app_special_region_break_addr app) m;
     accessed_stdin \<leftarrow> count_accessed_pages (app_stdin_start_addr app) (app_stdin_break_addr app) m;
     (out_size, err_size) \<leftarrow> output_sizes app m;
     Some (\<lparr>
       rr_count_inst = count_inst,
       rr_clk_thread = clk_thread,
       rr_clk_ref_tsc = clk_ref_tsc,
       rr_time_tsc = time_tsc,
       rr_time_ns = time_ns,
       rr_time_ns_ref_tsc = time_ns_ref_tsc,
       rr_time_ns_real = time_ns_real,
       rr_memory_bytes = PAGE_SIZE * dirty,
       rr_memory_kb = PAGE_SIZE * dirty div 1024,
       rr_memory_kb_accessed = PAGE_SIZE * (accessed - accessed_stdin) div 1024,
       rr_trap_num = num,
       rr_return_code = code,
       rr_trap_epc = trap_epc s,
       rr_trap_cr2 = trap_cr2 s,
       rr_stdout_ptr = di_stdout_ptr (app_duckinfo_orig app),
       rr_stdout_size = min (di_stdout_limit (app_duckinfo_orig app)) out_size,
       rr_stderr_ptr = di_stderr_ptr (app_duckinfo_orig app),
       rr_stderr_size = min (di_stderr_limit (app_duckinfo_orig app)) err_size,
       rr_OB_ptr = di_OB_ptr (app_duckinfo_orig app)\<rparr>, s, m)
   }"

section \<open>State of the judger\<close>

record JudgeStatistics =
  st_n_judges :: u64
  st_total_time_ns :: u64

record BufferDesc =
  b_off :: u64
  b_len :: u64

record JudgeRequest =
  rq_seq_num :: u64
  rq_time_limit_ns :: u64
  rq_memory_hard_limit_kb :: u64
  rq_ELF :: BufferDesc
  rq_stdin :: BufferDesc
  rq_stdout :: BufferDesc
  rq_stderr :: BufferDesc
  rq_IB :: BufferDesc
  rq_OB :: BufferDesc
  rq_OB_need_clear :: u64

record JudgeResult =
  jr_error :: "string option"
  jr_count_inst :: u64
  jr_clk_thread :: u64
  jr_clk_ref_tsc :: u64
  jr_time_ns :: u64
  jr_time_ns_ref_tsc :: u64
  jr_time_ns_real :: u64
  jr_time_tsc :: u64
  jr_memory_kb :: u64
  jr_memory_kb_accessed :: u64
  jr_stdout_size :: u64
  jr_stderr_size :: u64
  jr_return_code :: u32
  jr_trap_num :: u8
  jr_trap_epc :: u64
  jr_trap_cr2 :: u64
  jr_is_RE :: bool
  jr_is_TLE :: bool

definition zero_result :: JudgeResult where
  "zero_result = \<lparr>jr_error = None, jr_count_inst = 0, jr_clk_thread = 0, jr_clk_ref_tsc = 0, jr_time_ns = 0, jr_time_ns_ref_tsc = 0,
     jr_time_ns_real = 0, jr_time_tsc = 0, jr_memory_kb = 0, jr_memory_kb_accessed = 0, jr_stdout_size = 0, jr_stderr_size = 0,
     jr_return_code = 0, jr_trap_num = 0, jr_trap_epc = 0, jr_trap_cr2 = 0, jr_is_RE = False, jr_is_TLE = False\<rparr>"

definition INITIAL_BUFFER_SIZE :: u64 where "INITIAL_BUFFER_SIZE = push_bit 20 3072"
definition INITIAL_BUFFER_SIZE_SMALL :: u64 where "INITIAL_BUFFER_SIZE_SMALL = push_bit 20 512"
definition ELF_CACHE_N :: nat where "ELF_CACHE_N = 1000"
definition ELF_CACHE_SIZE :: u64 where "ELF_CACHE_SIZE = push_bit 20 256"
definition DATA_CACHE_N :: nat where "DATA_CACHE_N = 100000"
definition DATA_CACHE_SIZE :: u64 where "DATA_CACHE_SIZE = push_bit 20 8192"
definition DATA_CACHE_SIZE_SMALL :: u64 where "DATA_CACHE_SIZE_SMALL = push_bit 20 256"
definition MAX_TIME_LIMIT_NS :: u64 where "MAX_TIME_LIMIT_NS = 500000000000"

record Judger =
  n_judges :: u64
  total_time_ns :: u64
  buffer :: bytes
  buffer_size :: u64
  elf_cache :: DuckCache
  data_cache :: DuckCache
  judge_seq_num :: u64
  stdout_size :: u64
  stderr_size :: u64
  judge_result :: JudgeResult
  judge_result_cleared :: bool

definition clear_judge_result :: "Judger \<Rightarrow> Judger" where
  "clear_judge_result j =
     (if judge_result_cleared j then j
      else j\<lparr>judge_result_cleared := True, judge_seq_num := - 1, stdout_size := 0, stderr_size := 0,
        judge_result := zero_result\<lparr>jr_error := Some ''Not Judged''\<rparr>\<rparr>)"

text \<open>An allocation that fails restarts the machine; this is a fault here.\<close>

definition judger_init :: "Judger \<Rightarrow> PM \<Rightarrow> (Judger \<times> PM) option" where
  "judger_init j m = do {
     let j = (clear_judge_result j)\<lparr>n_judges := 0, total_time_ns := 0\<rparr>;
     let total_size = INITIAL_BUFFER_SIZE + ELF_CACHE_SIZE + DATA_CACHE_SIZE + push_bit 20 3072;
     let use_small = (\<not> can_allocate_virtual_memory total_size m);
     let sz = (if \<not> use_small then INITIAL_BUFFER_SIZE else INITIAL_BUFFER_SIZE_SMALL);
     let (buf, m) = allocate_virtual_memory sz m;
     c_assert (buf \<noteq> 0);
     let j = j\<lparr>buffer_size := sz, buffer := replicate (unat sz) 0\<rparr>;
     (elf, m) \<leftarrow> cache_init ELF_CACHE_N ELF_CACHE_SIZE m;
     elf \<leftarrow> elf;
     let data_cache_size = (if \<not> use_small then DATA_CACHE_SIZE else DATA_CACHE_SIZE_SMALL);
     (data, m) \<leftarrow> cache_init DATA_CACHE_N data_cache_size m;
     data \<leftarrow> data;
     Some (j\<lparr>elf_cache := elf, data_cache := data\<rparr>, m)
   }"

definition get_statistics :: "Judger \<Rightarrow> JudgeStatistics" where
  "get_statistics j = \<lparr>st_n_judges = n_judges j, st_total_time_ns = total_time_ns j\<rparr>"

section \<open>The buffer\<close>

definition query_buffer_size :: "Judger \<Rightarrow> u64" where
  "query_buffer_size j = buffer_size j"

definition clear_buffer :: "u64 \<Rightarrow> u64 \<Rightarrow> Judger \<Rightarrow> (bool \<times> Judger) option" where
  "clear_buffer off len j =
     (if off < buffer_size j \<and> len \<le> buffer_size j - off then do {
        b \<leftarrow> wr_range (buffer j) (unat off) (replicate (unat len) 0);
        Some (True, clear_judge_result (j\<lparr>buffer := b\<rparr>))
      } else Some (False, j))"

definition read_buffer :: "u64 \<Rightarrow> u64 \<Rightarrow> Judger \<Rightarrow> bytes option option" where
  "read_buffer off len j =
     (if off < buffer_size j \<and> len \<le> buffer_size j - off
      then map_option Some (rd_range (buffer j) (unat off) (unat len))
      else Some None)"

definition write_buffer :: "u64 \<Rightarrow> bytes \<Rightarrow> Judger \<Rightarrow> (bool \<times> Judger) option" where
  "write_buffer off data j =
     (if off < buffer_size j \<and> of_nat (length data) \<le> buffer_size j - off then do {
        b \<leftarrow> wr_range (buffer j) (unat off) data;
        Some (True, clear_judge_result (j\<lparr>buffer := b\<rparr>))
      } else Some (False, j))"

definition copy_buffer :: "u64 \<Rightarrow> u64 \<Rightarrow> u64 \<Rightarrow> Judger \<Rightarrow> (bool \<times> Judger) option" where
  "copy_buffer dst_off src_off len j = (
     let dst_in_range = (dst_off < buffer_size j \<and> len \<le> buffer_size j - dst_off);
         src_in_range = (src_off < buffer_size j \<and> len \<le> buffer_size j - src_off);
         no_overlap = (dst_off + len \<le> src_off \<or> src_off + len \<le> dst_off) in
     if dst_in_range \<and> src_in_range \<and> no_overlap then do {
       data \<leftarrow> rd_range (buffer j) (unat src_off) (unat len);
       b \<leftarrow> wr_range (buffer j) (unat dst_off) data;
       Some (True, clear_judge_result (j\<lparr>buffer := b\<rparr>))
     } else Some (False, j))"

definition compare_buffer :: "u64 \<Rightarrow> u64 \<Rightarrow> u64 \<Rightarrow> Judger \<Rightarrow> bool option option" where
  "compare_buffer off1 off2 len j = (
     let in_range_1 = (off1 < buffer_size j \<and> len \<le> buffer_size j - off1);
         in_range_2 = (off2 < buffer_size j \<and> len \<le> buffer_size j - off2) in
     if in_range_1 \<and> in_range_2 then do {
       a \<leftarrow> rd_range (buffer j) (unat off1) (unat len);
       b \<leftarrow> rd_range (buffer j) (unat off2) (unat len);
       Some (Some (a = b))
     } else Some None)"

section \<open>The caches\<close>

definition load_cache :: "u64 \<Rightarrow> string \<Rightarrow> u64 \<Rightarrow> u64 \<Rightarrow> bytes \<Rightarrow> Judger \<Rightarrow> (bool \<times> Judger) option" where
  "load_cache now cache_name dst_off dst_len hex j = do {
     digest \<leftarrow> digest_from_hex hex;
     case digest of None \<Rightarrow> Some (False, j)
     | Some digest \<Rightarrow> do {
         (r, j) \<leftarrow>
           (if cache_name = ''elf'' then do { (r, c) \<leftarrow> cache_load now digest dst_len (elf_cache j); Some (r, j\<lparr>elf_cache := c\<rparr>) }
            else if cache_name = ''data'' then do { (r, c) \<leftarrow> cache_load now digest dst_len (data_cache j); Some (r, j\<lparr>data_cache := c\<rparr>) }
            else Some (None, j));
         case r of None \<Rightarrow> Some (False, j)
         | Some data \<Rightarrow> do {
             b \<leftarrow> wr_range (buffer j) (unat dst_off) data;
             Some (True, clear_judge_result (j\<lparr>buffer := b\<rparr>))
           }
       }
   }"

text \<open>The source range is read only when the object is stored.\<close>

definition store_range :: "u64 \<Rightarrow> Digest256 \<Rightarrow> bytes \<Rightarrow> u64 \<Rightarrow> u64 \<Rightarrow> DuckCache \<Rightarrow> (bool \<times> DuckCache) option" where
  "store_range now digest buf off len c = (case rd_range buf (unat off) (unat len) of
     Some src \<Rightarrow> cache_store now digest src c
   | None \<Rightarrow> do {
       (hit, _) \<leftarrow> cache_find digest c;
       if hit then Some (True, c) else if n_pages_for len > n_total_pages c then Some (False, c) else None
     })"

definition store_cache :: "u64 \<Rightarrow> string \<Rightarrow> u64 \<Rightarrow> u64 \<Rightarrow> bytes \<Rightarrow> Judger \<Rightarrow> (bool \<times> Judger) option" where
  "store_cache now cache_name src_off src_len hex j = do {
     digest \<leftarrow> digest_from_hex hex;
     case digest of None \<Rightarrow> Some (False, j)
     | Some digest \<Rightarrow>
         if cache_name = ''elf'' then do {
           (r, c) \<leftarrow> store_range now digest (buffer j) src_off src_len (elf_cache j);
           Some (r, j\<lparr>elf_cache := c\<rparr>)
         } else if cache_name = ''data'' then do {
           (r, c) \<leftarrow> store_range now digest (buffer j) src_off src_len (data_cache j);
           Some (r, j\<lparr>data_cache := c\<rparr>)
         } else Some (False, j)
   }"

definition get_cache_info :: "string \<Rightarrow> Judger \<Rightarrow> string" where
  "get_cache_info cache_name j =
     (if cache_name = ''elf'' then cache_info (elf_cache j)
      else if cache_name = ''data'' then cache_info (data_cache j)
      else ''no-such-cache'')"

section \<open>Judging\<close>

definition can_not_load_elf :: "Judger \<Rightarrow> JudgeResult \<times> Judger" where
  "can_not_load_elf j = (let r = (judge_result j)\<lparr>jr_error := Some ''Can't load ELF''\<rparr> in (r, j\<lparr>judge_result := r\<rparr>))"

definition invalid_time_limit :: "Judger \<Rightarrow> JudgeResult \<times> Judger" where
  "invalid_time_limit j = (let r = (judge_result j)\<lparr>jr_error := Some ''Invalid time limit''\<rparr> in (r, j\<lparr>judge_result := r\<rparr>))"

definition is_valid_buffer :: "u64 \<Rightarrow> BufferDesc \<Rightarrow> bool" where
  "is_valid_buffer bsize b \<longleftrightarrow> b_off b < bsize \<and> b_len b \<le> bsize - b_off b"

definition check_overlap :: "BufferDesc \<Rightarrow> BufferDesc \<Rightarrow> bool" where
  "check_overlap b1 b2 \<longleftrightarrow> \<not> (b_off b1 + b_len b1 \<le> b_off b2 \<or> b_off b2 + b_len b2 \<le> b_off b1)"

text \<open>The loop over the descriptors, with those that have been checked.\<close>

primrec check_buffers_from :: "u64 \<Rightarrow> BufferDesc list \<Rightarrow> BufferDesc list \<Rightarrow> bool" where
  "check_buffers_from bsize seen [] = True"
| "check_buffers_from bsize seen (b # bs) =
     (if \<not> is_valid_buffer bsize b then False
      else if list_ex (check_overlap b) seen then False
      else check_buffers_from bsize (seen @ [b]) bs)"

definition check_buffers :: "u64 \<Rightarrow> BufferDesc list \<Rightarrow> bool" where
  "check_buffers bsize bs = check_buffers_from bsize [] bs"

definition request_buffers :: "JudgeRequest \<Rightarrow> BufferDesc list" where
  "request_buffers req = [rq_ELF req, rq_stdin req, rq_stdout req, rq_stderr req, rq_IB req, rq_OB req]"

definition elf_config :: "JudgeRequest \<Rightarrow> bytes \<Rightarrow> AppConfig" where
  "elf_config req buf = \<lparr>
     cf_memory_hard_limit = rq_memory_hard_limit_kb req * 1024,
     cf_stdin_ptr = drop (unat (b_off (rq_stdin req))) buf,
     cf_stdin_size = b_len (rq_stdin req),
     cf_stdout_max_size = b_len (rq_stdout req),
     cf_stderr_max_size = b_len (rq_stderr req),
     cf_IB_ptr = drop (unat (b_off (rq_IB req))) buf,
     cf_IB_size = b_len (rq_IB req),
     cf_OB_ptr = drop (unat (b_off (rq_OB req))) buf,
     cf_OB_size = b_len (rq_OB req),
     cf_OB_need_clear = (rq_OB_need_clear req \<noteq> 0)\<rparr>"

definition result_of_run :: "u64 \<Rightarrow> RunResult \<Rightarrow> JudgeResult" where
  "result_of_run time_limit_ns res = (
     let r = \<lparr>
       jr_error = None,
       jr_count_inst = rr_count_inst res,
       jr_clk_thread = rr_clk_thread res,
       jr_clk_ref_tsc = rr_clk_ref_tsc res,
       jr_time_ns = rr_time_ns res,
       jr_time_ns_ref_tsc = rr_time_ns_ref_tsc res,
       jr_time_ns_real = rr_time_ns_real res,
       jr_time_tsc = rr_time_tsc res,
       jr_memory_kb = rr_memory_kb res,
       jr_memory_kb_accessed = rr_memory_kb_accessed res,
       jr_stdout_size = rr_stdout_size res,
       jr_stderr_size = rr_stderr_size res,
       jr_return_code = rr_return_code res,
       jr_trap_num = rr_trap_num res,
       jr_trap_epc = rr_trap_epc res,
       jr_trap_cr2 = rr_trap_cr2 res,
       jr_is_RE = (rr_trap_num res \<noteq> 255),
       jr_is_TLE = (rr_trap_num res = 32)\<rparr> in
     if rr_time_ns res > time_limit_ns \<or> jr_is_TLE r
     then r\<lparr>jr_is_RE := False, jr_is_TLE := True, jr_time_ns := time_limit_ns\<rparr>
     else r)"

text \<open>Copying the output of the program into the buffers of the request.\<close>

definition copy_out :: "JudgeRequest \<Rightarrow> RunResult \<Rightarrow> PM \<Rightarrow> bytes \<Rightarrow> bytes option" where
  "copy_out req res m buf = do {
     data \<leftarrow> vread (unat (rr_stdout_size res)) (rr_stdout_ptr res) m;
     buf \<leftarrow> wr_range buf (unat (b_off (rq_stdout req))) data;
     data \<leftarrow> vread (unat (rr_stderr_size res)) (rr_stderr_ptr res) m;
     buf \<leftarrow> wr_range buf (unat (b_off (rq_stderr req))) data;
     data \<leftarrow> vread (unat (b_len (rq_OB req))) (rr_OB_ptr res) m;
     wr_range buf (unat (b_off (rq_OB req))) data
   }"

definition run_and_report :: "run_env \<Rightarrow> u32 \<Rightarrow> JudgeRequest \<Rightarrow> App \<Rightarrow> Judger \<Rightarrow> Trap \<Rightarrow> PM \<Rightarrow> (JudgeResult \<times> Judger \<times> Trap \<times> PM) option" where
  "run_and_report env rc req app j s m = do {
     (res, s, m) \<leftarrow> elf_run env rc app (rq_time_limit_ns req) s m;
     let r = result_of_run (rq_time_limit_ns req) res;
     buf \<leftarrow> copy_out req res m (buffer j);
     Some (r, j\<lparr>judge_result := r, buffer := buf, total_time_ns := total_time_ns j + jr_time_ns r\<rparr>, s, m)
   }"

definition judge :: "run_env \<Rightarrow> u32 \<Rightarrow> JudgeRequest \<Rightarrow> Judger \<Rightarrow> Trap \<Rightarrow> PM \<Rightarrow> (JudgeResult \<times> Judger \<times> Trap \<times> PM) option" where
  "judge env rc req j s m =
     (if rq_seq_num req = judge_seq_num j then Some (judge_result j, j, s, m)
      else let j = j\<lparr>n_judges := n_judges j + 1, judge_result_cleared := False, judge_seq_num := rq_seq_num req\<rparr> in
      if rq_memory_hard_limit_kb req * 1024 < rq_memory_hard_limit_kb req then
        (case can_not_load_elf j of (r, j) \<Rightarrow> Some (r, j, s, m))
      else if \<not> check_buffers (buffer_size j) (request_buffers req) then
        (case can_not_load_elf j of (r, j) \<Rightarrow> Some (r, j, s, m))
      else if rq_time_limit_ns req = 0 \<or> rq_time_limit_ns req > MAX_TIME_LIMIT_NS then
        (case invalid_time_limit j of (r, j) \<Rightarrow> Some (r, j, s, m))
      else do {
        (app, m) \<leftarrow> elf_load (tsc_freq (env_timer env)) (drop (unat (b_off (rq_ELF req))) (buffer j)) (ucast (b_len (rq_ELF req)))
          (elf_config req (buffer j)) m;
        case app of
          None \<Rightarrow> (case can_not_load_elf j of (r, j) \<Rightarrow> Some (r, j, s, m))
        | Some app \<Rightarrow> run_and_report env rc req app j s m
      })"

section \<open>The buffer as a byte store\<close>

definition judger_wf :: "Judger \<Rightarrow> bool" where
  "judger_wf j \<longleftrightarrow> length (buffer j) = unat (buffer_size j)"

text \<open>The contract of a store of bytes with checked accesses.\<close>

locale byte_store =
  fixes wf :: "'s \<Rightarrow> bool" and content :: "'s \<Rightarrow> bytes"
    and rd_op :: "u64 \<Rightarrow> u64 \<Rightarrow> 's \<Rightarrow> bytes option option" and wr_op :: "u64 \<Rightarrow> bytes \<Rightarrow> 's \<Rightarrow> (bool \<times> 's) option"
  assumes read_law: "wf s \<Longrightarrow> rd_op off len s =
      Some (if unat off < length (content s) \<and> unat off + unat len \<le> length (content s) then Some (take (unat len) (drop (unat off) (content s))) else None)"
    and write_law: "wf s \<Longrightarrow> length data < 2 ^ 64 \<Longrightarrow> \<exists>s'. wr_op off data s =
      Some (unat off < length (content s) \<and> unat off + length data \<le> length (content s), s') \<and> wf s' \<and>
      content s' = (if unat off < length (content s) \<and> unat off + length data \<le> length (content s) then blit (content s) (unat off) data else content s)"
begin

lemma read_after_write:
  assumes "wf s" "unat off + length data \<le> length (content s)" "unat off < length (content s)" "length data < 2 ^ 64"
  shows "\<exists>s'. wr_op off data s = Some (True, s') \<and> rd_op off (of_nat (length data)) s' = Some (Some data) \<and> wf s' \<and>
    (\<forall>off' len'. unat off' + unat len' \<le> unat off \<or> unat off + length data \<le> unat off' \<longrightarrow> rd_op off' len' s' = rd_op off' len' s)"
proof -
  obtain s' where s': "wr_op off data s = Some (True, s')" "wf s'" "content s' = blit (content s) (unat off) data"
    using write_law[OF assms(1,4), of off] assms(2,3) by auto
  have len: "length (content s') = length (content s)" using s'(3) assms(2) by simp
  have n: "unat (of_nat (length data) :: u64) = length data" by (rule unat_of_nat_lt) (use assms(4) in simp)
  have "rd_op off (of_nat (length data)) s' = Some (Some data)"
    using read_law[OF s'(2), of off "of_nat (length data)"] assms(2,3) len n by (simp add: s'(3))
  moreover have "rd_op off' len' s' = rd_op off' len' s"
    if sep: "unat off' + unat len' \<le> unat off \<or> unat off + length data \<le> unat off'" for off' len'
  proof -
    have "take (unat len') (drop (unat off') (content s')) = take (unat len') (drop (unat off') (content s))"
      if "unat off' + unat len' \<le> length (content s)"
      by (rule nth_equalityI) (use that sep assms(2) len in \<open>auto simp: s'(3) nth_blit\<close>)
    then show ?thesis using read_law[OF assms(1), of off' len'] read_law[OF s'(2), of off' len'] len by auto
  qed
  ultimately show ?thesis using s' by blast
qed

end

lemma in_range_unat: "(off < bsize \<and> len \<le> bsize - off) = (unat off < unat bsize \<and> unat off + unat len \<le> unat (bsize :: u64))"
proof (cases "off < bsize")
  case True
  then have "unat (bsize - off) = unat bsize - unat off" by (simp add: unat_sub less_imp_le)
  then show ?thesis using True by (auto simp: word_less_nat_alt word_le_nat_alt)
qed (simp add: word_less_nat_alt)

lemma clear_judge_result_simps [simp]:
  "buffer (clear_judge_result j) = buffer j" "buffer_size (clear_judge_result j) = buffer_size j"
  "elf_cache (clear_judge_result j) = elf_cache j" "data_cache (clear_judge_result j) = data_cache j"
  by (simp_all add: clear_judge_result_def)

interpretation jbuf: byte_store judger_wf buffer read_buffer write_buffer
proof unfold_locales
  fix j off len
  assume "judger_wf j"
  then show "read_buffer off len j = Some (if unat off < length (buffer j) \<and> unat off + unat len \<le> length (buffer j)
      then Some (take (unat len) (drop (unat off) (buffer j))) else None)"
    unfolding read_buffer_def in_range_unat by (auto simp: judger_wf_def rd_range_def)
next
  fix j off and data :: bytes
  assume wf: "judger_wf j" and len: "length data < 2 ^ 64"
  have n: "unat (of_nat (length data) :: u64) = length data" by (rule unat_of_nat_lt) (use len in simp)
  show "\<exists>j'. write_buffer off data j = Some (unat off < length (buffer j) \<and> unat off + length data \<le> length (buffer j), j') \<and> judger_wf j' \<and>
      buffer j' = (if unat off < length (buffer j) \<and> unat off + length data \<le> length (buffer j) then blit (buffer j) (unat off) data else buffer j)"
    unfolding write_buffer_def in_range_unat n using wf by (auto simp: judger_wf_def wr_range_def)
qed

section \<open>The checks of a request\<close>

definition region :: "BufferDesc \<Rightarrow> nat set" where
  "region b = {unat (b_off b)..<unat (b_off b) + unat (b_len b)}"

lemma check_buffers_from_iff:
  "check_buffers_from n seen bs \<longleftrightarrow> (\<forall>b \<in> set bs. is_valid_buffer n b) \<and> (\<forall>b \<in> set bs. \<forall>a \<in> set seen. \<not> check_overlap b a) \<and>
    sorted_wrt (\<lambda>a b. \<not> check_overlap b a) bs"
  by (induction bs arbitrary: seen) (auto simp: list_ex_iff)

lemma valid_buffer_unat: "is_valid_buffer n b \<Longrightarrow> unat (b_off b) + unat (b_len b) \<le> unat n"
  unfolding is_valid_buffer_def in_range_unat by simp

lemma no_overlap_disjoint:
  assumes "is_valid_buffer n a" "is_valid_buffer n b" "\<not> check_overlap b a"
  shows "region a \<inter> region b = {}"
proof -
  have u: "unat (b_off x + b_len x) = unat (b_off x) + unat (b_len x)" if "is_valid_buffer n x" for x
    using valid_buffer_unat[OF that] unsigned_less[of n, where 'a = nat] by (subst unat_add_fits) simp_all
  have "unat (b_off b) + unat (b_len b) \<le> unat (b_off a) \<or> unat (b_off a) + unat (b_len a) \<le> unat (b_off b)"
    using assms(3) u[OF assms(1)] u[OF assms(2)] by (auto simp: check_overlap_def word_le_nat_alt)
  then show ?thesis by (auto simp: region_def)
qed

lemma check_buffers_disjoint:
  assumes "check_buffers n bs" "i < k" "k < length bs"
  shows "region (bs ! i) \<inter> region (bs ! k) = {}"
proof -
  have "\<not> check_overlap (bs ! k) (bs ! i)" "is_valid_buffer n (bs ! i)" "is_valid_buffer n (bs ! k)"
    using assms sorted_wrt_nth_less[of "\<lambda>a b. \<not> check_overlap b a" bs i k] by (auto simp: check_buffers_def check_buffers_from_iff)
  then show ?thesis by (rule no_overlap_disjoint[rotated 2])
qed

lemma request_regions:
  assumes "check_buffers n (request_buffers req)"
  shows "\<forall>b \<in> {rq_ELF req, rq_stdin req, rq_IB req}. region b \<inter> (region (rq_stdout req) \<union> region (rq_stderr req) \<union> region (rq_OB req)) = {}"
proof -
  note d = check_buffers_disjoint[OF assms, unfolded request_buffers_def]
  show ?thesis
    using d[of 0 2] d[of 0 3] d[of 0 5] d[of 1 2] d[of 1 3] d[of 1 5] d[of 2 4] d[of 3 4] d[of 4 5] by auto
qed

section \<open>What a run writes\<close>

lemma length_vread: "vread n v m = Some bs \<Longrightarrow> length bs = n"
  by (induction n arbitrary: v bs) (auto split: bind_splits)

lemma load_duckinfo:
  assumes "elf_load tscf buf len config m = Some (Some app, m')"
  shows "\<exists>l. app_duckinfo_orig app = make_duckinfo tscf config l"
proof -
  have "load_elf64 tscf buf len config m = Some (Some app, m') \<or> load_elf32 tscf buf len config m = Some (Some app, m')"
    using assms by (auto simp: elf_load_def split: if_splits bind_splits)
  then show ?thesis
  proof
    assume "load_elf64 tscf buf len config m = Some (Some app, m')"
    then obtain h l where "load_body64 tscf buf len config h l m = Some (app, m')"
      by (auto simp: load_elf64_def split: bind_splits option.splits)
    then have "app_duckinfo_orig app = make_duckinfo tscf config l"
      by (auto simp: load_body64_def make_app_def split: bind_splits)
    then show ?thesis ..
  next
    assume "load_elf32 tscf buf len config m = Some (Some app, m')"
    then obtain h l where "load_body32 tscf buf len config h l m = Some (app, m')"
      by (auto simp: load_elf32_def split: bind_splits option.splits)
    then have "app_duckinfo_orig app = make_duckinfo tscf config l"
      by (auto simp: load_body32_def make_app_def split: bind_splits)
    then show ?thesis ..
  qed
qed

lemma run_output_limits:
  assumes "elf_run env rc app limit s m = Some (res, s', m')"
  shows "rr_stdout_size res \<le> di_stdout_limit (app_duckinfo_orig app) \<and> rr_stderr_size res \<le> di_stderr_limit (app_duckinfo_orig app)"
  using assms by (auto simp: elf_run_def Let_def split: bind_splits prod.splits)

lemma wr_range_outside:
  assumes "wr_range xs off ys = Some zs" "i < length xs" "i \<notin> {off..<off + length ys}"
  shows "zs ! i = xs ! i"
  using assms by (auto simp: wr_range_def nth_blit split: if_splits)

lemma wr_range_length: "wr_range xs off ys = Some zs \<Longrightarrow> length zs = length xs"
  by (auto simp: wr_range_def split: if_splits)

lemma copy_out_frame:
  assumes run: "copy_out req res m buf = Some buf'"
    and o: "rr_stdout_size res \<le> b_len (rq_stdout req)" and e: "rr_stderr_size res \<le> b_len (rq_stderr req)"
  shows "length buf' = length buf \<and> (\<forall>i < length buf. i \<notin> region (rq_stdout req) \<union> region (rq_stderr req) \<union> region (rq_OB req) \<longrightarrow> buf' ! i = buf ! i)"
proof -
  obtain d1 b1 d2 b2 d3 where st: "vread (unat (rr_stdout_size res)) (rr_stdout_ptr res) m = Some d1" "wr_range buf (unat (b_off (rq_stdout req))) d1 = Some b1"
      "vread (unat (rr_stderr_size res)) (rr_stderr_ptr res) m = Some d2" "wr_range b1 (unat (b_off (rq_stderr req))) d2 = Some b2"
      "vread (unat (b_len (rq_OB req))) (rr_OB_ptr res) m = Some d3" "wr_range b2 (unat (b_off (rq_OB req))) d3 = Some buf'"
    using run by (auto simp: copy_out_def split: bind_splits)
  have len: "length d1 \<le> unat (b_len (rq_stdout req))" "length d2 \<le> unat (b_len (rq_stderr req))" "length d3 = unat (b_len (rq_OB req))"
    using length_vread[OF st(1)] length_vread[OF st(3)] length_vread[OF st(5)] o e by (simp_all add: word_le_nat_alt)
  have l: "length b1 = length buf" "length b2 = length buf" "length buf' = length buf"
    using wr_range_length[OF st(2)] wr_range_length[OF st(4)] wr_range_length[OF st(6)] by simp_all
  have "buf' ! i = buf ! i" if i: "i < length buf" and out: "i \<notin> region (rq_stdout req) \<union> region (rq_stderr req) \<union> region (rq_OB req)" for i
    using wr_range_outside[OF st(2), of i] wr_range_outside[OF st(4), of i] wr_range_outside[OF st(6), of i] i out len l by (auto simp: region_def)
  then show ?thesis using l(3) by blast
qed

lemma run_and_report_frame:
  assumes load: "elf_load tscf buf len (elf_config req (buffer j)) m0 = Some (Some app, m)"
    and run: "run_and_report env rc req app j s m = Some (r, j', s', m')"
  shows "length (buffer j') = length (buffer j) \<and> buffer_size j' = buffer_size j \<and> elf_cache j' = elf_cache j \<and> data_cache j' = data_cache j \<and>
    (\<forall>i < length (buffer j). i \<notin> region (rq_stdout req) \<union> region (rq_stderr req) \<union> region (rq_OB req) \<longrightarrow> buffer j' ! i = buffer j ! i)"
proof -
  obtain res buf' where res: "elf_run env rc app (rq_time_limit_ns req) s m = Some (res, s', m')" "copy_out req res m' (buffer j) = Some buf'"
      "j' = j\<lparr>judge_result := r, buffer := buf', total_time_ns := total_time_ns j + jr_time_ns r\<rparr>"
    using run by (auto simp: run_and_report_def Let_def split: bind_splits)
  obtain l where "app_duckinfo_orig app = make_duckinfo tscf (elf_config req (buffer j)) l" using load_duckinfo[OF load] by blast
  then have "rr_stdout_size res \<le> b_len (rq_stdout req)" "rr_stderr_size res \<le> b_len (rq_stderr req)"
    using run_output_limits[OF res(1)] by (simp_all add: make_duckinfo_def elf_config_def)
  then show ?thesis using copy_out_frame[OF res(2)] res(3) by simp
qed

lemmas judge_errors = can_not_load_elf_def invalid_time_limit_def

text \<open>The branches of a call for a new request: an error with everything else unchanged, or a run.\<close>

lemma judge_cases:
  assumes run: "judge env rc req j s m = Some (r, j', s', m')" and new: "rq_seq_num req \<noteq> judge_seq_num j"
  obtains (refused) e where "r = (judge_result j)\<lparr>jr_error := Some e\<rparr>"
      "j' = j\<lparr>n_judges := n_judges j + 1, judge_result_cleared := False, judge_seq_num := rq_seq_num req, judge_result := r\<rparr>" "s' = s"
  | (ran) j1 app m1 where "j1 = j\<lparr>n_judges := n_judges j + 1, judge_result_cleared := False, judge_seq_num := rq_seq_num req\<rparr>"
      "check_buffers (buffer_size j) (request_buffers req)" "rq_time_limit_ns req \<noteq> 0"
      "elf_load (tsc_freq (env_timer env)) (drop (unat (b_off (rq_ELF req))) (buffer j)) (ucast (b_len (rq_ELF req)))
          (elf_config req (buffer j1)) m = Some (Some app, m1)"
      "run_and_report env rc req app j1 s m1 = Some (r, j', s', m')"
proof -
  let ?j = "j\<lparr>n_judges := n_judges j + 1, judge_result_cleared := False, judge_seq_num := rq_seq_num req\<rparr>"
  show thesis
  proof (cases "\<not> rq_memory_hard_limit_kb req * 1024 < rq_memory_hard_limit_kb req \<and> check_buffers (buffer_size j) (request_buffers req) \<and>
      \<not> (rq_time_limit_ns req = 0 \<or> rq_time_limit_ns req > MAX_TIME_LIMIT_NS)")
    case False
    then show ?thesis using run new
      by (intro refused[of "the (jr_error r)"]) (auto simp: judge_def judge_errors Let_def split: if_splits)
  next
    case True
    then obtain a m1 where load: "elf_load (tsc_freq (env_timer env)) (drop (unat (b_off (rq_ELF req))) (buffer j)) (ucast (b_len (rq_ELF req)))
          (elf_config req (buffer j)) m = Some (a, m1)"
        and rest: "(case a of None \<Rightarrow> (case can_not_load_elf ?j of (r, j) \<Rightarrow> Some (r, j, s, m1)) | Some app \<Rightarrow> run_and_report env rc req app ?j s m1) = Some (r, j', s', m')"
      using run new by (auto simp: judge_def Let_def split: bind_splits)
    show ?thesis
    proof (cases a)
      case None
      then show ?thesis using rest by (intro refused[of "''Can't load ELF''"]) (auto simp: judge_errors Let_def)
    next
      case (Some app)
      then show ?thesis using rest load True by (intro ran[of ?j app m1]) simp_all
    qed
  qed
qed

text \<open>The part of the buffer that a descriptor names.\<close>

definition slice :: "BufferDesc \<Rightarrow> Judger \<Rightarrow> bytes" where
  "slice b j = take (unat (b_len b)) (drop (unat (b_off b)) (buffer j))"

lemma slice_cong:
  assumes "length (buffer j') = length (buffer j)" "\<forall>i < length (buffer j). i \<in> region b \<longrightarrow> buffer j' ! i = buffer j ! i"
  shows "slice b j' = slice b j"
  by (rule nth_equalityI) (use assms in \<open>auto simp: slice_def region_def\<close>)


text \<open>A judger with a buffer of 16 bytes, and a request that asks for no time at all.\<close>

definition demo_judger :: Judger where
  "demo_judger = \<lparr>n_judges = 0, total_time_ns = 0, buffer = replicate 16 7, buffer_size = 16, elf_cache = demo_cache, data_cache = demo_cache,
     judge_seq_num = - 1, stdout_size = 0, stderr_size = 0, judge_result = zero_result, judge_result_cleared = True\<rparr>"

definition demo_request :: JudgeRequest where
  "demo_request = \<lparr>rq_seq_num = 1, rq_time_limit_ns = 0, rq_memory_hard_limit_kb = 64, rq_ELF = \<lparr>b_off = 0, b_len = 4\<rparr>,
     rq_stdin = \<lparr>b_off = 4, b_len = 1\<rparr>, rq_stdout = \<lparr>b_off = 5, b_len = 2\<rparr>, rq_stderr = \<lparr>b_off = 7, b_len = 2\<rparr>,
     rq_IB = \<lparr>b_off = 9, b_len = 1\<rparr>, rq_OB = \<lparr>b_off = 10, b_len = 6\<rparr>, rq_OB_need_clear = 1\<rparr>"

lemma demo_judge: "\<exists>r j'. judge demo_env 0 demo_request demo_judger demo_ready zero_PM = Some (r, j', demo_ready, zero_PM) \<and> jr_error r = Some ''Invalid time limit''"
  by (simp add: judge_def demo_request_def demo_judger_def Let_def check_buffers_def request_buffers_def is_valid_buffer_def check_overlap_def
      invalid_time_limit_def)


lemma result_of_run_verdict:
  "jr_error (result_of_run limit res) = None \<and> jr_time_ns (result_of_run limit res) \<le> limit \<and>
    (jr_is_TLE (result_of_run limit res) \<longleftrightarrow> rr_time_ns res > limit \<or> rr_trap_num res = 32) \<and>
    (jr_is_RE (result_of_run limit res) \<longleftrightarrow> rr_trap_num res \<noteq> 255 \<and> \<not> jr_is_TLE (result_of_run limit res))"
  by (auto simp: result_of_run_def Let_def)

text \<open>C37: A request is judged once. A new sequence number counts as one judgement, the result of a run never shows more time than the
  limit and not both of the bad verdicts, and when the request arrives again, in whatever state the machine is then, it gets the same
  result and changes nothing.\<close>

theorem judge_once:
  assumes run: "judge env rc req j s m = Some (r, j', s', m')" and new: "rq_seq_num req \<noteq> judge_seq_num j"
  shows "n_judges j' = n_judges j + 1 \<and>
    (jr_error r = None \<longrightarrow> jr_time_ns r \<le> rq_time_limit_ns req \<and> \<not> (jr_is_RE r \<and> jr_is_TLE r) \<and> total_time_ns j' = total_time_ns j + jr_time_ns r) \<and>
    (\<forall>env' rc' s2 m2. judge env' rc' req j' s2 m2 = Some (r, j', s2, m2))"
  using run new
proof (cases rule: judge_cases)
  case (refused e)
  then show ?thesis by (simp add: judge_def)
next
  case (ran j1 app m1)
  obtain res buf' where "r = result_of_run (rq_time_limit_ns req) res"
      "j' = j1\<lparr>judge_result := r, buffer := buf', total_time_ns := total_time_ns j1 + jr_time_ns r\<rparr>"
    using ran(5) by (auto simp: run_and_report_def Let_def split: bind_splits)
  then show ?thesis using ran(1) result_of_run_verdict[of "rq_time_limit_ns req" res] by (auto simp: judge_def)
qed

theorem judge_once_witness:
  "\<exists>r j'. judge demo_env 0 demo_request demo_judger demo_ready zero_PM = Some (r, j', demo_ready, zero_PM) \<and> n_judges j' = 1 \<and>
     judge demo_env 5 demo_request j' demo_ready zero_PM = Some (r, j', demo_ready, zero_PM)"
proof -
  obtain r j' where run: "judge demo_env 0 demo_request demo_judger demo_ready zero_PM = Some (r, j', demo_ready, zero_PM)" using demo_judge by blast
  have "rq_seq_num demo_request \<noteq> judge_seq_num demo_judger" by (simp add: demo_request_def demo_judger_def)
  from judge_once[OF run this] have "n_judges j' = 1" "judge demo_env 5 demo_request j' demo_ready zero_PM = Some (r, j', demo_ready, zero_PM)"
    by (simp_all add: demo_judger_def)
  then show ?thesis using run by blast
qed



section \<open>The caches of the judger\<close>

text \<open>A store of a part of the buffer followed by a load to another place copies it.\<close>

lemma store_range_in: "unat off + unat len \<le> length buf \<Longrightarrow> store_range t d buf off len c = cache_store t d (take (unat len) (drop (unat off) buf)) c"
  by (simp add: store_range_def rd_range_def)

lemma store_then_load_cache:
  assumes map: "cache_map (elf_cache j) f" "f d = None" and hex: "digest_from_hex hex = Some (Some d)"
    and src: "unat off + unat len \<le> length (buffer j)" and dst: "unat dst + unat len \<le> length (buffer j)" and len: "unat len + 4087 < 2 ^ 64"
    and fits: "cache_fits (elf_cache j) (take (unat len) (drop (unat off) (buffer j)))" and t: "t1 \<noteq> 0" "t2 \<noteq> 0"
  shows "\<exists>j1 j2. store_cache t1 ''elf'' off len hex j = Some (True, j1) \<and> load_cache t2 ''elf'' dst len hex j1 = Some (True, j2) \<and>
    buffer j2 = blit (buffer j) (unat dst) (take (unat len) (drop (unat off) (buffer j)))"
proof -
  define data where "data = take (unat len) (drop (unat off) (buffer j))"
  have n: "length data = unat len" "of_nat (length data) = len" using src by (simp_all add: data_def)
  obtain c1 c2 where c: "cache_store t1 d data (elf_cache j) = Some (True, c1)" "cache_load t2 d (of_nat (length data)) c1 = Some (Some data, c2)"
    using dcache.store_then_load[OF map, of data t1 t2] fits len t n by (auto simp: data_def)
  have "store_cache t1 ''elf'' off len hex j = Some (True, j\<lparr>elf_cache := c1\<rparr>)"
    using c(1) hex store_range_in[OF src, of t1 d "elf_cache j"] by (simp add: store_cache_def data_def)
  moreover have "load_cache t2 ''elf'' dst len hex (j\<lparr>elf_cache := c1\<rparr>) =
      Some (True, clear_judge_result (j\<lparr>elf_cache := c2, buffer := blit (buffer j) (unat dst) data\<rparr>))"
    using c(2) hex dst n by (simp add: load_cache_def wr_range_def)
  ultimately show ?thesis by (auto simp: data_def)
qed

end
