(* ===== verification/User_Calls.thy ===== *)
theory User_Calls
  imports Kern_Judger
begin

text \<open>
  The system calls that are linked into the judged programs: \<open>user_lib/duck64_syscall_handler.cpp\<close> and
  \<open>user_lib32/duck32_syscall_handler.cpp\<close>.

  The memory of a program is a partial function from addresses to bytes; an access to an address
  outside of it is a fault, \<^term>\<open>None\<close>. The rights of the pages are left out here. The auxiliary vector, the end of the
  program's data and the time stamp counter are arguments. A \<open>struct stat\<close>, whose layout belongs to the C library, is
  kept as a value at its address. What a call asks of the kernel is part of its result.
\<close>

section \<open>Memory of a program\<close>

type_synonym 'a mem = "'a word \<Rightarrow> u8 option"

primrec uread :: "nat \<Rightarrow> 'a::len word \<Rightarrow> 'a mem \<Rightarrow> bytes option" where
  "uread 0 a m = Some []"
| "uread (Suc n) a m = do { b \<leftarrow> m a; bs \<leftarrow> uread n (a + 1) m; Some (b # bs) }"

primrec uwrite :: "bytes \<Rightarrow> 'a::len word \<Rightarrow> 'a mem \<Rightarrow> 'a mem option" where
  "uwrite [] a m = Some m"
| "uwrite (b # bs) a m = do { _ \<leftarrow> m a; uwrite bs (a + 1) (m(a \<mapsto> b)) }"

text \<open>Little-endian numbers of any width.\<close>

primrec wbytes :: "nat \<Rightarrow> 'b::len word \<Rightarrow> bytes" where
  "wbytes 0 w = []"
| "wbytes (Suc n) w = ucast w # wbytes n (drop_bit 8 w)"

primrec wval :: "bytes \<Rightarrow> 'b::len word" where
  "wval [] = 0"
| "wval (b # bs) = ucast b OR push_bit 8 (wval bs)"

definition uget :: "'a::len word \<Rightarrow> 'a mem \<Rightarrow> 'b::len word option" where
  "uget a m = map_option wval (uread (LENGTH('b) div 8) a m)"

definition uput :: "'b::len word \<Rightarrow> 'a::len word \<Rightarrow> 'a mem \<Rightarrow> 'a mem option" where
  "uput v a m = uwrite (wbytes (LENGTH('b) div 8) v) a m"

definition ucopy :: "'a::len word \<Rightarrow> 'a word \<Rightarrow> nat \<Rightarrow> 'a mem \<Rightarrow> 'a mem option" where
  "ucopy dst src n m = do { bs \<leftarrow> uread n src m; uwrite bs dst m }"

partial_function (option) ustrlen :: "'a::len word \<Rightarrow> 'a mem \<Rightarrow> nat option" where
  "ustrlen a m = (case m a of None \<Rightarrow> None
     | Some c \<Rightarrow> if c = 0 then Some 0 else do { n \<leftarrow> ustrlen (a + 1) m; Some (Suc n) })"

record FileStat =
  st_mode :: u32
  st_size :: u64
  st_blksize :: u64
  st_blocks :: u64

definition zero_stat :: FileStat where "zero_stat = \<lparr>st_mode = 0, st_size = 0, st_blksize = 0, st_blocks = 0\<rparr>"
definition S_IFREG :: u32 where "S_IFREG = 0x8000"
definition CLOCK_PROCESS_CPUTIME_ID :: u32 where "CLOCK_PROCESS_CPUTIME_ID = 2"
definition AT_PAGESZ :: u64 where "AT_PAGESZ = 6"
definition ARCH_SET_FS :: u32 where "ARCH_SET_FS = 0x1002"

text \<open>A call returns a value, or goes on in the kernel with a number and an argument.\<close>

datatype 'v call_result = Ret 'v | Traps nat u32

section \<open>State\<close>

text \<open>The variables of the library, over the machine's words; the two libraries differ in the width of these.\<close>

record 'w User =
  inited :: bool
  duckinfo :: 'w
  stdout_max_size :: 'w
  stderr_max_size :: 'w
  stdin_curr_pos :: 'w
  tsc_frequency :: u64
  heap_brk :: 'w
  mmap_p :: 'w
  fsbase :: 'w
  umem :: "'w \<Rightarrow> u8 option"
  stats :: "'w \<Rightarrow> FileStat option"

text \<open>The packed structure of the judge: word \<open>k\<close> of it, the first words by their names.\<close>

datatype Field = F_abi_version | F_stdin_ptr | F_stdin_size | F_stdout_ptr | F_stdout_limit | F_stdout_size
  | F_stderr_ptr | F_stderr_limit | F_stderr_size | F_IB_ptr | F_IB_limit | F_OB_ptr | F_OB_limit | F_tsc_frequency

primrec field_index :: "Field \<Rightarrow> nat" where
  "field_index F_abi_version = 0" | "field_index F_stdin_ptr = 1" | "field_index F_stdin_size = 2"
| "field_index F_stdout_ptr = 3" | "field_index F_stdout_limit = 4" | "field_index F_stdout_size = 5"
| "field_index F_stderr_ptr = 6" | "field_index F_stderr_limit = 7" | "field_index F_stderr_size = 8"
| "field_index F_IB_ptr = 9" | "field_index F_IB_limit = 10" | "field_index F_OB_ptr = 11"
| "field_index F_OB_limit = 12" | "field_index F_tsc_frequency = 13"

definition field_addr :: "'a::len word \<Rightarrow> Field \<Rightarrow> 'a word" where
  "field_addr info f = info + of_nat (field_index f * (LENGTH('a) div 8))"

definition field :: "Field \<Rightarrow> 'a::len word User \<Rightarrow> 'b::len word option" where
  "field f u = uget (field_addr (duckinfo u) f) (umem u)"

definition set_field :: "Field \<Rightarrow> 'a::len word \<Rightarrow> 'a word User \<Rightarrow> 'a word User option" where
  "set_field f v u = do { m \<leftarrow> uput v (field_addr (duckinfo u) f) (umem u); Some (u\<lparr>umem := m\<rparr>) }"

section \<open>Operations, over words of any width\<close>

definition lib_init :: "('a word \<Rightarrow> 'a word) \<Rightarrow> 'a word \<Rightarrow> 'a::len word User \<Rightarrow> 'a word User option" where
  "lib_init getauxval end_addr u = do {
     let u = u\<lparr>inited := True, duckinfo := getauxval (ucast AT_DUCK), stdin_curr_pos := 0\<rparr>;
     lim \<leftarrow> field F_stdout_limit u;
     u \<leftarrow> set_field F_stdout_size 0 (u\<lparr>stdout_max_size := lim\<rparr>);
     lim \<leftarrow> field F_stderr_limit u;
     u \<leftarrow> set_field F_stderr_size 0 (u\<lparr>stderr_max_size := lim\<rparr>);
     let page_size = getauxval (ucast AT_PAGESZ);
     q \<leftarrow> c_div (end_addr + page_size - 1) page_size;
     f \<leftarrow> field F_tsc_frequency u;
     Some (u\<lparr>heap_brk := q * page_size, tsc_frequency := f\<rparr>)
   }"

definition lib_clock :: "u64 \<Rightarrow> u32 \<Rightarrow> 'a word \<Rightarrow> 'a::len word User \<Rightarrow> ('a word \<times> 'a word User) option" where
  "lib_clock t clk_id tp u =
     (if clk_id = CLOCK_PROCESS_CPUTIME_ID then do {
        sec \<leftarrow> c_div t (tsc_frequency u);
        nsec \<leftarrow> c_div (t mod tsc_frequency u * 1000000000) (tsc_frequency u);
        m \<leftarrow> uput sec tp (umem u);
        m \<leftarrow> uput nsec (tp + 8) m;
        Some (0, u\<lparr>umem := m\<rparr>)
      } else Some (- 1, u))"

definition lib_read :: "u32 \<Rightarrow> 'a word \<Rightarrow> 'a word \<Rightarrow> 'a::len word User \<Rightarrow> ('a word \<times> 'a word User) option" where
  "lib_read fd buf len u =
     (if fd = 0 then do {
        sz \<leftarrow> field F_stdin_size u;
        let available_len = sz - stdin_curr_pos u;
        let actual_len = min len available_len;
        p \<leftarrow> field F_stdin_ptr u;
        m \<leftarrow> ucopy buf (p + stdin_curr_pos u) (unat actual_len) (umem u);
        Some (actual_len, u\<lparr>umem := m, stdin_curr_pos := stdin_curr_pos u + actual_len\<rparr>)
      } else Some (0, u))"

text \<open>Appending to an output stream; \<open>fp\<close> and \<open>fs\<close> are the fields of its pointer and its size.\<close>

definition lib_append :: "Field \<Rightarrow> Field \<Rightarrow> 'a word \<Rightarrow> 'a word \<Rightarrow> 'a word \<Rightarrow> 'a::len word User \<Rightarrow> ('a word \<times> 'a word User) option" where
  "lib_append fp fs max_size buf len u = do {
     sz \<leftarrow> field fs u;
     let available_len = max_size - sz;
     let actual_len = min len available_len;
     p \<leftarrow> field fp u;
     m \<leftarrow> ucopy (p + sz) buf (unat actual_len) (umem u);
     let u = u\<lparr>umem := m\<rparr>;
     sz \<leftarrow> field fs u;
     u \<leftarrow> set_field fs (sz + actual_len) u;
     Some (actual_len, u)
   }"

text \<open>The loop of both vector calls, over the indices of the vector.\<close>

primrec lib_vec :: "('a word \<Rightarrow> 'a word \<Rightarrow> 'a word User \<Rightarrow> ('a word \<times> 'a word User) option) \<Rightarrow> 'a word \<Rightarrow> nat list \<Rightarrow>
    'a word \<Rightarrow> 'a::len word User \<Rightarrow> ('a word \<times> 'a word User) option" where
  "lib_vec f iov [] ret u = Some (ret, u)"
| "lib_vec f iov (i # ids) ret u = do {
     let p = iov + of_nat (i * (2 * (LENGTH('a) div 8)));
     let q = p + of_nat (LENGTH('a) div 8);
     base \<leftarrow> uget p (umem u);
     len \<leftarrow> uget q (umem u);
     (tmp, u) \<leftarrow> f base len u;
     len' \<leftarrow> uget q (umem u);
     let ret = (if tmp \<le> len' then ret + tmp else ret);
     if tmp \<noteq> len' then Some (ret, u) else lib_vec f iov ids ret u
   }"

definition file_stat :: "u32 \<Rightarrow> 'a::len word \<Rightarrow> FileStat" where
  "file_stat mode sz = \<lparr>st_mode = S_IFREG OR mode, st_size = ucast sz, st_blksize = 4096, st_blocks = ucast ((sz + 4095) div 4096)\<rparr>"

definition lib_fstat :: "u32 \<Rightarrow> u32 \<Rightarrow> 'a word \<Rightarrow> 'a::len word User \<Rightarrow> ('a word \<times> 'a word User) option" where
  "lib_fstat mode fd st u = (let u = u\<lparr>stats := (stats u)(st \<mapsto> zero_stat)\<rparr> in
     if fd = 0 then do {
       sz \<leftarrow> field F_stdin_size u;
       Some (0, u\<lparr>stats := (stats u)(st \<mapsto> file_stat mode (sz :: 'a word))\<rparr>)
     } else if fd = 1 then do {
       sz \<leftarrow> field F_stdout_size u;
       Some (0, u\<lparr>stats := (stats u)(st \<mapsto> file_stat mode (sz :: 'a word))\<rparr>)
     } else Some (- 1, u))"

definition lib_brk :: "'a word \<Rightarrow> 'a::len word User \<Rightarrow> 'a word \<times> 'a word User" where
  "lib_brk addr u =
     (if addr = 0 then (heap_brk u, u)
      else let u = (if addr > heap_brk u then u\<lparr>heap_brk := addr\<rparr> else u) in (heap_brk u, u))"

definition returning :: "('v \<times> 'u) option \<Rightarrow> ('v call_result \<times> 'u) option" where
  "returning r = map_option (\<lambda>(v, u). (Ret v, u)) r"

section \<open>The 64-bit library\<close>

type_synonym User64 = "u64 User"

definition init64 :: "(u64 \<Rightarrow> u64) \<Rightarrow> u64 \<Rightarrow> User64 \<Rightarrow> User64 option" where
  "init64 = lib_init"

definition duck_clock_get_time :: "u64 \<Rightarrow> u32 \<Rightarrow> u64 \<Rightarrow> User64 \<Rightarrow> (u64 \<times> User64) option" where
  "duck_clock_get_time = lib_clock"

definition duck_read64 :: "u32 \<Rightarrow> u64 \<Rightarrow> u64 \<Rightarrow> User64 \<Rightarrow> (u64 \<times> User64) option" where
  "duck_read64 = lib_read"

definition duck_write64 :: "u32 \<Rightarrow> u64 \<Rightarrow> u64 \<Rightarrow> User64 \<Rightarrow> (u64 \<times> User64) option" where
  "duck_write64 fd buf len u =
     (if fd = 1 then do { (_, u) \<leftarrow> lib_append F_stdout_ptr F_stdout_size (stdout_max_size u) buf len u; Some (len, u) }
      else if fd = 2 then do { (_, u) \<leftarrow> lib_append F_stderr_ptr F_stderr_size (stderr_max_size u) buf len u; Some (len, u) }
      else Some (0, u))"

definition duck_readv64 :: "u32 \<Rightarrow> u64 \<Rightarrow> u32 \<Rightarrow> User64 \<Rightarrow> (u64 \<times> User64) option" where
  "duck_readv64 fd iov cnt u = lib_vec (duck_read64 fd) iov [0..<nat (sint cnt)] 0 u"

definition duck_writev64 :: "u32 \<Rightarrow> u64 \<Rightarrow> u32 \<Rightarrow> User64 \<Rightarrow> (u64 \<times> User64) option" where
  "duck_writev64 fd iov cnt u = lib_vec (duck_write64 fd) iov [0..<nat (sint cnt)] 0 u"

definition duck_fstat64 :: "u32 \<Rightarrow> u64 \<Rightarrow> User64 \<Rightarrow> (u64 \<times> User64) option" where
  "duck_fstat64 = lib_fstat 0x1b4"

definition duck_arch_prctl :: "u32 \<Rightarrow> u64 \<Rightarrow> User64 \<Rightarrow> u64 \<times> User64" where
  "duck_arch_prctl code addr u = (if code = ARCH_SET_FS then (0, u\<lparr>fsbase := addr\<rparr>) else (- 1, u))"

definition duck_mmap_temp :: "u64 \<Rightarrow> User64 \<Rightarrow> u64 \<times> User64" where
  "duck_mmap_temp sz u = (let sz = (sz + 4095) AND - 4096; p = mmap_p u in (p, u\<lparr>mmap_p := mmap_p u + sz\<rparr>))"

text \<open>\<open>strncpy\<close> fills the rest with zeros; the last byte is always one.\<close>

definition strncpy_safe :: "u64 \<Rightarrow> string \<Rightarrow> u64 \<Rightarrow> User64 \<Rightarrow> User64 option" where
  "strncpy_safe dest src n u =
     (if n > 0 then do {
        let src = bytes_of_string src;
        m \<leftarrow> uwrite (take (unat n - 1) src @ replicate (unat n - 1 - length src) 0 @ [0]) dest (umem u);
        Some (u\<lparr>umem := m\<rparr>)
      } else Some u)"

definition duck_uname :: "u64 \<Rightarrow> User64 \<Rightarrow> (u64 \<times> User64) option" where
  "duck_uname buf u = do {
     u \<leftarrow> strncpy_safe buf ''JudgeDuck'' 65 u;
     u \<leftarrow> strncpy_safe (buf + 65) ''duck'' 65 u;
     u \<leftarrow> strncpy_safe (buf + 130) ''5.11.0'' 65 u;
     u \<leftarrow> strncpy_safe (buf + 195) ''duck-20210901'' 65 u;
     u \<leftarrow> strncpy_safe (buf + 260) ''x86_64'' 65 u;
     Some (0, u)
   }"

definition duck_readlink :: "u64 \<Rightarrow> u64 \<Rightarrow> u32 \<Rightarrow> User64 \<Rightarrow> (u64 \<times> User64) option" where
  "duck_readlink path buf bufsiz u = do {
     u \<leftarrow> strncpy_safe buf ''/tmp/main.exe'' (scast bufsiz) u;
     n \<leftarrow> ustrlen path (umem u);
     Some (of_nat n, u)
   }"

text \<open>The dispatcher, by the numbers of the system calls. What goes on in the kernel is a trap with its number.\<close>

definition dispatch64 :: "u64 \<Rightarrow> u64 \<Rightarrow> u64 \<Rightarrow> u64 \<Rightarrow> u64 \<Rightarrow> User64 \<Rightarrow> (u64 call_result \<times> User64) option" where
  "dispatch64 now a1 a2 a3 n u =
     (if n = 12 then returning (Some (lib_brk a1 u))
      else if n = 228 then returning (duck_clock_get_time now (ucast a1) a2 u)
      else if n = 0 then returning (duck_read64 (ucast a1) a2 (scast (ucast a3 :: u32)) u)
      else if n = 19 then returning (duck_readv64 (ucast a1) a2 (ucast a3) u)
      else if n = 1 then returning (duck_write64 (ucast a1) a2 a3 u)
      else if n = 20 then returning (duck_writev64 (ucast a1) a2 (ucast a3) u)
      else if n = 60 \<or> n = 231 then Some (Traps 60 (ucast a1), u)
      else if n = 158 then returning (Some (duck_arch_prctl (ucast a1) a2 u))
      else if n = 16 then Some (Ret 0, u)
      else if n = 5 then returning (duck_fstat64 (ucast a1) a2 u)
      else if n = 9 then returning (Some (duck_mmap_temp a2 u))
      else if n = 14 \<or> n = 13 \<or> n = 131 then Some (Ret 0, u)
      else if n = 218 then Some (Ret 12345, u)
      else if n = 200 then Some (Traps 200 (ucast a3), u)
      else if n = 10 \<or> n = 11 \<or> n = 7 then Some (Ret 0, u)
      else if n = 63 then returning (duck_uname a1 u)
      else if n = 89 then returning (duck_readlink a1 a2 (ucast a3) u)
      else if n = 39 \<or> n = 186 then Some (Ret 1234, u)
      else if n = 234 then Some (Traps 200 (ucast a3), u)
      else Some (Ret (- 1), u))"

definition duck64_syscall_handler :: "(u64 \<Rightarrow> u64) \<Rightarrow> u64 \<Rightarrow> u64 \<Rightarrow> u64 \<Rightarrow> u64 \<Rightarrow> u64 \<Rightarrow> u64 \<Rightarrow> User64 \<Rightarrow> (u64 call_result \<times> User64) option" where
  "duck64_syscall_handler getauxval end_addr now a1 a2 a3 n u = do {
     u \<leftarrow> (if inited u then Some u else init64 getauxval end_addr u);
     dispatch64 now a1 a2 a3 n u
   }"

section \<open>The 32-bit library\<close>

type_synonym User32 = "u32 User"

definition init32 :: "(u32 \<Rightarrow> u32) \<Rightarrow> u32 \<Rightarrow> User32 \<Rightarrow> User32 option" where
  "init32 = lib_init"

definition duck_clock_get_time_64 :: "u64 \<Rightarrow> u32 \<Rightarrow> u32 \<Rightarrow> User32 \<Rightarrow> (u32 \<times> User32) option" where
  "duck_clock_get_time_64 = lib_clock"

definition duck_read32 :: "u32 \<Rightarrow> u32 \<Rightarrow> u32 \<Rightarrow> User32 \<Rightarrow> (u32 \<times> User32) option" where
  "duck_read32 = lib_read"

definition duck_write32 :: "u32 \<Rightarrow> u32 \<Rightarrow> u32 \<Rightarrow> User32 \<Rightarrow> (u32 \<times> User32) option" where
  "duck_write32 fd buf len u =
     (if fd = 1 then lib_append F_stdout_ptr F_stdout_size (stdout_max_size u) buf len u
      else if fd = 2 then lib_append F_stderr_ptr F_stderr_size (stderr_max_size u) buf len u
      else Some (0, u))"

definition duck_readv32 :: "u32 \<Rightarrow> u32 \<Rightarrow> u32 \<Rightarrow> User32 \<Rightarrow> (u32 \<times> User32) option" where
  "duck_readv32 fd iov cnt u = lib_vec (duck_read32 fd) iov [0..<nat (sint cnt)] 0 u"

definition duck_writev32 :: "u32 \<Rightarrow> u32 \<Rightarrow> u32 \<Rightarrow> User32 \<Rightarrow> (u32 \<times> User32) option" where
  "duck_writev32 fd iov cnt u = lib_vec (duck_write32 fd) iov [0..<nat (sint cnt)] 0 u"

definition duck_fstat32 :: "u32 \<Rightarrow> u32 \<Rightarrow> User32 \<Rightarrow> (u32 \<times> User32) option" where
  "duck_fstat32 = lib_fstat 0x1a4"

definition duck_brk32 :: "u32 \<Rightarrow> User32 \<Rightarrow> u32 \<times> User32" where
  "duck_brk32 = lib_brk"

definition dispatch32 :: "u64 \<Rightarrow> u32 \<Rightarrow> u32 \<Rightarrow> u32 \<Rightarrow> u32 \<Rightarrow> User32 \<Rightarrow> (u32 call_result \<times> User32) option" where
  "dispatch32 now a1 a2 a3 n u =
     (if n = 45 then returning (Some (duck_brk32 a1 u))
      else if n = 403 then returning (duck_clock_get_time_64 now a1 a2 u)
      else if n = 3 then returning (duck_read32 a1 a2 a3 u)
      else if n = 145 then returning (duck_readv32 a1 a2 a3 u)
      else if n = 4 then returning (duck_write32 a1 a2 a3 u)
      else if n = 146 then returning (duck_writev32 a1 a2 a3 u)
      else if n = 1 \<or> n = 252 then Some (Traps 1 a1, u)
      else if n = 243 then Some (Traps 243 a1, u)
      else if n = 54 then Some (Ret 0, u)
      else if n = 108 then returning (duck_fstat32 a1 a2 u)
      else Some (Ret (- 1), u))"

definition duck32_syscall_handler :: "(u32 \<Rightarrow> u32) \<Rightarrow> u32 \<Rightarrow> u64 \<Rightarrow> u32 \<Rightarrow> u32 \<Rightarrow> u32 \<Rightarrow> u32 \<Rightarrow> User32 \<Rightarrow> (u32 call_result \<times> User32) option" where
  "duck32_syscall_handler getauxval end_addr now a1 a2 a3 n u = do {
     u \<leftarrow> (if inited u then Some u else init32 getauxval end_addr u);
     dispatch32 now a1 a2 a3 n u
   }"

section \<open>Facts about memory\<close>

definition area :: "'a::len word \<Rightarrow> nat \<Rightarrow> 'a word set" where
  "area a n = (\<lambda>i. a + of_nat i) ` {..<n}"

lemma area_0 [simp]: "area a 0 = {}"
  by (simp add: area_def)

lemma area_Suc: "area a (Suc n) = insert a (area (a + 1) n)"
proof -
  have "{..<Suc n} = insert 0 (Suc ` {..<n})" by (rule lessThan_Suc_eq_insert_0)
  then show ?thesis by (simp add: area_def image_image ac_simps)
qed

lemma area_add: "area a (n + k) = area a n \<union> area (a + of_nat n) k"
  by (induction n arbitrary: a) (simp_all add: area_Suc algebra_simps)

lemma area_mono: "n \<le> k \<Longrightarrow> area a n \<subseteq> area a k"
  by (auto simp: area_def)

lemma area_notin: "n < 2 ^ LENGTH('a) \<Longrightarrow> a \<notin> area (a + 1) n" for a :: "'a::len word"
proof
  assume n: "n < 2 ^ LENGTH('a)" and "a \<in> area (a + 1) n"
  then obtain i where i: "i < n" "a = a + 1 + of_nat i" by (auto simp: area_def)
  then have "(of_nat (Suc i) :: 'a word) = 0" by (simp add: algebra_simps)
  then have "2 ^ LENGTH('a) dvd Suc i" by (simp only: word_of_nat_eq_0_iff)
  with i n show False by (auto dest: dvd_imp_le)
qed

lemma uread_length: "uread n a m = Some bs \<Longrightarrow> length bs = n"
  by (induction n arbitrary: a bs) (auto split: bind_splits)

lemma uread_cong: "(\<And>x. x \<in> area a n \<Longrightarrow> m x = m' x) \<Longrightarrow> uread n a m = uread n a m'"
  by (induction n arbitrary: a) (auto simp: area_Suc intro!: Option.bind_cong)

lemma uread_add: "uread (n + k) a m = do { x \<leftarrow> uread n a m; y \<leftarrow> uread k (a + of_nat n) m; Some (x @ y) }"
proof (induction n arbitrary: a)
  case (Suc n)
  have e: "a + of_nat (Suc n) = a + 1 + of_nat n" by simp
  show ?case
    unfolding add_Suc uread.simps Suc.IH e
    by (cases "m a"; cases "uread n (a + 1) m"; cases "uread k (a + 1 + of_nat n) m") simp_all
next
  case 0
  show ?case by (cases "uread k a m") simp_all
qed

lemma uread_prefix: "uread n a m = Some bs \<Longrightarrow> k \<le> n \<Longrightarrow> uread k a m = Some (take k bs)"
  using uread_add[of k "n - k" a m] by (auto split: bind_splits dest: uread_length)

lemma uread_defined: "area a n \<subseteq> dom m \<Longrightarrow> \<exists>bs. uread n a m = Some bs"
proof (induction n arbitrary: a)
  case (Suc n)
  from Suc.prems obtain b where "m a = Some b" by (auto simp: area_Suc)
  moreover obtain bs where "uread n (a + 1) m = Some bs" using Suc.IH[of "a + 1"] Suc.prems by (auto simp: area_Suc)
  ultimately show ?case by simp
qed simp

lemma uwrite_defined: "area a (length bs) \<subseteq> dom m \<Longrightarrow> \<exists>m'. uwrite bs a m = Some m'"
proof (induction bs arbitrary: a m)
  case (Cons b bs)
  from Cons.prems obtain v where v: "m a = Some v" by (auto simp: area_Suc)
  have "area (a + 1) (length bs) \<subseteq> dom (m(a \<mapsto> b))" using Cons.prems by (auto simp: area_Suc)
  from Cons.IH[OF this] obtain m' where "uwrite bs (a + 1) (m(a \<mapsto> b)) = Some m'" by blast
  with v show ?case by simp
qed simp

lemma uwrite_ConsD:
  "uwrite (b # bs) a m = Some m' \<Longrightarrow> m a \<noteq> None \<and> uwrite bs (a + 1) (m(a \<mapsto> b)) = Some m'"
  by (cases "m a") simp_all

lemma uwrite_frame: "uwrite bs a m = Some m' \<Longrightarrow> x \<notin> area a (length bs) \<Longrightarrow> m' x = m x"
proof (induction bs arbitrary: a m)
  case (Cons b bs)
  from Cons.prems(2) have x: "x \<noteq> a" "x \<notin> area (a + 1) (length bs)" by (simp_all add: area_Suc)
  from Cons.IH[OF conjunct2[OF uwrite_ConsD[OF Cons.prems(1)]] x(2)] x(1) show ?case by simp
qed simp

lemma uwrite_dom: "uwrite bs a m = Some m' \<Longrightarrow> dom m' = dom m"
proof (induction bs arbitrary: a m)
  case (Cons b bs)
  note w = uwrite_ConsD[OF Cons.prems]
  have "dom m' = insert a (dom m)" using Cons.IH[OF conjunct2[OF w]] by (simp only: dom_fun_upd option.distinct if_False)
  with w show ?case by (auto simp: domIff)
qed simp

lemma uwrite_uread:
  "uwrite bs a m = Some m' \<Longrightarrow> length bs \<le> 2 ^ LENGTH('a) \<Longrightarrow> uread (length bs) a m' = Some bs"
  for a :: "'a::len word"
proof (induction bs arbitrary: a m)
  case (Cons b bs)
  then have w: "uwrite bs (a + 1) (m(a \<mapsto> b)) = Some m'" using uwrite_ConsD by blast
  have "m' a = Some b" using uwrite_frame[OF w] area_notin[of "length bs" a] Cons.prems(2) by simp
  with Cons.IH[OF w] Cons.prems(2) show ?case by simp
qed simp

lemma wbytes_length [simp]: "length (wbytes n w) = n"
  by (induction n arbitrary: w) simp_all

lemma wval_wbytes: "wval (wbytes n w) = take_bit (8 * n) w" for w :: "'b::len word"
proof (induction n arbitrary: w)
  case (Suc n)
  show ?case
    by (rule bit_word_eqI) (auto simp: Suc.IH bit_simps)
qed simp

lemma uput_uget:
  fixes a :: "'a::len word" and v :: "'b::len word"
  assumes "uput v a m = Some m'" "8 * (LENGTH('b) div 8) = LENGTH('b)" "LENGTH('b) div 8 \<le> 2 ^ LENGTH('a)"
  shows "uget a m' = Some v"
proof -
  have "uread (LENGTH('b) div 8) a m' = Some (wbytes (LENGTH('b) div 8) v)"
    using uwrite_uread[of "wbytes (LENGTH('b) div 8) v" a m m'] assms(1,3) by (simp add: uput_def)
  then show ?thesis by (simp add: uget_def wval_wbytes assms(2))
qed

lemma uget_cong:
  "(\<And>x. x \<in> area a (LENGTH('b) div 8) \<Longrightarrow> m x = m' x) \<Longrightarrow> (uget a m :: 'b::len word option) = uget a m'"
  unfolding uget_def by (subst uread_cong[of a _ m m']) simp_all

section \<open>The fields of the structure\<close>

text \<open>The word widths of the two libraries: whole bytes, and wide enough for the structure.\<close>

definition byte_sized :: "'a::len itself \<Rightarrow> bool" where
  "byte_sized _ \<longleftrightarrow> 8 * (LENGTH('a) div 8) = LENGTH('a) \<and> 13 * (LENGTH('a) div 8) + 8 \<le> 2 ^ LENGTH('a) \<and> LENGTH('a) div 8 \<le> 8"

lemma byte_sized_64: "byte_sized TYPE(64)" by (simp add: byte_sized_def)
lemma byte_sized_32: "byte_sized TYPE(32)" by (simp add: byte_sized_def)

definition info_area :: "'a::len word \<Rightarrow> 'a word set" where
  "info_area info = area info (13 * (LENGTH('a) div 8) + 8)"

definition field_area :: "'a::len word \<Rightarrow> Field \<Rightarrow> 'a word set" where
  "field_area info f = area (field_addr info f) (LENGTH('a) div 8)"

lemma field_area_eq:
  "field_area info f = (\<lambda>i. info + of_nat i) ` {field_index f * (LENGTH('a) div 8) ..< Suc (field_index f) * (LENGTH('a) div 8)}"
  for info :: "'a::len word"
proof -
  let ?k = "field_index f * (LENGTH('a) div 8)"
  have "{?k ..< Suc (field_index f) * (LENGTH('a) div 8)} = (\<lambda>i. ?k + i) ` {..<LENGTH('a) div 8}"
    by (simp add: lessThan_atLeast0 algebra_simps)
  then show ?thesis by (simp only: field_area_def area_def field_addr_def image_image of_nat_add add.assoc)
qed

lemma field_index_less: "field_index f \<le> 13"
  by (cases f) simp_all

lemma field_index_inj: "field_index f = field_index g \<Longrightarrow> f = g"
  by (cases f; cases g) simp_all

lemma field_in_info: "byte_sized TYPE('a) \<Longrightarrow> field_area info f \<subseteq> info_area info" for info :: "'a::len word"
proof -
  assume "byte_sized TYPE('a)"
  then have w: "LENGTH('a) div 8 \<le> 8" by (simp add: byte_sized_def)
  have "Suc (field_index f) * (LENGTH('a) div 8) \<le> 14 * (LENGTH('a) div 8)"
    using field_index_less[of f] by (intro mult_le_mono1) simp
  also have "\<dots> \<le> 13 * (LENGTH('a) div 8) + 8" using w by simp
  finally show ?thesis unfolding field_area_eq info_area_def area_def by (intro image_mono) auto
qed

lemma fields_disjoint:
  fixes info :: "'a::len word"
  assumes b: "byte_sized TYPE('a)" and ne: "f \<noteq> g"
  shows "field_area info f \<inter> field_area info g = {}"
proof -
  let ?w = "LENGTH('a) div 8" let ?S = "\<lambda>f. {field_index f * ?w ..< Suc (field_index f) * ?w}"
  have sub: "?S h \<subseteq> {..<2 ^ LENGTH('a)}" for h
  proof -
    have "Suc (field_index h) * ?w \<le> 14 * ?w" using field_index_less[of h] by (intro mult_le_mono1) simp
    also have "\<dots> \<le> 2 ^ LENGTH('a)" using b by (simp add: byte_sized_def)
    finally show ?thesis by auto
  qed
  have "inj_on (\<lambda>i. info + (of_nat i :: 'a word)) {..<2 ^ LENGTH('a)}"
    by (auto simp: inj_on_def word_of_nat_eq_iff take_bit_nat_eq_self)
  moreover have "?S f \<inter> ?S g = {}"
  proof -
    consider "Suc (field_index f) \<le> field_index g" | "Suc (field_index g) \<le> field_index f"
      using ne field_index_inj[of f g] by fastforce
    then show ?thesis using mult_le_mono1[of _ _ ?w] by cases (fastforce dest: mult_le_mono1[of _ _ ?w])+
  qed
  ultimately show ?thesis
    unfolding field_area_eq using sub[of f] sub[of g] by (subst inj_on_image_Int[symmetric]) auto
qed

lemma field_frame:
  fixes u :: "'a::len word User"
  assumes "\<And>x. x \<in> field_area (duckinfo u) f \<Longrightarrow> umem u' x = umem u x" "duckinfo u' = duckinfo u"
  shows "(field f u' :: 'a word option) = field f u"
  unfolding field_def assms(2) using assms(1) by (intro uget_cong) (simp add: field_area_def)

lemma uput_field:
  fixes info v :: "'a::len word"
  assumes b: "byte_sized TYPE('a)" and m: "info_area info \<subseteq> dom m"
  shows "\<exists>m'. uput v (field_addr info f) m = Some m' \<and> dom m' = dom m \<and>
    uget (field_addr info f) m' = Some v \<and> (\<forall>x. x \<notin> field_area info f \<longrightarrow> m' x = m x)"
proof -
  have "area (field_addr info f) (length (wbytes (LENGTH('a) div 8) v)) \<subseteq> dom m"
    using field_in_info[OF b, of info f] m by (simp add: field_area_def)
  from uwrite_defined[OF this] obtain m' where w: "uput v (field_addr info f) m = Some m'" by (auto simp: uput_def)
  moreover have "uget (field_addr info f) m' = Some v" using uput_uget[OF w] b by (simp add: byte_sized_def)
  ultimately show ?thesis
    using uwrite_dom[OF w[unfolded uput_def]] uwrite_frame[OF w[unfolded uput_def]]
    by (intro exI[of _ m']) (simp add: field_area_def)
qed

lemma set_field_facts:
  fixes u :: "'a::len word User"
  assumes "byte_sized TYPE('a)" "info_area (duckinfo u) \<subseteq> dom (umem u)"
  shows "\<exists>m. set_field f v u = Some (u\<lparr>umem := m\<rparr>) \<and> dom m = dom (umem u) \<and>
    field f (u\<lparr>umem := m\<rparr>) = Some v \<and> (\<forall>x. x \<notin> field_area (duckinfo u) f \<longrightarrow> m x = umem u x)"
  using uput_field[OF assms, of v f] by (auto simp: set_field_def field_def)

section \<open>Output streams\<close>

text \<open>The stream of the fields \<open>fp\<close> and \<open>fs\<close>: its buffer at \<open>p\<close> is mapped, and apart from the structure.\<close>

definition stream_ready :: "Field \<Rightarrow> Field \<Rightarrow> 'a word \<Rightarrow> 'a word \<Rightarrow> 'a::len word User \<Rightarrow> bool" where
  "stream_ready fp fs p cap u \<longleftrightarrow> field fp u = Some p \<and> (\<exists>sz. field fs u = Some sz \<and> sz \<le> cap) \<and>
     info_area (duckinfo u) \<subseteq> dom (umem u) \<and> area p (unat cap) \<subseteq> dom (umem u) \<and> area p (unat cap) \<inter> info_area (duckinfo u) = {}"

definition stream_text :: "Field \<Rightarrow> 'a word \<Rightarrow> 'a::len word User \<Rightarrow> bytes option" where
  "stream_text fs p u = do { sz \<leftarrow> field fs u; uread (unat (sz :: 'a word)) p (umem u) }"

text \<open>Copying into the free part of the buffer.\<close>

lemma copy_into_buffer:
  fixes u :: "'a::len word User" and cap :: "'a word"
  assumes le: "unat sz + n \<le> unat cap" and dom: "area p (unat cap) \<subseteq> dom (umem u)"
    and bs: "uread k buf (umem u) = Some bs" "n \<le> k" and out: "uread (unat sz) p (umem u) = Some out"
  shows "\<exists>m. ucopy (p + sz) buf n (umem u) = Some m \<and> dom m = dom (umem u) \<and>
    uread (unat sz + n) p m = Some (out @ take n bs) \<and> (\<forall>x. x \<notin> area p (unat cap) \<longrightarrow> m x = umem u x)"
proof -
  note rd = uread_prefix[OF bs]
  have len: "length (take n bs) = n" using uread_length[OF rd] by simp
  have all: "area p (unat sz + n) = area p (unat sz) \<union> area (p + sz) n" by (simp add: area_add)
  then have sub: "area (p + sz) n \<subseteq> area p (unat cap)" using area_mono[OF le, of p] by blast
  then obtain m where m: "uwrite (take n bs) (p + sz) (umem u) = Some m"
    using uwrite_defined[of "p + sz" "take n bs" "umem u"] dom len by auto
  have n: "unat sz + n < 2 ^ LENGTH('a)" by (rule le_less_trans[OF le unsigned_less])
  have apart: "x \<notin> area (p + sz) n" if "x \<in> area p (unat sz)" for x
  proof
    assume "x \<in> area (p + sz) n"
    with that obtain i j where ij: "i < unat sz" "j < n" "(of_nat i :: 'a word) = of_nat (unat sz + j)"
      by (auto simp: area_def algebra_simps)
    then have "i = unat sz + j" using n by (simp only: word_of_nat_eq_iff) (simp add: take_bit_nat_eq_self)
    with ij(1) show False by simp
  qed
  have "uread (unat sz) p m = Some out"
    using out uwrite_frame[OF m, unfolded len] apart by (subst uread_cong[of _ _ m "umem u"]) auto
  moreover have "uread n (p + sz) m = Some (take n bs)" using uwrite_uread[OF m] len n by simp
  ultimately have "uread (unat sz + n) p m = Some (out @ take n bs)" by (simp add: uread_add)
  moreover have "m x = umem u x" if "x \<notin> area p (unat cap)" for x
    using that sub uwrite_frame[OF m, unfolded len, of x] by blast
  ultimately show ?thesis using m rd uwrite_dom[OF m] by (intro exI[of _ m]) (simp add: ucopy_def)
qed

text \<open>An append takes what still fits, and touches only the buffer and the size field.\<close>

lemma lib_append_takes:
  fixes u :: "'a::len word User"
  assumes b: "byte_sized TYPE('a)" and ready: "stream_ready fp fs p cap u" and ne: "fp \<noteq> fs"
    and bs: "uread (unat len) buf (umem u) = Some bs" and out: "stream_text fs p u = Some out"
  shows "\<exists>r m. lib_append fp fs cap buf len u = Some (r, u\<lparr>umem := m\<rparr>) \<and> unat r = min (unat len) (unat cap - length out) \<and>
    stream_ready fp fs p cap (u\<lparr>umem := m\<rparr>) \<and> stream_text fs p (u\<lparr>umem := m\<rparr>) = Some (take (unat cap) (out @ bs)) \<and>
    (\<forall>x. x \<notin> area p (unat cap) \<union> info_area (duckinfo u) \<longrightarrow> m x = umem u x)"
proof -
  from ready obtain sz where sz: "field fs u = Some sz" "sz \<le> cap" and fp: "field fp u = Some p"
    and dom: "info_area (duckinfo u) \<subseteq> dom (umem u)" "area p (unat cap) \<subseteq> dom (umem u)"
    and apart: "area p (unat cap) \<inter> info_area (duckinfo u) = {}" by (auto simp: stream_ready_def)
  have out': "uread (unat sz) p (umem u) = Some out" using out sz by (simp add: stream_text_def)
  define r where "r = min len (cap - sz)"
  have ur: "unat r = min (unat len) (unat cap - unat sz)" using sz(2) by (simp add: r_def min_def word_le_nat_alt unat_sub)
  have le: "unat sz + unat r \<le> unat cap" using sz(2) ur by (simp add: word_le_nat_alt)
  from copy_into_buffer[OF le dom(2) bs _ out'] ur obtain m where
    m: "ucopy (p + sz) buf (unat r) (umem u) = Some m" "dom m = dom (umem u)"
       "uread (unat sz + unat r) p m = Some (out @ take (unat r) bs)" "\<And>x. x \<notin> area p (unat cap) \<Longrightarrow> m x = umem u x"
    by auto
  let ?v = "u\<lparr>umem := m\<rparr>"
  have kept: "(field f ?v :: 'a word option) = field f u" for f
    using field_in_info[OF b, of "duckinfo u" f] apart m(4) by (intro field_frame) auto
  obtain m' where m': "set_field fs (sz + r) ?v = Some (?v\<lparr>umem := m'\<rparr>)" "dom m' = dom m"
      "field fs (?v\<lparr>umem := m'\<rparr>) = Some (sz + r)" "\<And>x. x \<notin> field_area (duckinfo u) fs \<Longrightarrow> m' x = m x"
    using set_field_facts[OF b, of ?v fs "sz + r"] dom m(2) by auto
  have usr: "unat (sz + r) = unat sz + unat r"
    using le_less_trans[OF le unsigned_less] by (rule unat_add_fits)
  have fp': "field fp (?v\<lparr>umem := m'\<rparr>) = Some p"
    using field_frame[of ?v fp "?v\<lparr>umem := m'\<rparr>"] fields_disjoint[OF b ne, of "duckinfo u"] m'(4) kept fp by fastforce
  have "uread (unat (sz + r)) p m' = Some (out @ take (unat r) bs)"
  proof -
    have "m' x = m x" if "x \<in> area p (unat (sz + r))" for x
      using that area_mono[OF le, of p] usr apart field_in_info[OF b, of "duckinfo u" fs] by (intro m'(4)) auto
    then show ?thesis using m(3) usr uread_cong[of p _ m' m] by simp
  qed
  moreover have "out @ take (unat r) bs = take (unat cap) (out @ bs)"
    using uread_length[OF out'] uread_length[OF bs] ur sz(2) by (simp add: word_le_nat_alt min_def)
  ultimately have tx: "stream_text fs p (u\<lparr>umem := m'\<rparr>) = Some (take (unat cap) (out @ bs))"
    using m'(3) by (simp add: stream_text_def)
  have "stream_ready fp fs p cap (u\<lparr>umem := m'\<rparr>)"
    using fp' m'(2,3) m(2) dom apart usr le by (auto simp: stream_ready_def word_le_nat_alt)
  moreover have "lib_append fp fs cap buf len u = Some (r, u\<lparr>umem := m'\<rparr>)"
    using sz fp m(1) m'(1) kept by (simp add: lib_append_def r_def[symmetric])
  moreover have "m' x = umem u x" if "x \<notin> area p (unat cap) \<union> info_area (duckinfo u)" for x
    using that m(4)[of x] m'(4)[of x] field_in_info[OF b, of "duckinfo u" fs] by auto
  ultimately show ?thesis using ur tx uread_length[OF out'] by (intro exI[of _ r] exI[of _ m']) simp
qed

text \<open>What a client of an output stream relies on: a call appends the data of its request, cut at the capacity, and
  does not change the data of any sound request.\<close>

locale output_stream =
  fixes put :: "'c \<Rightarrow> 's \<Rightarrow> 's option" and sent :: "'c \<Rightarrow> 's \<Rightarrow> bytes option" and contents :: "'s \<Rightarrow> bytes option"
    and capacity :: nat and ready :: "'s \<Rightarrow> bool" and sound :: "'c \<Rightarrow> bool"
  assumes put_takes: "\<lbrakk>ready s; sound c; sent c s = Some bs; contents s = Some out\<rbrakk> \<Longrightarrow>
      \<exists>s'. put c s = Some s' \<and> ready s' \<and> contents s' = Some (take capacity (out @ bs)) \<and>
        (\<forall>d. sound d \<longrightarrow> sent d s' = sent d s)"
    and contents_fit: "\<lbrakk>ready s; contents s = Some out\<rbrakk> \<Longrightarrow> length out \<le> capacity"
begin

lemma puts_take:
  assumes "ready s" "contents s = Some out" "list_all2 (\<lambda>c bs. sound c \<and> sent c s = Some bs) cs bss"
  shows "\<exists>s'. for_opt put cs s = Some s' \<and> contents s' = Some (take capacity (out @ concat bss))"
  using assms
proof (induction cs arbitrary: s out bss)
  case Nil
  then show ?case using contents_fit by auto
next
  case (Cons c cs)
  then obtain bs bss' where b: "bss = bs # bss'" "sound c" "sent c s = Some bs" "list_all2 (\<lambda>c bs. sound c \<and> sent c s = Some bs) cs bss'"
    by (auto simp: list_all2_Cons1)
  from put_takes[OF Cons.prems(1) b(2,3) Cons.prems(2)] obtain s' where s': "put c s = Some s'" "ready s'"
    "contents s' = Some (take capacity (out @ bs))" "\<And>d. sound d \<Longrightarrow> sent d s' = sent d s" by blast
  have "list_all2 (\<lambda>c bs. sound c \<and> sent c s' = Some bs) cs bss'"
    using b(4) s'(4) by (auto elim!: list.rel_mono_strong)
  from Cons.IH[OF s'(2,3) this] s'(1) show ?case
    by (auto simp: b(1) min_def)
qed

end

text \<open>The two output streams of a program.\<close>

datatype Std = Out | Err

primrec std_fd :: "Std \<Rightarrow> 'b::len word" where "std_fd Out = 1" | "std_fd Err = 2"
primrec std_ptr :: "Std \<Rightarrow> Field" where "std_ptr Out = F_stdout_ptr" | "std_ptr Err = F_stderr_ptr"
primrec std_limit :: "Std \<Rightarrow> Field" where "std_limit Out = F_stdout_limit" | "std_limit Err = F_stderr_limit"
primrec std_size :: "Std \<Rightarrow> Field" where "std_size Out = F_stdout_size" | "std_size Err = F_stderr_size"

primrec std_cap :: "Std \<Rightarrow> 'w User \<Rightarrow> 'w" where
  "std_cap Out u = stdout_max_size u" | "std_cap Err u = stderr_max_size u"

definition user_ready :: "Std \<Rightarrow> 'a word \<Rightarrow> 'a word \<Rightarrow> 'a word \<Rightarrow> 'a::len word User \<Rightarrow> bool" where
  "user_ready d info p cap u \<longleftrightarrow> inited u \<and> duckinfo u = info \<and> std_cap d u = cap \<and> stream_ready (std_ptr d) (std_size d) p cap u"

definition apart_from :: "'a word \<Rightarrow> 'a word \<Rightarrow> 'a word \<Rightarrow> 'a::len word \<times> 'a word \<Rightarrow> bool" where
  "apart_from info p cap c \<longleftrightarrow> area (fst c) (unat (snd c)) \<inter> (area p (unat cap) \<union> info_area info) = {}"

definition sent_by :: "'a::len word \<times> 'a word \<Rightarrow> 'a word User \<Rightarrow> bytes option" where
  "sent_by c u = uread (unat (snd c)) (fst c) (umem u)"

text \<open>A write as the program asks for it, by its descriptor, buffer and length.\<close>

definition write_call64 :: "(u64 \<Rightarrow> u64) \<Rightarrow> u64 \<Rightarrow> u64 \<Rightarrow> Std \<Rightarrow> u64 \<times> u64 \<Rightarrow> User64 \<Rightarrow> User64 option" where
  "write_call64 aux e now d c u = map_option snd (duck64_syscall_handler aux e now (std_fd d) (fst c) (snd c) 1 u)"

definition write_call32 :: "(u32 \<Rightarrow> u32) \<Rightarrow> u32 \<Rightarrow> u64 \<Rightarrow> Std \<Rightarrow> u32 \<times> u32 \<Rightarrow> User32 \<Rightarrow> User32 option" where
  "write_call32 aux e now d c u = map_option snd (duck32_syscall_handler aux e now (std_fd d) (fst c) (snd c) 4 u)"

lemma std_ptr_size: "std_ptr d \<noteq> std_size d"
  by (cases d) simp_all

lemma write_call64_append:
  assumes "inited u"
  shows "write_call64 aux e now d c u = map_option snd (lib_append (std_ptr d) (std_size d) (std_cap d u) (fst c) (snd c) u)"
  using assms by (cases d; cases "lib_append (std_ptr d) (std_size d) (std_cap d u) (fst c) (snd c) u")
    (auto simp: write_call64_def duck64_syscall_handler_def dispatch64_def duck_write64_def returning_def)

lemma write_call32_append:
  assumes "inited u"
  shows "write_call32 aux e now d c u = map_option snd (lib_append (std_ptr d) (std_size d) (std_cap d u) (fst c) (snd c) u)"
  using assms by (cases d; cases "lib_append (std_ptr d) (std_size d) (std_cap d u) (fst c) (snd c) u")
    (auto simp: write_call32_def duck32_syscall_handler_def dispatch32_def duck_write32_def returning_def)

lemma std_cap_umem [simp]: "std_cap d (u\<lparr>umem := m\<rparr>) = std_cap d u"
  by (cases d) simp_all

lemma call_takes:
  fixes u :: "'a::len word User"
  assumes b: "byte_sized TYPE('a)" and call: "inited u \<Longrightarrow>
      put c u = map_option snd (lib_append (std_ptr d) (std_size d) (std_cap d u) (fst c) (snd c) u)"
    and ready: "user_ready d info p cap u" and bs: "sent_by c u = Some bs" and out: "stream_text (std_size d) p u = Some out"
  shows "\<exists>u'. put c u = Some u' \<and> user_ready d info p cap u' \<and> stream_text (std_size d) p u' = Some (take (unat cap) (out @ bs)) \<and>
    (\<forall>e. apart_from info p cap e \<longrightarrow> sent_by e u' = sent_by e u)"
proof -
  have r: "inited u" "duckinfo u = info" "std_cap d u = cap" "stream_ready (std_ptr d) (std_size d) p cap u"
    using ready by (simp_all add: user_ready_def)
  from lib_append_takes[OF b r(4) std_ptr_size bs[unfolded sent_by_def] out] obtain n m where
    a: "lib_append (std_ptr d) (std_size d) cap (fst c) (snd c) u = Some (n, u\<lparr>umem := m\<rparr>)"
      "stream_ready (std_ptr d) (std_size d) p cap (u\<lparr>umem := m\<rparr>)"
      "stream_text (std_size d) p (u\<lparr>umem := m\<rparr>) = Some (take (unat cap) (out @ bs))"
      "\<And>x. x \<notin> area p (unat cap) \<union> info_area info \<Longrightarrow> m x = umem u x" using r(2) by blast
  have "sent_by e (u\<lparr>umem := m\<rparr>) = sent_by e u" if "apart_from info p cap e" for e
    unfolding sent_by_def using that a(4) by (intro uread_cong) (auto simp: apart_from_def)
  with a r show ?thesis by (intro exI[of _ "u\<lparr>umem := m\<rparr>"]) (simp add: call user_ready_def)
qed

lemma text_fits: "user_ready d info p cap u \<Longrightarrow> stream_text (std_size d) p u = Some out \<Longrightarrow> length out \<le> unat cap"
  using uread_length[of _ p "umem u" out] by (auto simp: user_ready_def stream_ready_def stream_text_def word_le_nat_alt)

interpretation calls64: output_stream "write_call64 aux e now d" sent_by "stream_text (std_size d) p" "unat cap"
  "user_ready d info p cap" "apart_from info p cap"
  by unfold_locales (use call_takes[OF byte_sized_64, where put = "write_call64 aux e now d"] write_call64_append in blast, rule text_fits)

interpretation calls32: output_stream "write_call32 aux e now d" sent_by "stream_text (std_size d) p" "unat cap"
  "user_ready d info p cap" "apart_from info p cap"
  by unfold_locales (use call_takes[OF byte_sized_32, where put = "write_call32 aux e now d"] write_call32_append in blast, rule text_fits)

section \<open>From the start of a program\<close>

text \<open>What the kernel leaves behind for the program: the structure with the pointer and the limit of a stream, and its buffer.\<close>

definition stream_given :: "Std \<Rightarrow> 'a word \<Rightarrow> 'a word \<Rightarrow> 'a word \<Rightarrow> 'a::len mem \<Rightarrow> bool" where
  "stream_given d info p cap m \<longleftrightarrow> uget (field_addr info (std_ptr d)) m = Some p \<and> uget (field_addr info (std_limit d)) m = Some cap \<and>
     info_area info \<subseteq> dom m \<and> area p (unat cap) \<subseteq> dom m \<and> area p (unat cap) \<inter> info_area info = {}"

lemma uget_field_frame:
  fixes info :: "'a::len word"
  assumes "byte_sized TYPE('a)" "f \<noteq> g" "\<And>x. x \<notin> field_area info g \<Longrightarrow> m' x = m x"
  shows "(uget (field_addr info f) m' :: 'a word option) = uget (field_addr info f) m"
  using fields_disjoint[OF assms(1,2), of info] assms(3) by (intro uget_cong) (auto simp: field_area_def)

lemma uget_field_defined:
  fixes info :: "'a::len word"
  assumes "byte_sized TYPE('a)" "info_area info \<subseteq> dom m"
  shows "\<exists>v :: 'a word. uget (field_addr info f) m = Some v"
  using uread_defined[of "field_addr info f" "LENGTH('a) div 8" m] field_in_info[OF assms(1), of info f] assms(2)
  by (auto simp: uget_def field_area_def)

lemma uget_tsc_defined:
  fixes info :: "'a::len word"
  assumes "info_area info \<subseteq> dom m"
  shows "\<exists>v :: u64. uget (field_addr info F_tsc_frequency) m = Some v"
proof -
  have "area (field_addr info F_tsc_frequency) 8 \<subseteq> info_area info"
    by (simp add: info_area_def field_addr_def area_add)
  then show ?thesis using uread_defined[of "field_addr info F_tsc_frequency" 8 m] assms by (auto simp: uget_def)
qed

text \<open>The two size fields become zero, and everything else stays.\<close>

lemma zero_sizes:
  fixes info :: "'a::len word"
  assumes b: "byte_sized TYPE('a)" and dom: "info_area info \<subseteq> dom m"
  shows "\<exists>m1 m2. uput (0 :: 'a word) (field_addr info F_stdout_size) m = Some m1 \<and>
    uput (0 :: 'a word) (field_addr info F_stderr_size) m1 = Some m2 \<and> dom m1 = dom m \<and> dom m2 = dom m \<and>
    (\<forall>d. uget (field_addr info (std_size d)) m2 = Some (0 :: 'a word)) \<and>
    (\<forall>f. f \<noteq> F_stdout_size \<longrightarrow> (uget (field_addr info f) m1 :: 'a word option) = uget (field_addr info f) m) \<and>
    (\<forall>d. (uget (field_addr info (std_ptr d)) m2 :: 'a word option) = uget (field_addr info (std_ptr d)) m) \<and>
    (\<forall>x. x \<notin> info_area info \<longrightarrow> m2 x = m x)"
proof -
  note sub = field_in_info[OF b, of info]
  from uput_field[OF b dom] obtain m1 where m1: "uput (0 :: 'a word) (field_addr info F_stdout_size) m = Some m1" "dom m1 = dom m"
    "uget (field_addr info F_stdout_size) m1 = Some (0 :: 'a word)" "\<And>x. x \<notin> field_area info F_stdout_size \<Longrightarrow> m1 x = m x"
    by blast
  from uput_field[OF b, of info m1 0 F_stderr_size] dom m1(2) obtain m2 where m2: "uput (0 :: 'a word) (field_addr info F_stderr_size) m1 = Some m2" "dom m2 = dom m1"
    "uget (field_addr info F_stderr_size) m2 = Some (0 :: 'a word)" "\<And>x. x \<notin> field_area info F_stderr_size \<Longrightarrow> m2 x = m1 x"
    by auto
  have f1: "(uget (field_addr info f) m1 :: 'a word option) = uget (field_addr info f) m" if "f \<noteq> F_stdout_size" for f
    using that m1(4) by (rule uget_field_frame[OF b])
  have f2: "(uget (field_addr info f) m2 :: 'a word option) = uget (field_addr info f) m1" if "f \<noteq> F_stderr_size" for f
    using that m2(4) by (rule uget_field_frame[OF b])
  have "uget (field_addr info (std_size d)) m2 = Some (0 :: 'a word)" for d
    using m1(3) m2(3) f2[of F_stdout_size] by (cases d) simp_all
  moreover have "(uget (field_addr info (std_ptr d)) m2 :: 'a word option) = uget (field_addr info (std_ptr d)) m" for d
    using f1[of "std_ptr d"] f2[of "std_ptr d"] by (cases d) simp_all
  moreover have "m2 x = m x" if "x \<notin> info_area info" for x
    using subsetD[OF sub] that m1(4) m2(4) by metis
  ultimately show ?thesis using m1(1,2) m2(1,2) f1 by (intro exI[of _ m1] exI[of _ m2]) auto
qed

lemma lib_init_ready:
  fixes u :: "'a::len word User"
  assumes b: "byte_sized TYPE('a)" and g: "stream_given d (aux (ucast AT_DUCK)) p cap (umem u)" and pg: "aux (ucast AT_PAGESZ) \<noteq> 0"
  shows "\<exists>u'. lib_init aux e u = Some u' \<and> user_ready d (aux (ucast AT_DUCK)) p cap u' \<and> stream_text (std_size d) p u' = Some [] \<and>
    (\<forall>x. x \<notin> info_area (aux (ucast AT_DUCK)) \<longrightarrow> umem u' x = umem u x)"
proof -
  let ?i = "aux (ucast AT_DUCK)"
  have dom: "info_area ?i \<subseteq> dom (umem u)" using g by (simp add: stream_given_def)
  from zero_sizes[OF b dom] obtain m1 m2 where
    w: "uput (0 :: 'a word) (field_addr ?i F_stdout_size) (umem u) = Some m1" "uput (0 :: 'a word) (field_addr ?i F_stderr_size) m1 = Some m2"
    and d: "dom m1 = dom (umem u)" "dom m2 = dom (umem u)"
    and z: "\<And>d. uget (field_addr ?i (std_size d)) m2 = Some (0 :: 'a word)"
    and k: "\<And>f. f \<noteq> F_stdout_size \<Longrightarrow> (uget (field_addr ?i f) m1 :: 'a word option) = uget (field_addr ?i f) (umem u)"
      "\<And>d. (uget (field_addr ?i (std_ptr d)) m2 :: 'a word option) = uget (field_addr ?i (std_ptr d)) (umem u)"
    and fr: "\<And>x. x \<notin> info_area ?i \<Longrightarrow> m2 x = umem u x" by blast
  obtain l1 l2 :: "'a word" where l: "uget (field_addr ?i F_stdout_limit) (umem u) = Some l1" "uget (field_addr ?i F_stderr_limit) (umem u) = Some l2"
    using uget_field_defined[OF b dom] by blast
  obtain t where t: "uget (field_addr ?i F_tsc_frequency) m2 = Some (t :: u64)" using uget_tsc_defined[of ?i m2] dom d by auto
  define u' where "u' = u\<lparr>inited := True, duckinfo := ?i, stdin_curr_pos := 0, stdout_max_size := l1, stderr_max_size := l2, umem := m2,
    heap_brk := (e + aux (ucast AT_PAGESZ) - 1) div aux (ucast AT_PAGESZ) * aux (ucast AT_PAGESZ), tsc_frequency := t\<rparr>"
  have "lib_init aux e u = Some u'"
    using w l t k(1)[of F_stderr_limit] pg by (simp add: lib_init_def field_def set_field_def c_div_def u'_def Let_def)
  moreover have "std_cap d u' = cap" using g l by (cases d) (simp_all add: stream_given_def u'_def)
  ultimately show ?thesis
    using g z[of d] k(2)[of d] d fr
    by (intro exI[of _ u']) (auto simp: user_ready_def stream_ready_def stream_given_def stream_text_def field_def u'_def)
qed

text \<open>The first call initialises; a write does not notice.\<close>

lemma first_call64:
  assumes "\<not> inited u" "init64 aux e u = Some u'"
  shows "write_call64 aux e now d c u = write_call64 aux e now d c u'"
proof -
  have "inited u'" using assms(2) by (auto simp: init64_def lib_init_def set_field_def Let_def split: bind_splits)
  then show ?thesis using assms by (simp add: write_call64_def duck64_syscall_handler_def)
qed

lemma sent_by_kept:
  assumes "list_all2 (\<lambda>c bs. apart_from info p cap c \<and> sent_by c u = Some bs) cs bss"
    and "\<And>x. x \<notin> info_area info \<Longrightarrow> umem u' x = umem u x"
  shows "list_all2 (\<lambda>c bs. apart_from info p cap c \<and> sent_by c u' = Some bs) cs bss"
proof -
  have "sent_by c u' = sent_by c u" if "apart_from info p cap c" for c
    unfolding sent_by_def using that assms(2) by (intro uread_cong) (auto simp: apart_from_def)
  then show ?thesis using assms(1) by (auto elim!: list.rel_mono_strong)
qed

text \<open>C39: The output of a 64-bit program is what it wrote, cut at the limit. Started with a judge's structure and an output
  buffer apart from each other, a program that makes any sequence of write system calls on one of its two output descriptors,
  from buffers apart from both, never faults in them, and afterwards the stream's
  buffer, as long as the size field of the structure says, holds the written data one after the other up to the limit.\<close>

theorem program_output:
  assumes "\<not> inited u" "stream_given d (aux (ucast AT_DUCK)) p cap (umem u)" "aux (ucast AT_PAGESZ) \<noteq> 0" "cs \<noteq> []"
    and "list_all2 (\<lambda>c bs. apart_from (aux (ucast AT_DUCK)) p cap c \<and> sent_by c u = Some bs) cs bss"
  shows "\<exists>u'. for_opt (write_call64 aux e now d) cs u = Some u' \<and> stream_text (std_size d) p u' = Some (take (unat cap) (concat bss))"
proof -
  from lib_init_ready[OF byte_sized_64 assms(2,3), of e] obtain u1 where u1: "init64 aux e u = Some u1"
    "user_ready d (aux (ucast AT_DUCK)) p cap u1" "stream_text (std_size d) p u1 = Some []"
    "\<And>x. x \<notin> info_area (aux (ucast AT_DUCK)) \<Longrightarrow> umem u1 x = umem u x" by (auto simp: init64_def)
  have "for_opt (write_call64 aux e now d) cs u = for_opt (write_call64 aux e now d) cs u1"
    using assms(4) first_call64[OF assms(1) u1(1)] by (cases cs) simp_all
  with calls64.puts_take[OF u1(2,3) sent_by_kept[OF assms(5) u1(4)]] show ?thesis by simp
qed

definition demo_memory :: "64 mem" where
  "demo_memory x = Some (if x = 0x1019 then 0x20 else if x = 0x1020 then 4 else if x \<ge> 0x3000 then 97 + ucast (x - 0x3000) else 0)"

definition demo_user :: User64 where
  "demo_user = \<lparr>inited = False, duckinfo = 0, stdout_max_size = 0, stderr_max_size = 0, stdin_curr_pos = 0, tsc_frequency = 0,
     heap_brk = 0, mmap_p = 0, fsbase = 0, umem = demo_memory, stats = (\<lambda>_. None)\<rparr>"

lemma uread_numeral:
  "uread (numeral k) a m = do { b \<leftarrow> m a; bs \<leftarrow> uread (pred_numeral k) (a + 1) m; Some (b # bs) }"
  by (simp add: numeral_eq_Suc)

lemma area_bounds:
  fixes a :: "'a::len word"
  assumes "x \<in> area a n" "unat a + n \<le> 2 ^ LENGTH('a)"
  shows "unat a \<le> unat x \<and> unat x < unat a + n"
proof -
  from assms obtain i where i: "i < n" "x = a + of_nat i" by (auto simp: area_def)
  then have "unat x = unat a + i" using assms(2) by (simp add: unat_of_nat_lt unat_add_fits)
  with i(1) show ?thesis by simp
qed

lemma area_apart:
  fixes a b :: "'a::len word"
  assumes "unat a + n \<le> unat b" "unat b + k \<le> 2 ^ LENGTH('a)"
  shows "area a n \<inter> area b k = {}" "area b k \<inter> area a n = {}"
proof -
  have "unat b < 2 ^ LENGTH('a)" by (rule unsigned_less)
  then have "x \<notin> area b k" if "x \<in> area a n" for x
    using area_bounds[OF that] area_bounds[of x b k] assms by fastforce
  then show "area a n \<inter> area b k = {}" "area b k \<inter> area a n = {}" by blast+
qed

lemma demo_given:
  "stream_given Out 0x1000 0x2000 4 (umem demo_user)"
  "list_all2 (\<lambda>c bs. apart_from 0x1000 0x2000 4 c \<and> sent_by c demo_user = Some bs) [(0x3000, 3), (0x3001, 2)] [[97, 98, 99], [98, 99]]"
proof -
  have "dom demo_memory = UNIV" by (auto simp: demo_memory_def dom_def)
  then show "stream_given Out 0x1000 0x2000 4 (umem demo_user)"
    using area_apart(2)[of "0x1000 :: u64" 112 "0x2000" 4]
    by (simp add: stream_given_def info_area_def uget_def demo_user_def demo_memory_def field_addr_def uread_numeral)
  have "apart_from (0x1000 :: u64) 0x2000 4 (a, n)" if "unat a + unat n \<le> 2 ^ 64" "0x2004 \<le> unat a" for a n
    using area_apart(2)[of "0x1000 :: u64" 112 a "unat n"] area_apart(2)[of "0x2000 :: u64" 4 a "unat n"] that
    by (simp add: apart_from_def info_area_def Int_Un_distrib)
  from this[of "0x3000" 3] this[of "0x3001" 2]
  show "list_all2 (\<lambda>c bs. apart_from 0x1000 0x2000 4 c \<and> sent_by c demo_user = Some bs) [(0x3000, 3), (0x3001, 2)] [[97, 98, 99], [98, 99]]"
    by (simp add: sent_by_def demo_user_def demo_memory_def uread_numeral)
qed

theorem program_output_witness:
  "\<exists>u'. for_opt (write_call64 (\<lambda>x. if x = 6 then 4096 else 0x1000) 0x5000 7 Out) [(0x3000, 3), (0x3001, 2)] demo_user = Some u' \<and>
    stream_text F_stdout_size 0x2000 u' = Some [97, 98, 99, 98]"
  using program_output[of demo_user Out "\<lambda>x. if x = 6 then 4096 else 0x1000" "0x2000" 4 "[(0x3000, 3), (0x3001, 2)]" "[[97, 98, 99], [98, 99]]" "0x5000" 7]
    demo_given
  by (simp add: demo_user_def AT_DUCK_def AT_PAGESZ_def)

section \<open>Input, heap and clock\<close>

lemma uread_slice:
  assumes "uread n a m = Some bs" "i + k \<le> n"
  shows "uread k (a + of_nat i) m = Some (take k (drop i bs))"
proof -
  note p = uread_prefix[OF assms]
  from p obtain x y where xy: "uread i a m = Some x" "uread k (a + of_nat i) m = Some y" "take (i + k) bs = x @ y"
    by (auto simp: uread_add split: bind_splits)
  have "y = drop i (take (i + k) bs)" using xy(3) uread_length[OF xy(1)] by simp
  with xy(2) show ?thesis by (simp add: drop_take)
qed

text \<open>A read delivers the next part of the input and moves past it.\<close>

lemma lib_read_takes:
  fixes u :: "'a::len word User"
  assumes f: "field F_stdin_size u = Some sz" "field F_stdin_ptr u = Some p" "stdin_curr_pos u \<le> sz"
    and inp: "uread (unat sz) p (umem u) = Some inp" and dom: "area buf (unat len) \<subseteq> dom (umem u)"
  shows "\<exists>n m. lib_read 0 buf len u = Some (n, u\<lparr>umem := m, stdin_curr_pos := stdin_curr_pos u + n\<rparr>) \<and>
    unat n = min (unat len) (unat sz - unat (stdin_curr_pos u)) \<and>
    uread (unat n) buf m = Some (take (unat len) (drop (unat (stdin_curr_pos u)) inp)) \<and>
    stdin_curr_pos u + n \<le> sz \<and> (\<forall>x. x \<notin> area buf (unat len) \<longrightarrow> m x = umem u x)"
proof -
  define pos where "pos = stdin_curr_pos u"
  define n where "n = min len (sz - pos)"
  have un: "unat n = min (unat len) (unat sz - unat pos)" using f(3) by (simp add: n_def pos_def min_def word_le_nat_alt unat_sub)
  have le: "unat pos + unat n \<le> unat sz" using f(3) un by (simp add: pos_def word_le_nat_alt)
  have rd: "uread (unat n) (p + pos) (umem u) = Some (take (unat n) (drop (unat pos) inp))"
    using uread_slice[OF inp le] by simp
  note len = uread_length[OF rd]
  have sub: "area buf (unat n) \<subseteq> area buf (unat len)" using un by (intro area_mono) simp
  then obtain m where m: "uwrite (take (unat n) (drop (unat pos) inp)) buf (umem u) = Some m"
    using uwrite_defined[of buf "take (unat n) (drop (unat pos) inp)" "umem u"] dom len by auto
  have "take (unat n) (drop (unat pos) inp) = take (unat len) (drop (unat pos) inp)"
    using un uread_length[OF inp] by (simp add: min_def)
  moreover have "uread (unat n) buf m = Some (take (unat n) (drop (unat pos) inp))"
    using uwrite_uread[OF m, unfolded len] less_imp_le[OF unsigned_less[of n]] by blast
  moreover have "unat (pos + n) = unat pos + unat n"
    using le_less_trans[OF le unsigned_less] by (rule unat_add_fits)
  moreover have "m x = umem u x" if "x \<notin> area buf (unat len)" for x
    using that sub uwrite_frame[OF m, unfolded len, of x] by blast
  moreover have "lib_read 0 buf len u = Some (n, u\<lparr>umem := m, stdin_curr_pos := pos + n\<rparr>)"
    using f m rd by (simp add: lib_read_def ucopy_def n_def pos_def Let_def)
  ultimately show ?thesis using un le
    by (intro exI[of _ n] exI[of _ m]) (simp add: pos_def word_le_nat_alt)
qed

lemma lib_brk_grows:
  "lib_brk a u = (r, u') \<Longrightarrow> r = heap_brk u' \<and> heap_brk u \<le> r \<and> a \<le> r"
  for a :: "'a::len word"
  by (auto simp: lib_brk_def Let_def split: if_splits)

text \<open>The clock's value is normalised when the counter's frequency is below 18.4 GHz, where the product still fits.\<close>

lemma lib_clock_normal:
  assumes "tsc_frequency u \<noteq> 0" "unat (tsc_frequency u) * 1000000000 \<le> 2 ^ 64"
  shows "unat (t mod tsc_frequency u * 1000000000 div tsc_frequency u) < 1000000000"
proof -
  let ?f = "unat (tsc_frequency u)"
  have f: "0 < ?f" using assms(1) by (simp add: unat_gt_0)
  have r: "unat t mod ?f < ?f" using f by simp
  then have "unat t mod ?f * 1000000000 < ?f * 1000000000" by simp
  then have "unat (t mod tsc_frequency u * 1000000000) = unat t mod ?f * 1000000000"
    using assms(2) unat_mult_fits[of "t mod tsc_frequency u" 1000000000] by (simp add: unat_mod)
  then show ?thesis using r f by (simp add: unat_div less_mult_imp_div_less)
qed

lemma calls32_output:
  "\<lbrakk>user_ready d info p cap u; stream_text (std_size d) p u = Some out;
    list_all2 (\<lambda>c bs. apart_from info p cap c \<and> sent_by c u = Some bs) cs bss\<rbrakk> \<Longrightarrow>
   \<exists>u'. for_opt (write_call32 aux e now d) cs u = Some u' \<and> stream_text (std_size d) p u' = Some (take (unat cap) (out @ concat bss))"
  by (rule calls32.puts_take)

end
