(* ===== verification/C_Scan.thy ===== *)
theory C_Scan
  imports Duck_Prelude
begin

text \<open>
  The part of the C library that scans and prints text: \<open>sscanf\<close> with the directives that occur in \<open>kern/duck_server.cpp\<close> and
  \<open>lib/network_driver.cpp\<close>, and the integer conversions of \<open>sprintf\<close>. What is printed is scanned back.
\<close>

section \<open>Scanning\<close>

datatype Fmt = Lit u8 | Space | LU | HHX | Str

datatype Val = Num u64 | Txt bytes

text \<open>The directives of a format string. The decimal conversions differ only in the width at which the caller stores the value.\<close>

fun fmt :: "string \<Rightarrow> Fmt list" where
  "fmt [] = []"
| "fmt (c # cs) =
     (if c = CHR ''%'' \<and> take 2 cs = ''lu'' then LU # fmt (drop 2 cs)
      else if c = CHR ''%'' \<and> take 3 cs = ''hhu'' then LU # fmt (drop 3 cs)
      else if c = CHR ''%'' \<and> take 1 cs = ''d'' then LU # fmt (drop 1 cs)
      else if c = CHR ''%'' \<and> take 3 cs = ''hhx'' then HHX # fmt (drop 3 cs)
      else if c = CHR ''%'' \<and> take 1 cs = ''s'' then Str # fmt (drop 1 cs)
      else if c = CHR '' '' then Space # fmt cs
      else Lit (of_char c) # fmt cs)"

definition is_space :: "u8 \<Rightarrow> bool" where
  "is_space c \<longleftrightarrow> c = 32 \<or> (9 \<le> c \<and> c \<le> 13)"

definition is_digit :: "u8 \<Rightarrow> bool" where
  "is_digit c \<longleftrightarrow> 48 \<le> c \<and> c \<le> 57"

definition scan_sign :: "bytes \<Rightarrow> bool \<times> bytes" where
  "scan_sign s = (case s of [] \<Rightarrow> (False, []) | c # r \<Rightarrow> if c = 45 then (True, r) else if c = 43 then (False, r) else (False, s))"

definition strtoul_value :: "bool \<Rightarrow> bytes \<Rightarrow> u64" where
  "strtoul_value neg ds = (let n = dec_value (map (\<lambda>c. unat c - 48) ds) in
     if n \<ge> 2 ^ 64 then - 1 else if neg then - of_nat n else of_nat n)"

definition hex_digit :: "u8 \<Rightarrow> nat option" where
  "hex_digit c =
     (if is_digit c then Some (unat c - 48)
      else if 97 \<le> c \<and> c \<le> 102 then Some (unat c - 87)
      else if 65 \<le> c \<and> c \<le> 70 then Some (unat c - 55)
      else None)"

text \<open>A hexadecimal number may have a prefix.\<close>

definition skip_0x :: "bytes \<Rightarrow> bytes" where
  "skip_0x s = (case s of a # b # c # r \<Rightarrow> if a = 48 \<and> (b = 120 \<or> b = 88) \<and> hex_digit c \<noteq> None then c # r else s | _ \<Rightarrow> s)"

definition hex_value :: "bool \<Rightarrow> bytes \<Rightarrow> u64" where
  "hex_value neg ds = (let n = foldl (\<lambda>a c. 16 * a + the (hex_digit c)) 0 ds in
     if n \<ge> 2 ^ 64 then - 1 else if neg then - of_nat n else of_nat n)"

text \<open>The assigned values; \<open>sscanf\<close> returns their number.\<close>

primrec sscanf :: "Fmt list \<Rightarrow> bytes \<Rightarrow> Val list" where
  "sscanf [] s = []"
| "sscanf (d # ds) s = (case d of
     Space \<Rightarrow> sscanf ds (dropWhile is_space s)
   | Lit c \<Rightarrow> (case s of [] \<Rightarrow> [] | x # r \<Rightarrow> if x = c then sscanf ds r else [])
   | LU \<Rightarrow> (case scan_sign (dropWhile is_space s) of (neg, s) \<Rightarrow>
       let n = takeWhile is_digit s in
       if n = [] then [] else Num (strtoul_value neg n) # sscanf ds (drop (length n) s))
   | HHX \<Rightarrow> (case scan_sign (dropWhile is_space s) of (neg, s) \<Rightarrow>
       let s = skip_0x s; n = takeWhile (\<lambda>c. hex_digit c \<noteq> None) s in
       if n = [] then [] else Num (hex_value neg n) # sscanf ds (drop (length n) s))
   | Str \<Rightarrow> (let s = dropWhile is_space s; w = takeWhile (\<lambda>c. \<not> is_space c) s in
       if w = [] then [] else Txt w # sscanf ds (drop (length w) s)))"

text \<open>The text of a buffer of the request ends at its first zero; the server puts one behind the last byte.\<close>

definition c_str :: "bytes \<Rightarrow> bytes" where
  "c_str content = takeWhile (\<lambda>c. c \<noteq> 0) content"

section \<open>Printing\<close>

definition lu :: "'a::len word \<Rightarrow> bytes" where
  "lu w = bytes_of_string (dec_nat (unat w))"

definition d32 :: "u32 \<Rightarrow> bytes" where
  "d32 w = (if sint w < 0 then bytes_of_string (''-'' @ dec_nat (nat (- sint w))) else bytes_of_string (dec_nat (nat (sint w))))"

fun hex_nat :: "nat \<Rightarrow> string" where
  "hex_nat n = (let d = n mod 16; c = char_of (if d < 10 then 48 + d else 87 + d) in
     if n < 16 then [c] else hex_nat (n div 16) @ [c])"

declare hex_nat.simps [simp del]

definition hex02 :: "u32 \<Rightarrow> bytes" where
  "hex02 w = (let s = hex_nat (unat w) in bytes_of_string (replicate (2 - length s) (CHR ''0'') @ s))"

definition lit :: "string \<Rightarrow> bytes" where
  "lit s = bytes_of_string s"

definition nl :: bytes where "nl = [10]"
definition blank :: bytes where "blank = [32]"

section \<open>What is printed is scanned back\<close>

lemma digit_byte: "d < 10 \<Longrightarrow> is_digit (of_char (char_of (48 + d :: nat)))" "d < 10 \<Longrightarrow> unat (of_char (char_of (48 + d :: nat)) :: u8) = 48 + d"
proof -
  assume "d < 10"
  then have b: "(of_char (char_of (48 + d :: nat)) :: u8) = of_nat (48 + d)"
    by (subst of_nat_of_char[symmetric], subst of_char_of) simp
  show n: "unat (of_char (char_of (48 + d :: nat)) :: u8) = 48 + d"
    unfolding b by (rule unat_of_nat_lt) (use \<open>d < 10\<close> in simp)
  then show "is_digit (of_char (char_of (48 + d :: nat)))" using \<open>d < 10\<close> by (simp add: is_digit_def word_le_nat_alt)
qed

lemma lu_digits: "lu w \<noteq> []" "\<forall>c \<in> set (lu w). is_digit c" "map (\<lambda>c. unat c - 48) (lu w) = dec_digits (unat w)"
proof -
  show "lu w \<noteq> []" by (simp add: lu_def bytes_of_string_def dec_nat_def)
  show "\<forall>c \<in> set (lu w). is_digit c"
    by (auto simp: lu_def bytes_of_string_def dec_nat_def intro!: digit_byte(1) dec_digits_lt_10)
  have "map (\<lambda>c. unat c - 48) (lu w) = map (\<lambda>d. d) (dec_digits (unat w))"
    unfolding lu_def bytes_of_string_def dec_nat_def map_map
    by (rule map_cong) (simp_all add: digit_byte(2)[OF dec_digits_lt_10])
  then show "map (\<lambda>c. unat c - 48) (lu w) = dec_digits (unat w)" by simp
qed

lemma strtoul_lu: "strtoul_value False (lu w) = w" for w :: u64
  using unsigned_less[of w, where 'a = nat] by (simp add: strtoul_value_def lu_digits(3))

lemma digit_not: "is_digit c \<Longrightarrow> \<not> is_space c \<and> c \<noteq> 45 \<and> c \<noteq> 43 \<and> c \<noteq> 0"
  by (auto simp: is_digit_def is_space_def word_le_nat_alt)

lemma digit_word: "is_digit 32 = False" "is_digit 10 = False"
  by (simp_all add: is_digit_def)

declare sscanf.simps(2) [simp del]

lemma sscanf_Space [simp]: "sscanf (Space # ds) s = sscanf ds (dropWhile is_space s)"
  by (simp add: sscanf.simps(2))

lemma sscanf_Lit [simp]: "sscanf (Lit c # ds) s = (case s of [] \<Rightarrow> [] | x # r \<Rightarrow> if x = c then sscanf ds r else [])"
  by (simp add: sscanf.simps(2))

lemma sscanf_Lits: "sscanf (map Lit bs @ ds) (bs @ r) = sscanf ds r"
  by (induction bs) simp_all

text \<open>A printed number, followed by the end or something that is not a digit.\<close>

lemma sscanf_LU:
  fixes w :: u64
  assumes "dropWhile is_space s = lu w @ r" "r = [] \<or> \<not> is_digit (hd r)"
  shows "sscanf (LU # ds) s = Num w # sscanf ds r"
proof -
  obtain c cs where c: "lu w = c # cs" using lu_digits(1) by (cases "lu w") auto
  then have d: "\<not> is_space c" "c \<noteq> 45" "c \<noteq> 43" using lu_digits(2)[of w] digit_not by auto
  have t: "takeWhile is_digit (lu w @ r) = lu w" using lu_digits(2)[of w] assms(2) by (cases r) (simp_all add: takeWhile_tail)
  have "scan_sign (dropWhile is_space s) = (False, lu w @ r)" using d by (simp add: assms(1) c scan_sign_def)
  then show ?thesis by (simp add: sscanf.simps(2) t lu_digits(1) strtoul_lu)
qed

text \<open>Numbers with a blank in front of each.\<close>

definition spaced :: "u64 list \<Rightarrow> bytes" where
  "spaced ws = concat (map (\<lambda>w. 32 # lu w) ws)"

lemma spaced_head: "spaced ws = [] \<or> \<not> is_digit (hd (spaced ws))"
  by (cases ws) (simp_all add: spaced_def digit_word)

lemma dropWhile_lu: "dropWhile is_space (lu w @ r) = lu w @ r"
  using lu_digits[of w] digit_not by (cases "lu w") auto

lemma dropWhile_spaced: "dropWhile is_space (spaced (w # ws)) = lu w @ spaced ws"
  by (simp add: spaced_def is_space_def[of 32] dropWhile_lu)

lemma sscanf_nums:
  "set ds \<subseteq> {Space, LU} \<Longrightarrow> length (filter ((=) LU) ds) = length ws \<Longrightarrow>
   dropWhile is_space s = dropWhile is_space (spaced ws) \<Longrightarrow> sscanf ds s = map Num ws"
proof (induction ds arbitrary: ws s)
  case (Cons d ds)
  show ?case
  proof (cases "d = LU")
    case True
    with Cons.prems obtain w ws' where w: "ws = w # ws'" by (cases ws) auto
    have "sscanf (LU # ds) s = Num w # sscanf ds (spaced ws')"
      using Cons.prems(3) spaced_head by (intro sscanf_LU) (simp_all add: w dropWhile_spaced)
    then show ?thesis using Cons.IH[of ws' "spaced ws'"] Cons.prems(1,2) True w by simp
  next
    case False
    then have "d = Space" using Cons.prems(1) by auto
    then show ?thesis using Cons.IH[of ws "dropWhile is_space s"] Cons.prems by (simp add: dropWhile_idem)
  qed
qed simp

lemma c_str_printed: "0 \<notin> set bs \<Longrightarrow> c_str (bs @ spaced ws) = bs @ spaced ws"
proof -
  assume "0 \<notin> set bs"
  moreover have "0 \<notin> set (lu w)" for w :: u64 using lu_digits(2)[of w] digit_not[of 0] by blast
  then have "0 \<notin> set (spaced ws)" by (simp add: spaced_def)
  ultimately show ?thesis unfolding c_str_def by (subst takeWhile_eq_all_conv) auto
qed

text \<open>A request with a name and numbers is scanned as it was printed.\<close>

lemma sscanf_printed:
  assumes "f = map Lit (lit s) @ ds" "set ds \<subseteq> {Space, LU}" "length (filter ((=) LU) ds) = length ws" "0 \<notin> set (lit s)"
  shows "sscanf f (c_str (lit s @ spaced ws)) = map Num ws"
  unfolding c_str_printed[OF assms(4)] assms(1) sscanf_Lits by (rule sscanf_nums[OF assms(2,3) refl])

end
