(* ===== verification/Duck_Server.thy ===== *)
theory Duck_Server
  imports Kern_Judger Net_Stack C_Scan
begin

text \<open>
  The server of \<open>kern/duck_server.cpp\<close>: the text protocol over datagrams in front of the judger, with the formats it
  scans and prints.

  A request is the list of the bytes of a datagram. What is read outside of the model (the processor's registers, the counter,
  the printed form of a floating point quotient) is an argument \<open>e\<close>. An answer is \<^term>\<open>None\<close> when the request is not one of
  the group, \<^term>\<open>Some None\<close> when there is nothing to send, and otherwise the text to send.
\<close>

section \<open>Formats\<close>

definition scan2 :: "string \<Rightarrow> bytes \<Rightarrow> (u64 \<times> u64) option" where
  "scan2 f content = (case sscanf (fmt f) (c_str content) of [Num a, Num b] \<Rightarrow> Some (a, b) | _ \<Rightarrow> None)"

definition scan3 :: "string \<Rightarrow> bytes \<Rightarrow> (u64 \<times> u64 \<times> u64) option" where
  "scan3 f content = (case sscanf (fmt f) (c_str content) of [Num a, Num b, Num c] \<Rightarrow> Some (a, b, c) | _ \<Rightarrow> None)"

definition scan_name :: "string \<Rightarrow> bytes \<Rightarrow> (bytes \<times> u64 \<times> u64) option" where
  "scan_name f content = (case sscanf (fmt f) (c_str content) of [Txt n, Num a, Num b] \<Rightarrow> Some (n, a, b) | _ \<Rightarrow> None)"

section \<open>State\<close>

record ServerEnv =
  e_now :: u64
  e_rdmsr :: "u32 \<Rightarrow> u64"
  e_microcode :: u32
  e_run :: run_env
  e_rc :: u32
  e_clock_text :: "u64 \<Rightarrow> u64 \<Rightarrow> u64 \<Rightarrow> string"

record Server =
  microcode_orig_rev :: u32
  my_ip :: u32
  sv_judger :: Judger
  sv_traps :: Trap
  sv_pm :: PM

definition DUCK_UDP_PORT :: u16 where "DUCK_UDP_PORT = 9999"
definition MAX_QUERY_LEN :: u64 where "MAX_QUERY_LEN = 1400"
definition MSR_TEMPERATURE_TARGET :: u32 where "MSR_TEMPERATURE_TARGET = 0x1a2"
definition IA32_THERM_STATUS :: u32 where "IA32_THERM_STATUS = 0x19c"

definition starts_with :: "bytes \<Rightarrow> string \<Rightarrow> bool" where
  "starts_with s1 s2 \<longleftrightarrow> length s1 \<ge> length s2 \<and> take (length s2) s1 = bytes_of_string s2"

definition equals_to :: "bytes \<Rightarrow> string \<Rightarrow> bool" where
  "equals_to s1 s2 \<longleftrightarrow> length s1 = length s2 \<and> s1 = bytes_of_string s2"

section \<open>The groups of requests\<close>

type_synonym answer = "bytes option option"

text \<open>The conversion of a negative number is not defined.\<close>

definition uptime_sec :: "ServerEnv \<Rightarrow> u64 option" where
  "uptime_sec e = (let x = secf_since_epoch (env_timer (e_run e)) (e_now e) in if x < 0 then None else Some (of_int \<lfloor>x\<rfloor>))"

definition process_controls :: "ServerEnv \<Rightarrow> bytes \<Rightarrow> Server \<Rightarrow> answer option" where
  "process_controls e content sv =
     (if equals_to content ''uptime'' then do {
        t \<leftarrow> uptime_sec e;
        Some (Some (Some (lit ''uptime '' @ lu t)))
      } else if equals_to content ''statistics'' then
        (let stat = get_statistics (sv_judger sv) in
         Some (Some (Some (lit ''statistics '' @ lu (st_n_judges stat) @ blank @ lu (st_total_time_ns stat)))))
      else if equals_to content ''cpu-temp'' then
        (let temp_target = extract_bits (e_rdmsr e MSR_TEMPERATURE_TARGET) 23 16;
             temp = temp_target - extract_bits (e_rdmsr e IA32_THERM_STATUS) 22 16 in
         Some (Some (Some (lit ''cpu-temp '' @ lu temp))))
      else if equals_to content ''sysinfo'' then
        Some (Some (Some (lit ''microcode-orig-rev = 0x'' @ hex02 (microcode_orig_rev sv) @ nl @
          lit ''microcode-current-rev = 0x'' @ hex02 (e_microcode e) @ nl)))
      else Some None)"

text \<open>The operations that answer only when the judger accepts the range.\<close>

definition on_success :: "bool \<Rightarrow> bytes \<Rightarrow> answer" where
  "on_success ok r = Some (if ok then Some r else None)"

definition process_data :: "bytes \<Rightarrow> Judger \<Rightarrow> (answer \<times> Judger) option" where
  "process_data content j =
     (if equals_to content ''query-buffer-size'' then
        Some (Some (Some (lit ''ok-query-buffer-size '' @ lu (query_buffer_size j))), j)
      else case scan2 ''clear-buffer %lu %lu'' content of Some (q_off, q_len) \<Rightarrow> do {
        (ok, j) \<leftarrow> clear_buffer q_off q_len j;
        Some (on_success ok (lit ''ok-clear-buffer '' @ lu q_off @ blank @ lu q_len), j)
      } | None \<Rightarrow>
      (case scan2 ''read-buffer %lu %lu'' content of Some (q_off, q_len) \<Rightarrow>
        if q_len > MAX_QUERY_LEN then Some (Some None, j)
        else do {
          q_res \<leftarrow> read_buffer q_off q_len j;
          Some (Some (map_option (\<lambda>q. lit ''ok-read-buffer'' @ bytes64 q_off @ q) q_res), j)
        }
      | None \<Rightarrow>
      if starts_with content ''write-buffer'' then
        (let tmp_len = length ''write-buffer''; data = drop tmp_len content; data_len = length data in
         if data_len < 8 then Some (Some None, j)
         else do {
           q_off \<leftarrow> get64 data 0;
           let q_data = drop 8 data;
           (ok, j) \<leftarrow> write_buffer q_off q_data j;
           Some (on_success ok (lit ''ok-write-buffer '' @ lu q_off @ blank @ lu (of_nat (length q_data) :: u64)), j)
         })
      else case scan3 ''copy-buffer %lu %lu %lu'' content of Some (q_off, q_off2, q_len) \<Rightarrow> do {
        (ok, j) \<leftarrow> copy_buffer q_off q_off2 q_len j;
        Some (on_success ok (lit ''ok-copy-buffer '' @ lu q_off @ blank @ lu q_off2 @ blank @ lu q_len), j)
      } | None \<Rightarrow>
      (case scan3 ''compare-buffer %lu %lu %lu'' content of Some (q_off, q_off2, q_len) \<Rightarrow> do {
        r \<leftarrow> compare_buffer q_off q_off2 q_len j;
        Some (Some (map_option (\<lambda>comp_result. lit ''ok-compare-buffer '' @ lu q_off @ blank @ lu q_off2 @ blank @ lu q_len @
          blank @ lu (if comp_result then 1 else 0 :: u64)) r), j)
      } | None \<Rightarrow> Some (None, j))))"

definition judge_format :: string where
  "judge_format = ''judge %lu %lu %lu '' @ ''%lu %lu %lu %lu %lu %lu %lu %lu'' @ ''%lu %lu %lu %lu %lu''"

definition scan_request :: "bytes \<Rightarrow> JudgeRequest option" where
  "scan_request content = (case sscanf (fmt judge_format) (c_str content) of
     [Num s, Num t, Num m, Num eo, Num el, Num io, Num il, Num oo, Num ol, Num ro, Num rl, Num ibo, Num ibl, Num obo, Num obl, Num c] \<Rightarrow>
       Some \<lparr>rq_seq_num = s, rq_time_limit_ns = t, rq_memory_hard_limit_kb = m, rq_ELF = \<lparr>b_off = eo, b_len = el\<rparr>,
         rq_stdin = \<lparr>b_off = io, b_len = il\<rparr>, rq_stdout = \<lparr>b_off = oo, b_len = ol\<rparr>, rq_stderr = \<lparr>b_off = ro, b_len = rl\<rparr>,
         rq_IB = \<lparr>b_off = ibo, b_len = ibl\<rparr>, rq_OB = \<lparr>b_off = obo, b_len = obl\<rparr>, rq_OB_need_clear = c\<rparr>
   | _ \<Rightarrow> None)"

definition clock_MHz :: "ServerEnv \<Rightarrow> JudgeResult \<Rightarrow> u64 \<Rightarrow> bytes" where
  "clock_MHz e r tsc_MHz =
     (if jr_clk_ref_tsc r \<noteq> 0 then lit (e_clock_text e (jr_clk_thread r) (jr_clk_ref_tsc r) tsc_MHz) else lit ''0.00000'')"

definition judge_report :: "ServerEnv \<Rightarrow> JudgeResult \<Rightarrow> bytes" where
  "judge_report e r = (case jr_error r of
     Some err \<Rightarrow> lit ''ok-judge'' @ nl @ lit ''Judge Failed'' @ nl @ lit err @ nl
   | None \<Rightarrow> (
       let tsc_MHz = tsc_freq (env_timer (e_run e)) div 1000000; ext_MHz = ext_freq (env_timer (e_run e)) div 1000000 in
       lit ''ok-judge'' @ nl @
       lit ''count-inst '' @ lu (jr_count_inst r) @ nl @
       lit ''clk-thread '' @ lu (jr_clk_thread r) @ nl @
       lit ''clk-ref-tsc '' @ lu (jr_clk_ref_tsc r) @ nl @
       lit ''clock-MHz '' @ clock_MHz e r tsc_MHz @ nl @
       lit ''tsc-MHz '' @ lu tsc_MHz @ nl @
       lit ''ext-MHz '' @ lu ext_MHz @ nl @
       lit ''time-ns '' @ lu (jr_time_ns r) @ nl @
       lit ''time-ns-ref-tsc '' @ lu (jr_time_ns_ref_tsc r) @ nl @
       lit ''time-ns-real '' @ lu (jr_time_ns_real r) @ nl @
       lit ''time-tsc '' @ lu (jr_time_tsc r) @ nl @
       lit ''memory-kb '' @ lu (jr_memory_kb r) @ nl @
       lit ''memory-kb-accessed '' @ lu (jr_memory_kb_accessed r) @ nl @
       lit ''stdout-size '' @ lu (jr_stdout_size r) @ nl @
       lit ''stderr-size '' @ lu (jr_stderr_size r) @ nl @
       lit ''return-code '' @ d32 (jr_return_code r) @ nl @
       lit ''trap-num '' @ d32 (ucast (jr_trap_num r)) @ nl @
       lit ''trap-epc 0x'' @ lit (hex_nat (unat (jr_trap_epc r))) @ nl @
       lit ''trap-cr2 0x'' @ lit (hex_nat (unat (jr_trap_cr2 r))) @ nl @
       lit ''status '' @ lit (if jr_is_RE r then ''Runtime Error'' else if jr_is_TLE r then ''Time Limit Exceeded'' else ''Run Finished'') @ nl))"

text \<open>The report is sent from an array of 1024 bytes with the length it would have without a limit.\<close>

definition process_judge :: "ServerEnv \<Rightarrow> bytes \<Rightarrow> Server \<Rightarrow> (answer \<times> Server) option" where
  "process_judge e content sv = (case scan_request content of
     Some req \<Rightarrow> do {
       (r, j, s, m) \<leftarrow> judge (e_run e) (e_rc e) req (sv_judger sv) (sv_traps sv) (sv_pm sv);
       let res = judge_report e r;
       c_assert (length res < 1024);
       Some (Some (Some res), sv\<lparr>sv_judger := j, sv_traps := s, sv_pm := m\<rparr>)
     }
   | None \<Rightarrow> Some (None, sv))"

definition string_of_bytes :: "bytes \<Rightarrow> string" where
  "string_of_bytes bs = map (\<lambda>b. char_of (unat b)) bs"

definition process_cache :: "ServerEnv \<Rightarrow> bytes \<Rightarrow> Judger \<Rightarrow> (answer \<times> Judger) option" where
  "process_cache e content j = (let hash = drop (length content - 64) content in
     case (if length content > 64 then scan_name ''load-cache %s %lu %lu'' content else None) of
       Some (name, q_off, q_len) \<Rightarrow> do {
         (ok, j) \<leftarrow> load_cache (e_now e) (string_of_bytes name) q_off q_len hash j;
         Some (Some (Some (lit (if ok then ''ok-load-cache '' else ''fail-load-cache '') @ name @ blank @ lu q_off @ blank @ lu q_len)), j)
       }
     | None \<Rightarrow>
     (case (if length content > 64 then scan_name ''store-cache %s %lu %lu'' content else None) of
       Some (name, q_off, q_len) \<Rightarrow> do {
         (ok, j) \<leftarrow> store_cache (e_now e) (string_of_bytes name) q_off q_len hash j;
         Some (Some (Some (lit (if ok then ''ok-store-cache '' else ''fail-store-cache '') @ name @ blank @ lu q_off @ blank @ lu q_len)), j)
       }
     | None \<Rightarrow>
     (case sscanf (fmt ''info-cache %s'') (c_str content) of
       [Txt name] \<Rightarrow> Some (Some (Some (lit ''info-cache '' @ name @ blank @ lit (get_cache_info (string_of_bytes name) j))), j)
     | _ \<Rightarrow> Some (None, j))))"

text \<open>The answer to a query of the server to itself, with the line break; there always is one.\<close>

definition query_part :: "answer \<Rightarrow> bytes option" where
  "query_part a = (case a of Some (Some r) \<Rightarrow> Some (r @ nl) | _ \<Rightarrow> None)"

definition process_special :: "ServerEnv \<Rightarrow> bytes \<Rightarrow> Server \<Rightarrow> (answer \<times> Server) option" where
  "process_special e content sv =
     (if equals_to content ''query-all'' then do {
        a \<leftarrow> process_controls e (lit ''uptime'') sv;
        r1 \<leftarrow> query_part a;
        a \<leftarrow> process_controls e (lit ''statistics'') sv;
        r2 \<leftarrow> query_part a;
        (a, j) \<leftarrow> process_cache e (lit ''info-cache elf'') (sv_judger sv);
        let sv = sv\<lparr>sv_judger := j\<rparr>;
        r3 \<leftarrow> query_part a;
        (a, j) \<leftarrow> process_cache e (lit ''info-cache data'') (sv_judger sv);
        let sv = sv\<lparr>sv_judger := j\<rparr>;
        r4 \<leftarrow> query_part a;
        a \<leftarrow> process_controls e (lit ''cpu-temp'') sv;
        r5 \<leftarrow> query_part a;
        Some (Some (Some (r1 @ r2 @ r3 @ r4 @ r5)), sv)
      } else Some (None, sv))"

text \<open>The groups are asked in order until one takes the request.\<close>

definition process :: "ServerEnv \<Rightarrow> bytes \<Rightarrow> Server \<Rightarrow> (bytes option \<times> Server) option" where
  "process e content sv = do {
     a \<leftarrow> process_controls e content sv;
     case a of Some r \<Rightarrow> Some (r, sv) | None \<Rightarrow> do {
     (a, j) \<leftarrow> process_data content (sv_judger sv);
     let sv = sv\<lparr>sv_judger := j\<rparr>;
     case a of Some r \<Rightarrow> Some (r, sv) | None \<Rightarrow> do {
     (a, sv) \<leftarrow> process_judge e content sv;
     case a of Some r \<Rightarrow> Some (r, sv) | None \<Rightarrow> do {
     (a, j) \<leftarrow> process_cache e content (sv_judger sv);
     let sv = sv\<lparr>sv_judger := j\<rparr>;
     case a of Some r \<Rightarrow> Some (r, sv) | None \<Rightarrow> do {
     (a, sv) \<leftarrow> process_special e content sv;
     Some (case a of Some r \<Rightarrow> r | None \<Rightarrow> None, sv)
   }}}}}"

datatype outcome = Reboot | Handled "udp_request list" Server

definition duck_packet_handle :: "ServerEnv \<Rightarrow> u32 \<Rightarrow> u16 \<Rightarrow> bytes \<Rightarrow> Server \<Rightarrow> outcome option" where
  "duck_packet_handle e src sport content sv =
     (if equals_to content ''reboot'' then Some Reboot
      else do {
        (r, sv) \<leftarrow> process e content sv;
        Some (Handled (case r of None \<Rightarrow> [] | Some to_send \<Rightarrow> [(src, sport, DUCK_UDP_PORT, to_send)]) sv)
      })"

text \<open>The handler of the network stack; it always returns \<open>-1\<close>. The datagram is the header of eight bytes and the content.\<close>

definition udp_packet_handle :: "ServerEnv \<Rightarrow> u32 \<Rightarrow> u32 \<Rightarrow> bytes \<Rightarrow> int \<Rightarrow> Server \<Rightarrow> outcome option" where
  "udp_packet_handle e src dst hdr content_len sv =
     (if (ucast src :: u8) = 255 then Some (Handled [] sv)
      else if dst \<noteq> my_ip sv then Some (Handled [] sv)
      else do {
        dport \<leftarrow> get16 hdr 2;
        sport \<leftarrow> get16 hdr 0;
        if dport = DUCK_UDP_PORT then do { content \<leftarrow> rd_range hdr 8 (nat content_len); duck_packet_handle e src sport content sv }
        else Some (Handled [] sv)
      })"

section \<open>Initialisation and the main loop\<close>

text \<open>The first byte of an address is its lowest one.\<close>

definition server_addr :: "u8 list \<Rightarrow> u32" where
  "server_addr a = of_nat (unat (a ! 3) + unat (a ! 2) * 2 ^ 8 + unat (a ! 1) * 2 ^ 16 + unat (a ! 0) * 2 ^ 24)"

definition init_microcode :: "u32 \<Rightarrow> Server \<Rightarrow> Server" where
  "init_microcode r sv = sv\<lparr>microcode_orig_rev := r\<rparr>"

definition server_init :: "ServerEnv \<Rightarrow> bytes \<Rightarrow> u8 list \<Rightarrow> u8 list \<Rightarrow> u8 \<Rightarrow> Server \<Rightarrow> Ducknet \<Rightarrow> (Server \<times> Ducknet) option" where
  "server_init e mac ip gateway prefix_len sv n = do {
     let sv = (init_microcode (e_microcode e) sv)\<lparr>my_ip := server_addr ip\<rparr>;
     (r, n) \<leftarrow> ducknet_init (tsc_freq (env_timer (e_run e))) (e_now e) mac (my_ip sv) (server_addr gateway) prefix_len n;
     c_assert (r \<ge> 0);
     Some (sv, n)
   }"

text \<open>Frames that go in or out make the scheduler active; an idle round lets the processor sleep.\<close>

definition phy_packet_handle :: "Scheduler \<Rightarrow> int \<times> Scheduler" where
  "phy_packet_handle s = (0, set_active s)"

definition server_idle :: "hooks \<Rightarrow> Timer \<Rightarrow> u64 \<Rightarrow> u64 \<Rightarrow> u64 \<Rightarrow> Ducknet \<Rightarrow> Scheduler \<Rightarrow> Lapic \<Rightarrow> (int \<times> Ducknet \<times> Scheduler \<times> Lapic) option" where
  "server_idle hk t t1 t2 t3 n s l = do {
     s \<leftarrow> set_idle t t1 s;
     c \<leftarrow> can_sleep t t2 s;
     if c then do {
       let (_, n) = ducknet_flush hk n;
       l \<leftarrow> sched_sleep t t3 s l;
       Some (0, n, s, l)
     } else Some (0, n, s, l)
   }"

section \<open>Answers\<close>

lemma scan2_read: "scan2 ''read-buffer %lu %lu'' (lit ''read-buffer'' @ spaced [a, b]) = Some (a, b)"
  using sscanf_printed[of "fmt ''read-buffer %lu %lu''" "''read-buffer''" "[Space, LU, Space, LU]" "[a, b]"]
  by (simp add: scan2_def lit_def bytes_of_string_def)

definition datagram :: "u16 \<Rightarrow> u16 \<Rightarrow> bytes \<Rightarrow> bytes" where
  "datagram sport dport content = bytes16 sport @ bytes16 dport @ bytes16 (of_nat (length content + 8)) @ bytes16 0 @ content"

lemma handle_datagram:
  assumes "(ucast src :: u8) \<noteq> 255"
  shows "udp_packet_handle e src (my_ip sv) (datagram sport DUCK_UDP_PORT content) (int (length content)) sv =
    duck_packet_handle e src sport content sv"
proof -
  have "get16 (datagram sport DUCK_UDP_PORT content) 2 = Some DUCK_UDP_PORT" "get16 (datagram sport DUCK_UDP_PORT content) 0 = Some sport"
    using le16_bytes16[of sport] le16_bytes16[of DUCK_UDP_PORT] by (simp_all add: datagram_def get16_in nth_append)
  moreover have "rd_range (datagram sport DUCK_UDP_PORT content) 8 (length content) = Some content"
    by (simp add: datagram_def rd_range_def)
  ultimately show ?thesis using assms by (simp add: udp_packet_handle_def)
qed

text \<open>The first byte decides which formats can match.\<close>

lemma scan2_first:
  assumes "content = x # r" "fmt f = Lit c # ds" "x \<noteq> c"
  shows "scan2 f content = None"
  using assms by (simp add: scan2_def c_str_def)

lemma length_lit [simp]: "length (lit s) = length s"
  by (simp add: lit_def)

lemma write_request:
  assumes "judger_wf (sv_judger sv)" "length data < 2 ^ 64"
    and "unat off < length (buffer (sv_judger sv))" "unat off + length data \<le> length (buffer (sv_judger sv))"
  shows "\<exists>j. duck_packet_handle e src sport (lit ''write-buffer'' @ bytes64 off @ data) sv =
      Some (Handled [(src, sport, DUCK_UDP_PORT, lit ''ok-write-buffer '' @ lu off @ blank @ lu (of_nat (length data) :: u64))] (sv\<lparr>sv_judger := j\<rparr>)) \<and>
    write_buffer off data (sv_judger sv) = Some (True, j) \<and> read_buffer off (of_nat (length data)) j = Some (Some data) \<and> judger_wf j"
proof -
  define c where "c = lit ''write-buffer'' @ bytes64 off @ data"
  from jbuf.read_after_write[OF assms(1,4,3,2)] obtain j where j: "write_buffer off data (sv_judger sv) = Some (True, j)"
    "read_buffer off (of_nat (length data)) j = Some (Some data)" "judger_wf j" by blast
  obtain r where cr: "c = of_char (CHR ''w'') # r" by (simp add: c_def lit_def bytes_of_string_def)
  have no: "equals_to c (a # s) = False" if "of_char a \<noteq> (of_char (CHR ''w'') :: u8)" for a s
    using that by (simp add: equals_to_def cr bytes_of_string_def)
  have d: "drop (length ''write-buffer'') c = bytes64 off @ data" "starts_with c ''write-buffer''"
    unfolding c_def by (simp_all only: length_lit[symmetric] append_eq_conv_conj[symmetric] starts_with_def) (simp_all add: lit_def)
  have g: "get64 (bytes64 off @ data) 0 = Some off" using get64_bytes64[of "[]" off data] by simp
  have ctl: "process_controls e c sv = Some None" by (simp add: process_controls_def no)
  have s: "scan2 ''clear-buffer %lu %lu'' c = None" "scan2 ''read-buffer %lu %lu'' c = None"
    by (rule scan2_first[OF cr], simp, simp)+
  have "process_data c (sv_judger sv) = Some (Some (Some (lit ''ok-write-buffer '' @ lu off @ blank @ lu (of_nat (length data) :: u64))), j)"
    unfolding process_data_def Let_def d(1) using d(2) g j(1) s by (simp add: no on_success_def)
  with ctl no j show ?thesis by (simp add: c_def[symmetric] duck_packet_handle_def process_def)
qed

lemma read_request:
  assumes q: "read_buffer off n (sv_judger sv) = Some q" and n: "n \<le> MAX_QUERY_LEN"
  shows "duck_packet_handle e src sport (lit ''read-buffer'' @ spaced [off, n]) sv =
    Some (Handled (case q of None \<Rightarrow> [] | Some bs \<Rightarrow> [(src, sport, DUCK_UDP_PORT, lit ''ok-read-buffer'' @ bytes64 off @ bs)]) sv)"
proof -
  let ?c = "lit ''read-buffer'' @ spaced [off, n]"
  obtain r where c: "?c = of_char (CHR ''r'') # of_char (CHR ''e'') # of_char (CHR ''a'') # r" by (simp add: lit_def bytes_of_string_def)
  have no: "equals_to ?c (a # s) = False" if "of_char a \<noteq> (of_char (CHR ''r'') :: u8)" for a s
    using that by (simp add: equals_to_def c bytes_of_string_def)
  have boot: "equals_to ?c ''reboot'' = False" by (simp add: equals_to_def c bytes_of_string_def)
  have ctl: "process_controls e ?c sv = Some None" by (simp add: process_controls_def no)
  have "process_data ?c (sv_judger sv) = Some (Some (map_option (\<lambda>q. lit ''ok-read-buffer'' @ bytes64 off @ q) q), sv_judger sv)"
    using q leD[OF n] scan2_read[of off n] scan2_first[OF c, of "''clear-buffer %lu %lu''"]
    by (simp add: process_data_def no)
  with ctl boot show ?thesis by (cases q) (simp_all add: duck_packet_handle_def process_def)
qed

text \<open>C40: A remote buffer. A datagram that asks to write data into the judge's buffer is answered with the range that was written, and a later
  datagram that asks in decimal digits for this range is answered with exactly these bytes, to the sender of the request.\<close>

theorem server_roundtrip:
  assumes "(ucast src :: u8) \<noteq> 255" "judger_wf (sv_judger sv)" "length data \<le> 1400"
    and "unat off < length (buffer (sv_judger sv))" "unat off + length data \<le> length (buffer (sv_judger sv))"
  shows "\<exists>sv'. let wr = lit ''write-buffer'' @ bytes64 off @ data; n = of_nat (length data);
      rd = lit ''read-buffer'' @ spaced [off, n] in
    udp_packet_handle e src (my_ip sv) (datagram sport DUCK_UDP_PORT wr) (int (length wr)) sv =
      Some (Handled [(src, sport, DUCK_UDP_PORT, lit ''ok-write-buffer '' @ lu off @ blank @ lu n)] sv') \<and>
    udp_packet_handle e' src (my_ip sv) (datagram sport' DUCK_UDP_PORT rd) (int (length rd)) sv' =
      Some (Handled [(src, sport', DUCK_UDP_PORT, lit ''ok-read-buffer'' @ bytes64 off @ data)] sv')"
proof -
  have "length data < 2 ^ 64" using assms(3) by simp
  from write_request[OF assms(2) this assms(4,5)] obtain j where
    w: "duck_packet_handle e src sport (lit ''write-buffer'' @ bytes64 off @ data) sv =
      Some (Handled [(src, sport, DUCK_UDP_PORT, lit ''ok-write-buffer '' @ lu off @ blank @ lu (of_nat (length data) :: u64))] (sv\<lparr>sv_judger := j\<rparr>))"
    and r: "read_buffer off (of_nat (length data)) j = Some (Some data)" by blast
  have "unat (of_nat (length data) :: u64) = length data" by (rule unat_of_nat_lt) (use assms(3) in simp)
  then have "(of_nat (length data) :: u64) \<le> MAX_QUERY_LEN" using assms(3) by (simp add: MAX_QUERY_LEN_def word_le_nat_alt)
  with read_request[of off "of_nat (length data)" "sv\<lparr>sv_judger := j\<rparr>" "Some data" e' src sport'] r w
  show ?thesis
    using handle_datagram[OF assms(1), of e sv sport] handle_datagram[OF assms(1), of e' "sv\<lparr>sv_judger := j\<rparr>" sport']
    by (intro exI[of _ "sv\<lparr>sv_judger := j\<rparr>"]) (simp add: Let_def)
qed

definition demo_server_env :: ServerEnv where
  "demo_server_env = \<lparr>e_now = 0, e_rdmsr = (\<lambda>_. 0), e_microcode = 0, e_run = demo_env, e_rc = 0, e_clock_text = (\<lambda>_ _ _. ''0.00000'')\<rparr>"

definition demo_server :: Server where
  "demo_server = \<lparr>microcode_orig_rev = 0, my_ip = 7, sv_judger = demo_judger, sv_traps = demo_ready, sv_pm = zero_PM\<rparr>"

theorem server_roundtrip_witness:
  "\<exists>sv'. let wr = lit ''write-buffer'' @ bytes64 3 @ [1, 2]; rd = lit ''read-buffer'' @ spaced [3, 2] in
    udp_packet_handle demo_server_env 5 7 (datagram 40 DUCK_UDP_PORT wr) (int (length wr)) demo_server =
      Some (Handled [(5, 40, DUCK_UDP_PORT, lit ''ok-write-buffer '' @ lu (3 :: u64) @ blank @ lu (2 :: u64))] sv') \<and>
    udp_packet_handle demo_server_env 5 7 (datagram 41 DUCK_UDP_PORT rd) (int (length rd)) sv' =
      Some (Handled [(5, 41, DUCK_UDP_PORT, lit ''ok-read-buffer'' @ bytes64 3 @ [1, 2])] sv')"
  using server_roundtrip[of 5 demo_server "[1, 2]" 3 demo_server_env 40 demo_server_env 41]
  by (simp add: demo_server_def demo_judger_def judger_wf_def)

section \<open>Judge requests and reports\<close>

definition request_numbers :: "JudgeRequest \<Rightarrow> u64 list" where
  "request_numbers r = [rq_seq_num r, rq_time_limit_ns r, rq_memory_hard_limit_kb r] @
     concat (map (\<lambda>b. [b_off b, b_len b]) (request_buffers r)) @ [rq_OB_need_clear r]"

text \<open>A request that is printed as the word and its sixteen numbers is the request that is judged.\<close>

lemma scan_request_printed: "scan_request (lit ''judge'' @ spaced (request_numbers r)) = Some r"
proof -
  let ?ds = "[Space, LU, Space, LU, Space, LU, Space, LU, Space, LU, Space, LU, Space, LU, Space, LU, Space, LU, Space, LU, Space, LU,
    LU, Space, LU, Space, LU, Space, LU, Space, LU]"
  have "fmt judge_format = map Lit (lit ''judge'') @ ?ds" by (simp add: judge_format_def lit_def bytes_of_string_def)
  then have "sscanf (fmt judge_format) (c_str (lit ''judge'' @ spaced (request_numbers r))) = map Num (request_numbers r)"
    by (rule sscanf_printed) (simp_all add: request_numbers_def request_buffers_def lit_def bytes_of_string_def)
  then show ?thesis by (simp add: scan_request_def request_numbers_def request_buffers_def)
qed

lemma length_lu: "length (lu w) \<le> 20" for w :: u64
proof -
  have "unat w < 10 ^ 20" using unsigned_less[of w, where 'a = nat] by (rule less_le_trans) simp
  then show ?thesis by (simp add: lu_def length_dec_nat_le)
qed

lemma length_lu32: "length (lu w) \<le> 10" for w :: u32
proof -
  have "unat w < 10 ^ 10" using unsigned_less[of w, where 'a = nat] by (rule less_le_trans) simp
  then show ?thesis by (simp add: lu_def length_dec_nat_le)
qed

lemma length_d32: "length (d32 w) \<le> 11"
proof -
  have "nat (sint w) < 10 ^ 10" "nat (- sint w) < 10 ^ 10" using sint_range_size[of w] by (auto simp: word_size nat_less_iff)
  then have "length (dec_nat (nat (sint w))) \<le> 10" "length (dec_nat (nat (- sint w))) \<le> 10"
    by (intro length_dec_nat_le; simp)+
  then show ?thesis by (simp add: d32_def)
qed

lemma length_hex: "n < 16 ^ k \<Longrightarrow> 0 < k \<Longrightarrow> length (hex_nat n) \<le> k"
proof (induction n arbitrary: k rule: hex_nat.induct)
  case (1 n)
  show ?case
  proof (cases "n < 16")
    case False
    then obtain m where m: "k = Suc m" "0 < m" using 1(2,3) by (cases k; cases "k - 1") auto
    then have "n div 16 < 16 ^ m" using 1(2) by (simp add: less_mult_imp_div_less)
    with 1(1)[OF refl refl False this m(2)] False m(1) show ?thesis by (simp add: hex_nat.simps[of n] Let_def)
  qed (use 1(3) in \<open>simp add: hex_nat.simps[of n] Let_def\<close>)
qed

text \<open>A report fits into its array: the assertion of the judge's answer holds.\<close>

lemma judge_report_fits:
  assumes "\<And>a b c. length (e_clock_text e a b c) \<le> 40" "\<And>err. jr_error r = Some err \<Longrightarrow> length err \<le> 100"
  shows "length (judge_report e r) < 1024"
proof (cases "jr_error r")
  case None
  define t x where "t = tsc_freq (env_timer (e_run e)) div 1000000" and "x = ext_freq (env_timer (e_run e)) div 1000000"
  have "length (clock_MHz e r t) \<le> 40" using assms(1) by (simp add: clock_MHz_def)
  moreover have "length (hex_nat (unat w)) \<le> 16" for w :: u64
    by (rule length_hex) (use unsigned_less[of w, where 'a = nat] in simp_all)
  note this[of "jr_trap_epc r"] this[of "jr_trap_cr2 r"]
  moreover note length_lu[of "jr_count_inst r"] length_lu[of "jr_clk_thread r"] length_lu[of "jr_clk_ref_tsc r"] length_lu[of "jr_time_ns r"] length_lu[of "jr_time_ns_ref_tsc r"]
    length_lu[of "jr_time_ns_real r"] length_lu[of "jr_time_tsc r"] length_lu[of "jr_memory_kb r"] length_lu[of "jr_memory_kb_accessed r"]
    length_lu[of "jr_stdout_size r"] length_lu[of "jr_stderr_size r"] length_lu[of t] length_lu32[of x]
    length_d32[of "jr_return_code r"] length_d32[of "ucast (jr_trap_num r)"]
  ultimately show ?thesis
    unfolding judge_report_def None option.case t_def[symmetric] x_def[symmetric] Let_def length_append length_lit nl_def
    by simp
next
  case (Some err)
  with assms(2)[OF Some] show ?thesis by (simp add: judge_report_def nl_def)
qed

end
