(* ===== verification/Kern_Console.thy ===== *)
theory Kern_Console
  imports User_Calls
begin

text \<open>
  The console of the kernel: the text screen of \<open>lib/vga_buffer.cpp\<close>, the serial port of \<open>lib/serial.cpp\<close>, the
  loggers of \<open>lib/logger.cpp\<close>, and the system calls of the C library inside of the kernel, \<open>kern/duck64_syscall_handler.cpp\<close>, which
  write to the screen.

  The screen is a list of rows of characters with colours; an index outside of it is a fault. Ports are a history of
  writes, and what is read from a port is an argument. What is printed through the C library's buffered output reaches the screen at once.
\<close>

section \<open>The screen\<close>

datatype Color = Black | Blue | Green | Cyan | Red | Magenta | Brown | LightGray
  | DarkGray | LightBlue | LightGreen | LightCyan | LightRed | Pink | Yellow | White

primrec color_value :: "Color \<Rightarrow> u8" where
  "color_value Black = 0" | "color_value Blue = 1" | "color_value Green = 2" | "color_value Cyan = 3"
| "color_value Red = 4" | "color_value Magenta = 5" | "color_value Brown = 6" | "color_value LightGray = 7"
| "color_value DarkGray = 8" | "color_value LightBlue = 9" | "color_value LightGreen = 10" | "color_value LightCyan = 11"
| "color_value LightRed = 12" | "color_value Pink = 13" | "color_value Yellow = 14" | "color_value White = 15"

definition color_code_generate :: "Color \<Rightarrow> Color \<Rightarrow> u8" where
  "color_code_generate foreground background = push_bit 4 (color_value background) OR color_value foreground"

record ScreenChar =
  ascii_character :: u8
  sc_color_code :: u8

definition BUFFER_HEIGHT :: nat where "BUFFER_HEIGHT = 25"
definition BUFFER_WIDTH :: nat where "BUFFER_WIDTH = 80"

type_synonym screen = "ScreenChar list list"

record Writer =
  column_position :: nat
  color_code :: u8
  chars :: screen

definition the_writer :: "screen \<Rightarrow> Writer" where
  "the_writer b = \<lparr>column_position = 0, color_code = color_code_generate LightGray Black, chars = b\<rparr>"

definition screen_read :: "nat \<Rightarrow> nat \<Rightarrow> screen \<Rightarrow> ScreenChar option" where
  "screen_read row col b = do { r \<leftarrow> rd b row; rd r col }"

definition screen_write :: "nat \<Rightarrow> nat \<Rightarrow> ScreenChar \<Rightarrow> screen \<Rightarrow> screen option" where
  "screen_write row col s b = do { r \<leftarrow> rd b row; r \<leftarrow> wr r col s; wr b row r }"

definition clear_row :: "nat \<Rightarrow> Writer \<Rightarrow> Writer option" where
  "clear_row row w = (let blank = \<lparr>ascii_character = 32, sc_color_code = color_code w\<rparr> in do {
     b \<leftarrow> for_opt (\<lambda>col b. screen_write row col blank b) [0..<BUFFER_WIDTH] (chars w);
     Some (w\<lparr>chars := b\<rparr>)
   })"

definition scroll_row :: "nat \<Rightarrow> screen \<Rightarrow> screen option" where
  "scroll_row row b = for_opt (\<lambda>col b. do { s \<leftarrow> screen_read row col b; screen_write (row - 1) col s b }) [0..<BUFFER_WIDTH] b"

definition new_line :: "Writer \<Rightarrow> Writer option" where
  "new_line w = do {
     b \<leftarrow> for_opt scroll_row [1..<BUFFER_HEIGHT] (chars w);
     w \<leftarrow> clear_row (BUFFER_HEIGHT - 1) (w\<lparr>chars := b\<rparr>);
     Some (w\<lparr>column_position := 0\<rparr>)
   }"

definition write_byte :: "u8 \<Rightarrow> Writer \<Rightarrow> Writer option" where
  "write_byte byte w =
     (if byte = 10 then new_line w
      else do {
        w \<leftarrow> (if column_position w \<ge> BUFFER_WIDTH then new_line w else Some w);
        b \<leftarrow> screen_write (BUFFER_HEIGHT - 1) (column_position w) \<lparr>ascii_character = byte, sc_color_code = color_code w\<rparr> (chars w);
        Some (w\<lparr>chars := b, column_position := column_position w + 1\<rparr>)
      })"

definition write_buf :: "bytes \<Rightarrow> Writer \<Rightarrow> Writer option" where
  "write_buf s w = for_opt write_byte s w"

definition write_str :: "string \<Rightarrow> Writer \<Rightarrow> Writer option" where
  "write_str s w = for_opt write_byte (bytes_of_string s) w"

section \<open>The serial port\<close>

definition COM1 :: u16 where "COM1 = 0x3F8"
definition COM_LSR_TXRDY :: u8 where "COM_LSR_TXRDY = 0x20"

text \<open>The number of reads so far and the bytes that were written, with their ports; read \<open>k\<close> of a port gives \<open>inb k port\<close>.\<close>

record Ports =
  n_reads :: nat
  out_log :: "(u16 \<times> u8) list"

definition outb :: "u16 \<Rightarrow> u8 \<Rightarrow> Ports \<Rightarrow> Ports" where
  "outb port v p = p\<lparr>out_log := out_log p @ [(port, v)]\<rparr>"

definition do_inb :: "(nat \<Rightarrow> u16 \<Rightarrow> u8) \<Rightarrow> u16 \<Rightarrow> Ports \<Rightarrow> u8 \<times> Ports" where
  "do_inb inb port p = (inb (n_reads p) port, p\<lparr>n_reads := n_reads p + 1\<rparr>)"

definition serial_delay :: "(nat \<Rightarrow> u16 \<Rightarrow> u8) \<Rightarrow> Ports \<Rightarrow> Ports" where
  "serial_delay inb p = ((\<lambda>p. snd (do_inb inb 0x84 p)) ^^ 4) p"

text \<open>At most 12800 polls of the line status, then the byte is written anyway.\<close>

primrec serial_wait :: "(nat \<Rightarrow> u16 \<Rightarrow> u8) \<Rightarrow> nat \<Rightarrow> Ports \<Rightarrow> Ports" where
  "serial_wait inb 0 p = p"
| "serial_wait inb (Suc n) p = (case do_inb inb (COM1 + 5) p of (v, p) \<Rightarrow>
     if v AND COM_LSR_TXRDY \<noteq> 0 then p else serial_wait inb n (serial_delay inb p))"

definition serial_putc :: "(nat \<Rightarrow> u16 \<Rightarrow> u8) \<Rightarrow> u8 \<Rightarrow> Ports \<Rightarrow> Ports" where
  "serial_putc inb c p = outb COM1 c (serial_wait inb 12800 p)"

definition serial_write_buf :: "(nat \<Rightarrow> u16 \<Rightarrow> u8) \<Rightarrow> bytes \<Rightarrow> Ports \<Rightarrow> Ports" where
  "serial_write_buf inb s p = fold (serial_putc inb) s p"

text \<open>Also says whether there is a serial port.\<close>

definition serial_init :: "(nat \<Rightarrow> u16 \<Rightarrow> u8) \<Rightarrow> Ports \<Rightarrow> bool \<times> Ports" where
  "serial_init inb p = (
     let p = outb (COM1 + 2) 0 p;
         p = outb (COM1 + 3) 0x80 p;
         p = outb COM1 (of_nat (115200 div 9600)) p;
         p = outb (COM1 + 1) 0 p;
         p = outb (COM1 + 3) (0x03 AND NOT 0x80) p;
         p = outb (COM1 + 4) 0 p;
         p = outb (COM1 + 1) 0x01 p;
         (v, p) = do_inb inb (COM1 + 5) p;
         (_, p) = do_inb inb (COM1 + 2) p;
         (_, p) = do_inb inb COM1 p
     in (v \<noteq> 0xFF, p))"

section \<open>Loggers\<close>

datatype LogLevel = LL_FATAL | LL_ERROR | LL_WARN | LL_INFO | LL_DEBUG

primrec level_value :: "LogLevel \<Rightarrow> nat" where
  "level_value LL_FATAL = 0" | "level_value LL_ERROR = 1" | "level_value LL_WARN = 2"
| "level_value LL_INFO = 3" | "level_value LL_DEBUG = 4"

record Console =
  writer :: Writer
  log_level :: LogLevel
  logger_in_use :: bool
  logger_saved_colorcode :: u8

record TimedLogger =
  tl_name :: char
  tl_mute :: bool
  tl_saved_colorcode :: u8

definition get_prefix :: "char \<Rightarrow> string" where
  "get_prefix name =
     (if name = CHR ''F'' then ''FATAL'' else if name = CHR ''E'' then ''ERROR'' else if name = CHR ''I'' then ''INFO''
      else if name = CHR ''W'' then ''WARN'' else if name = CHR ''D'' then ''DEBUG'' else ''unknown'')"

definition console_print :: "string \<Rightarrow> Console \<Rightarrow> Console option" where
  "console_print s c = do { w \<leftarrow> write_str s (writer c); Some (c\<lparr>writer := w\<rparr>) }"

text \<open>Creating a logger; \<open>stamp\<close> is the printed time.\<close>

definition make_logger :: "string \<Rightarrow> u8 \<Rightarrow> char \<Rightarrow> bool \<Rightarrow> Console \<Rightarrow> (TimedLogger \<times> Console) option" where
  "make_logger stamp colorcode name mute c = (
     let saved = color_code (writer c) in
     if mute then Some (\<lparr>tl_name = name, tl_mute = mute, tl_saved_colorcode = saved\<rparr>, c)
     else let (saved, c) =
         (if \<not> logger_in_use c
          then (saved, c\<lparr>writer := (writer c)\<lparr>color_code := colorcode\<rparr>, logger_saved_colorcode := saved, logger_in_use := True\<rparr>)
          else (logger_saved_colorcode c, c))
     in do {
       c \<leftarrow> console_print (''['' @ stamp @ '']'') c;
       c \<leftarrow> console_print (''['' @ get_prefix name @ ''] '') c;
       Some (\<lparr>tl_name = name, tl_mute = mute, tl_saved_colorcode = saved\<rparr>, c)
     })"

definition drop_logger :: "TimedLogger \<Rightarrow> Console \<Rightarrow> Console option" where
  "drop_logger l c =
     (if tl_mute l then Some c
      else let c = (if logger_in_use c
          then c\<lparr>writer := (writer c)\<lparr>color_code := tl_saved_colorcode l\<rparr>, logger_in_use := False\<rparr> else c)
      in console_print ''\<newline>'' c)"

definition set_log_level :: "LogLevel \<Rightarrow> Console \<Rightarrow> Console" where
  "set_log_level level c = c\<lparr>log_level := level\<rparr>"

definition logger_init :: "Console \<Rightarrow> Console" where
  "logger_init c = set_log_level LL_DEBUG c"

definition get_logger :: "string \<Rightarrow> u8 \<Rightarrow> LogLevel \<Rightarrow> char \<Rightarrow> Console \<Rightarrow> (TimedLogger \<times> Console) option" where
  "get_logger stamp colorcode level name c = make_logger stamp colorcode name (level_value level > level_value (log_level c)) c"

primrec level_color :: "LogLevel \<Rightarrow> u8" where
  "level_color LL_FATAL = color_code_generate White LightRed"
| "level_color LL_ERROR = color_code_generate LightRed Black"
| "level_color LL_WARN = color_code_generate Yellow Black"
| "level_color LL_INFO = color_code_generate Green Black"
| "level_color LL_DEBUG = color_code_generate DarkGray Black"

primrec level_name :: "LogLevel \<Rightarrow> char" where
  "level_name LL_FATAL = CHR ''F''" | "level_name LL_ERROR = CHR ''E''" | "level_name LL_WARN = CHR ''W''"
| "level_name LL_INFO = CHR ''I''" | "level_name LL_DEBUG = CHR ''D''"

text \<open>A log line with its formatted text.\<close>

definition log_line :: "string \<Rightarrow> LogLevel \<Rightarrow> string \<Rightarrow> Console \<Rightarrow> Console option" where
  "log_line stamp level msg c =
     (if level_value level > level_value (log_level c) then Some c
      else do {
        (l, c) \<leftarrow> get_logger stamp (level_color level) level (level_name level) c;
        c \<leftarrow> console_print msg c;
        drop_logger l c
      })"

text \<open>The guards at the start and the end of a function.\<close>

definition log_enter :: "string \<Rightarrow> LogLevel \<Rightarrow> string \<Rightarrow> bool \<Rightarrow> Console \<Rightarrow> Console option" where
  "log_enter stamp level func log_ret c = do {
     (l, c) \<leftarrow> get_logger stamp (level_color level) level (level_name level) c;
     c \<leftarrow> (if tl_mute l then Some c else console_print (func @ (if log_ret then '' start'' else '''')) c);
     drop_logger l c
   }"

definition log_ret :: "string \<Rightarrow> LogLevel \<Rightarrow> string \<Rightarrow> Console \<Rightarrow> Console option" where
  "log_ret stamp level func c = do {
     (l, c) \<leftarrow> get_logger stamp (level_color level) level (level_name level) c;
     c \<leftarrow> (if tl_mute l then Some c else console_print (func @ '' done'') c);
     drop_logger l c
   }"

section \<open>System calls of the C library in the kernel\<close>

record KernelCalls =
  kc_writer :: Writer
  kc_heap :: u64
  kc_heap_brk :: u64
  kc_fs :: u64
  kc_mem :: "64 mem"
  kc_stats :: "u64 \<Rightarrow> FileStat option"

definition KERNEL_HEAP_SIZE :: u64 where "KERNEL_HEAP_SIZE = push_bit 10 256"

definition kern_write :: "u32 \<Rightarrow> u64 \<Rightarrow> u64 \<Rightarrow> KernelCalls \<Rightarrow> (u64 \<times> KernelCalls) option" where
  "kern_write fd buf len k =
     (if fd \<noteq> 1 \<and> fd \<noteq> 2 then Some (0, k)
      else do {
        bs \<leftarrow> uread (unat len) buf (kc_mem k);
        w \<leftarrow> write_buf bs (kc_writer k);
        Some (len, k\<lparr>kc_writer := w\<rparr>)
      })"

primrec kern_vec :: "u32 \<Rightarrow> u64 \<Rightarrow> nat list \<Rightarrow> u64 \<Rightarrow> KernelCalls \<Rightarrow> (u64 \<times> KernelCalls) option" where
  "kern_vec fd iov [] ret k = Some (ret, k)"
| "kern_vec fd iov (i # ids) ret k = do {
     base \<leftarrow> uget (iov + of_nat (i * 16)) (kc_mem k);
     len \<leftarrow> uget (iov + of_nat (i * 16) + 8) (kc_mem k);
     (tmp, k) \<leftarrow> kern_write fd base len k;
     let ret = (if tmp \<le> len then ret + tmp else ret);
     if tmp \<noteq> len then Some (ret, k) else kern_vec fd iov ids ret k
   }"

definition kern_writev :: "u32 \<Rightarrow> u64 \<Rightarrow> u32 \<Rightarrow> KernelCalls \<Rightarrow> (u64 \<times> KernelCalls) option" where
  "kern_writev fd iov cnt k = kern_vec fd iov [0..<nat (sint cnt)] 0 k"

definition kern_fstat :: "u32 \<Rightarrow> u64 \<Rightarrow> KernelCalls \<Rightarrow> u64 \<times> KernelCalls" where
  "kern_fstat fd st k = (let k = k\<lparr>kc_stats := (kc_stats k)(st \<mapsto> zero_stat)\<rparr> in
     if fd = 0 then (0, k\<lparr>kc_stats := (kc_stats k)(st \<mapsto> file_stat 0x1a4 (0 :: u64))\<rparr>)
     else if fd = 1 then (0, k\<lparr>kc_stats := (kc_stats k)(st \<mapsto> file_stat 0x1a4 (4096 :: u64))\<rparr>)
     else (- 1, k))"

definition kern_brk :: "u64 \<Rightarrow> KernelCalls \<Rightarrow> u64 \<times> KernelCalls" where
  "kern_brk addr k =
     (if addr = 0 then (kc_heap_brk k, k)
      else let k = (if addr > kc_heap_brk k \<and> addr \<le> kc_heap k + KERNEL_HEAP_SIZE then k\<lparr>kc_heap_brk := addr\<rparr> else k)
      in (kc_heap_brk k, k))"

definition kern_arch_prctl :: "u32 \<Rightarrow> u64 \<Rightarrow> KernelCalls \<Rightarrow> u64 \<times> KernelCalls" where
  "kern_arch_prctl code addr k = (if code = ARCH_SET_FS then (0, k\<lparr>kc_fs := addr\<rparr>) else (- 1, k))"

text \<open>The handler; \<open>tkill\<close>, the end of an abort, reboots the machine.\<close>

datatype kern_result = KRet u64 | KReboot

definition kret :: "u64 \<times> KernelCalls \<Rightarrow> kern_result \<times> KernelCalls" where
  "kret r = (case r of (v, k) \<Rightarrow> (KRet v, k))"

definition kern_syscall_handler :: "u64 \<Rightarrow> u64 \<Rightarrow> u64 \<Rightarrow> u64 \<Rightarrow> KernelCalls \<Rightarrow> (kern_result \<times> KernelCalls) option" where
  "kern_syscall_handler a1 a2 a3 n k =
     (if n = 12 then Some (kret (kern_brk a1 k))
      else if n = 158 then Some (kret (kern_arch_prctl (ucast a1) a2 k))
      else if n = 1 then map_option kret (kern_write (ucast a1) a2 a3 k)
      else if n = 20 then map_option kret (kern_writev (ucast a1) a2 (ucast a3) k)
      else if n = 16 then Some (KRet 0, k)
      else if n = 5 then Some (kret (kern_fstat (ucast a1) a2 k))
      else if n = 14 \<or> n = 13 \<or> n = 131 then Some (KRet 0, k)
      else if n = 218 then Some (KRet 12345, k)
      else if n = 200 then Some (KReboot, k)
      else Some (KRet (- 1), k))"

section \<open>Scrolling\<close>

definition screen_ok :: "screen \<Rightarrow> bool" where
  "screen_ok b \<longleftrightarrow> length b = BUFFER_HEIGHT \<and> (\<forall>r \<in> set b. length r = BUFFER_WIDTH)"

lemma screen_row: "screen_ok b \<Longrightarrow> i < BUFFER_HEIGHT \<Longrightarrow> length (b ! i) = BUFFER_WIDTH"
  by (simp add: screen_ok_def)

lemma screen_ok_update: "screen_ok b \<Longrightarrow> length r = BUFFER_WIDTH \<Longrightarrow> screen_ok (b[i := r])"
  by (auto simp: screen_ok_def dest!: subsetD[OF set_update_subset_insert])

lemma screen_write_ok:
  "screen_ok b \<Longrightarrow> row < BUFFER_HEIGHT \<Longrightarrow> col < BUFFER_WIDTH \<Longrightarrow> screen_write row col s b = Some (b[row := (b ! row)[col := s]])"
  using screen_row[of b row] by (simp add: screen_write_def rd_def wr_def screen_ok_def)

lemma fill_take: "i < length r \<Longrightarrow> length xs = length r \<Longrightarrow> (take i xs @ drop i r)[i := xs ! i] = take (Suc i) xs @ drop (Suc i) r"
  by (auto intro!: nth_equalityI simp: nth_append nth_list_update min_def less_Suc_eq)

text \<open>Filling a row cell by cell, from cells that do not change on the way.\<close>

lemma fill_row:
  assumes ok: "screen_ok b" and row: "row < BUFFER_HEIGHT" and len: "length xs = BUFFER_WIDTH"
    and f: "\<And>col r. col < BUFFER_WIDTH \<Longrightarrow> length r = BUFFER_WIDTH \<Longrightarrow>
      f col (b[row := r]) = screen_write row col (xs ! col) (b[row := r])"
  shows "for_opt f [0..<BUFFER_WIDTH] b = Some (b[row := xs])"
proof -
  have hl: "row < length b" using ok row by (simp add: screen_ok_def)
  have "\<exists>b'. for_opt f [0..<BUFFER_WIDTH] b = Some b' \<and> b' = b[row := take BUFFER_WIDTH xs @ drop BUFFER_WIDTH (b ! row)]"
  proof (rule for_opt_upt_inv[where P = "\<lambda>i b'. b' = b[row := take i xs @ drop i (b ! row)]"])
    fix i b' assume i: "i < BUFFER_WIDTH" and b': "b' = b[row := take i xs @ drop i (b ! row)]"
    let ?r = "take i xs @ drop i (b ! row)"
    have r: "length ?r = BUFFER_WIDTH" using i len screen_row[OF ok row] by simp
    have "f i b' = Some (b[row := ?r[i := xs ! i]])"
      unfolding b' f[OF i r] using screen_write_ok[OF screen_ok_update[OF ok r] row i] hl by simp
    then show "\<exists>s'. f i b' = Some s' \<and> s' = b[row := take (Suc i) xs @ drop (Suc i) (b ! row)]"
      using fill_take[of i "b ! row" xs] i len screen_row[OF ok row] by simp
  qed simp_all
  then show ?thesis using len screen_row[OF ok row] by simp
qed

lemma scroll_row_copies:
  assumes ok: "screen_ok b" and row: "0 < row" "row < BUFFER_HEIGHT"
  shows "scroll_row row b = Some (b[row - 1 := b ! row])"
  unfolding scroll_row_def
proof (rule fill_row[OF ok])
  fix col and r :: "ScreenChar list" assume c: "col < BUFFER_WIDTH" "length r = BUFFER_WIDTH"
  have "screen_read row col (b[row - 1 := r]) = Some (b ! row ! col)"
    using row c screen_row[OF ok row(2)] ok by (simp add: screen_read_def rd_def screen_ok_def)
  then show "screen_read row col (b[row - 1 := r]) \<bind> (\<lambda>s. screen_write (row - 1) col s (b[row - 1 := r])) =
      screen_write (row - 1) col (b ! row ! col) (b[row - 1 := r])" by simp
qed (use row screen_row[OF ok row(2)] in simp_all)

text \<open>The loops over rows and columns drop the first row and add a blank one.\<close>

lemma scroll_all:
  assumes "screen_ok (r # bs)"
  shows "for_opt scroll_row [1..<BUFFER_HEIGHT] (r # bs) = Some (bs @ [last (r # bs)])"
proof -
  let ?P = "\<lambda>i c. screen_ok c \<and> c = take (i - 1) bs @ drop (i - 1) (r # bs)"
  have l: "length bs = 24" using assms by (simp add: screen_ok_def BUFFER_HEIGHT_def)
  have "\<exists>c. for_opt scroll_row [1..<BUFFER_HEIGHT] (r # bs) = Some c \<and> ?P BUFFER_HEIGHT c"
  proof (rule for_opt_upt_inv)
    fix i c assume i: "1 \<le> i" "i < BUFFER_HEIGHT" and P: "?P i c"
    then obtain k where k: "i = Suc k" "k < 24" by (cases i) (simp_all add: BUFFER_HEIGHT_def)
    have n: "c ! i = bs ! k" using P k l by (simp add: nth_append)
    have "c[k := bs ! k] = take (Suc k) bs @ drop (Suc k) (r # bs)"
      using P k l by (auto intro!: nth_equalityI simp: nth_append nth_list_update nth_Cons' less_Suc_eq)
    moreover have "screen_ok (c[k := bs ! k])" using P screen_row[of c i] i n by (intro screen_ok_update) auto
    ultimately show "\<exists>s'. scroll_row i c = Some s' \<and> ?P (Suc i) s'"
      using scroll_row_copies[of c i] conjunct1[OF P] i n k by auto
  qed (use assms in \<open>simp_all add: BUFFER_HEIGHT_def\<close>)
  moreover have "drop (BUFFER_HEIGHT - 1) (r # bs) = [last (r # bs)]"
    using l by (cases bs rule: rev_cases) (simp_all add: BUFFER_HEIGHT_def)
  ultimately show ?thesis using l by (auto simp: BUFFER_HEIGHT_def)
qed

lemma new_line_scrolls:
  assumes ok: "screen_ok (chars w)"
  shows "new_line w = Some (w\<lparr>column_position := 0,
    chars := tl (chars w) @ [replicate BUFFER_WIDTH \<lparr>ascii_character = 32, sc_color_code = color_code w\<rparr>]\<rparr>)"
proof -
  obtain r bs where b: "chars w = r # bs" using ok by (cases "chars w") (auto simp: screen_ok_def BUFFER_HEIGHT_def)
  let ?c = "bs @ [last (r # bs)]"
  have l: "length bs = 24" using ok by (simp add: b screen_ok_def BUFFER_HEIGHT_def)
  have c: "screen_ok ?c" using ok by (auto simp: b screen_ok_def)
  have "for_opt (\<lambda>col b. screen_write (BUFFER_HEIGHT - 1) col s b) [0..<BUFFER_WIDTH] ?c = Some (?c[BUFFER_HEIGHT - 1 := replicate BUFFER_WIDTH s])" for s
    by (rule fill_row[OF c]) (simp_all add: BUFFER_HEIGHT_def)
  moreover have "?c[BUFFER_HEIGHT - 1 := x] = bs @ [x]" for x using l by (simp add: BUFFER_HEIGHT_def list_update_append)
  ultimately show ?thesis using scroll_all[of r bs] ok by (simp add: new_line_def clear_row_def b)
qed

text \<open>The screen as a terminal: the finished lines and the line that is being written.\<close>

definition blank_char :: "u8 \<Rightarrow> ScreenChar" where
  "blank_char col = \<lparr>ascii_character = 32, sc_color_code = col\<rparr>"

definition padded :: "u8 \<Rightarrow> ScreenChar list \<Rightarrow> ScreenChar list" where
  "padded col line = line @ replicate (BUFFER_WIDTH - length line) (blank_char col)"

fun term_put :: "u8 \<Rightarrow> u8 \<Rightarrow> screen \<times> ScreenChar list \<Rightarrow> screen \<times> ScreenChar list" where
  "term_put col c (ls, line) =
     (if c = 10 then (ls @ [padded col line], [])
      else if length line \<ge> BUFFER_WIDTH then (ls @ [padded col line], [\<lparr>ascii_character = c, sc_color_code = col\<rparr>])
      else (ls, line @ [\<lparr>ascii_character = c, sc_color_code = col\<rparr>]))"

definition displays :: "Writer \<Rightarrow> screen \<times> ScreenChar list \<Rightarrow> bool" where
  "displays w t \<longleftrightarrow> length (fst t) \<ge> 24 \<and> length (snd t) \<le> BUFFER_WIDTH \<and> (\<forall>l \<in> set (fst t). length l = BUFFER_WIDTH) \<and>
     column_position w = length (snd t) \<and> chars w = drop (length (fst t) - 24) (fst t) @ [padded (color_code w) (snd t)]"

lemma displays_ok: "displays w t \<Longrightarrow> screen_ok (chars w)"
  by (auto simp: displays_def screen_ok_def padded_def BUFFER_HEIGHT_def dest: in_set_dropD)

lemma displays_new_line:
  assumes "displays w (ls, line)"
  shows "\<exists>w'. new_line w = Some w' \<and> displays w' (ls @ [padded (color_code w) line], []) \<and> color_code w' = color_code w"
proof -
  have l: "24 \<le> length ls" using assms by (simp add: displays_def)
  have "tl (drop (length ls - 24) ls @ [padded (color_code w) line]) = drop (length ls + 1 - 24) (ls @ [padded (color_code w) line])"
    using l drop_Suc[of "length ls - 24" ls] tl_drop[of "length ls - 24" ls] by (cases "drop (length ls - 24) ls") (simp_all add: Suc_diff_le[symmetric])
  then show ?thesis
    using new_line_scrolls[OF displays_ok[OF assms]] assms by (auto simp: displays_def padded_def blank_char_def)
qed

definition put_char :: "u8 \<Rightarrow> Writer \<Rightarrow> Writer option" where
  "put_char c w = do {
     b \<leftarrow> screen_write (BUFFER_HEIGHT - 1) (column_position w) \<lparr>ascii_character = c, sc_color_code = color_code w\<rparr> (chars w);
     Some (w\<lparr>chars := b, column_position := column_position w + 1\<rparr>)
   }"

lemma put_char_displays:
  assumes v: "displays v (ls, line)" "length line < BUFFER_WIDTH"
  shows "\<exists>w'. put_char c v = Some w' \<and>
    displays w' (ls, line @ [\<lparr>ascii_character = c, sc_color_code = color_code v\<rparr>]) \<and> color_code w' = color_code v"
proof -
  let ?x = "\<lparr>ascii_character = c, sc_color_code = color_code v\<rparr>"
  let ?top = "drop (length ls - 24) ls"
  have top: "length ?top = 24" using v by (simp add: displays_def)
  have ch: "chars v = ?top @ [padded (color_code v) line]" "column_position v = length line" using v by (simp_all add: displays_def)
  have row: "(padded (color_code v) line)[length line := ?x] = padded (color_code v) (line @ [?x])"
    using v(2) by (auto simp: padded_def list_update_append Suc_diff_Suc[symmetric] simp del: Suc_diff_Suc)
  have "screen_write (BUFFER_HEIGHT - 1) (length line) ?x (chars v) = Some (?top @ [padded (color_code v) (line @ [?x])])"
    using screen_write_ok[OF displays_ok[OF v(1)], of "BUFFER_HEIGHT - 1" "length line" ?x] v(2) top
    by (simp add: ch BUFFER_HEIGHT_def list_update_append nth_append row)
  then show ?thesis using v ch(2) by (auto simp: displays_def put_char_def)
qed

text \<open>A byte is added to the terminal, and the screen shows its last 25 lines.\<close>

lemma write_byte_displays:
  assumes d: "displays w t"
  shows "\<exists>w'. write_byte c w = Some w' \<and> displays w' (term_put (color_code w) c t) \<and> color_code w' = color_code w"
proof -
  obtain ls line where t: "t = (ls, line)" by (cases t)
  have wb: "write_byte c w = (if c = 10 then new_line w else (if column_position w \<ge> BUFFER_WIDTH then new_line w else Some w) \<bind> put_char c)"
    by (simp add: write_byte_def put_char_def[abs_def])
  have col: "column_position w = length line" using d by (simp add: t displays_def)
  from displays_new_line[OF d[unfolded t]] obtain w1 where w1: "new_line w = Some w1"
    "displays w1 (ls @ [padded (color_code w) line], [])" "color_code w1 = color_code w" by blast
  show ?thesis
  proof (cases "length line < BUFFER_WIDTH")
    case True
    then show ?thesis using put_char_displays[OF d[unfolded t] True, of c] w1 by (auto simp: wb col t)
  next
    case False
    then show ?thesis using put_char_displays[OF w1(2), of c] w1 by (auto simp: wb col t BUFFER_WIDTH_def)
  qed
qed

lemma write_buf_displays:
  assumes "displays w t"
  shows "\<exists>w'. write_buf s w = Some w' \<and> displays w' (fold (term_put (color_code w)) s t) \<and> color_code w' = color_code w"
  unfolding write_buf_def using assms
proof (induction s arbitrary: w t)
  case (Cons c s)
  from write_byte_displays[OF Cons.prems, of c] obtain w1 where w1: "write_byte c w = Some w1"
    "displays w1 (term_put (color_code w) c t)" "color_code w1 = color_code w" by blast
  with Cons.IH[OF w1(2)] show ?case by simp
qed simp

text \<open>A screen whose last row was cleared is a terminal with 24 finished lines.\<close>

lemma fresh_displays:
  assumes "length rows = 24" "\<forall>r \<in> set rows. length r = BUFFER_WIDTH" "chars w = rows @ [padded (color_code w) []]" "column_position w = 0"
  shows "displays w (rows, [])"
  using assms by (simp add: displays_def)

section \<open>The other parts\<close>

text \<open>Whatever the colours are, nothing that is written leaves the screen.\<close>

definition writer_ok :: "Writer \<Rightarrow> bool" where
  "writer_ok w \<longleftrightarrow> screen_ok (chars w) \<and> column_position w \<le> BUFFER_WIDTH"

lemma new_line_ok: "writer_ok w \<Longrightarrow> \<exists>w'. new_line w = Some w' \<and> writer_ok w' \<and> color_code w' = color_code w \<and> column_position w' = 0"
  using new_line_scrolls[of w]
  by (auto simp: writer_ok_def screen_ok_def BUFFER_HEIGHT_def dest: list.set_sel(2)[rotated])

lemma put_char_ok:
  assumes "writer_ok w" "column_position w < BUFFER_WIDTH"
  shows "\<exists>w'. put_char c w = Some w' \<and> writer_ok w' \<and> color_code w' = color_code w"
proof -
  have s: "screen_ok (chars w)" using assms by (simp add: writer_ok_def)
  have "length (chars w ! 24) = BUFFER_WIDTH" using screen_row[OF s, of 24] by (simp add: BUFFER_HEIGHT_def)
  then show ?thesis
    using screen_write_ok[OF s, of 24 "column_position w"] screen_ok_update[OF s] assms
    by (simp add: put_char_def writer_ok_def BUFFER_HEIGHT_def)
qed

lemma write_byte_ok:
  assumes "writer_ok w"
  shows "\<exists>w'. write_byte c w = Some w' \<and> writer_ok w' \<and> color_code w' = color_code w"
proof -
  have wb: "write_byte c w = (if c = 10 then new_line w else (if column_position w \<ge> BUFFER_WIDTH then new_line w else Some w) \<bind> put_char c)"
    by (simp add: write_byte_def put_char_def[abs_def])
  from new_line_ok[OF assms] obtain w1 where w1: "new_line w = Some w1" "writer_ok w1" "color_code w1 = color_code w" "column_position w1 = 0" by blast
  have "\<exists>w'. put_char c w1 = Some w' \<and> writer_ok w' \<and> color_code w' = color_code w1"
    by (rule put_char_ok[OF w1(2)]) (simp add: w1(4) BUFFER_WIDTH_def)
  then show ?thesis using w1 put_char_ok[OF assms, of c] by (auto simp: wb not_le)
qed

lemma write_buf_ok: "writer_ok w \<Longrightarrow> \<exists>w'. for_opt write_byte s w = Some w' \<and> writer_ok w' \<and> color_code w' = color_code w"
proof (induction s arbitrary: w)
  case (Cons c s)
  from write_byte_ok[OF Cons.prems, of c] obtain w1 where w1: "write_byte c w = Some w1" "writer_ok w1" "color_code w1 = color_code w" by blast
  with Cons.IH[OF w1(2)] show ?case by simp
qed simp

lemma kern_write_total:
  assumes "writer_ok (kc_writer k)" "area buf (unat len) \<subseteq> dom (kc_mem k)"
  shows "\<exists>r k'. kern_write fd buf len k = Some (r, k') \<and> writer_ok (kc_writer k')"
proof -
  from uread_defined[OF assms(2)] obtain bs where "uread (unat len) buf (kc_mem k) = Some bs" by blast
  with write_buf_ok[OF assms(1), of bs] assms(1) show ?thesis by (auto simp: kern_write_def write_buf_def)
qed

text \<open>The kernel's heap stays inside of its array.\<close>

lemma kern_brk_bounds:
  assumes "kc_heap_brk k \<le> kc_heap k + KERNEL_HEAP_SIZE" "kern_brk a k = (r, k')"
  shows "r = kc_heap_brk k' \<and> kc_heap_brk k \<le> r \<and> r \<le> kc_heap k' + KERNEL_HEAP_SIZE"
  using assms by (auto simp: kern_brk_def Let_def split: if_splits)

text \<open>A byte always reaches the serial port, after at most 12800 polls.\<close>

lemma serial_wait_log: "out_log (serial_wait inb n p) = out_log p"
proof (induction n arbitrary: p)
  case (Suc n)
  have "out_log (serial_delay inb q) = out_log q" for q by (simp add: serial_delay_def do_inb_def numeral_eq_Suc)
  with Suc show ?case by (simp add: do_inb_def)
qed simp

lemma serial_write_buf_log: "out_log (serial_write_buf inb s p) = out_log p @ map (Pair COM1) s"
  unfolding serial_write_buf_def
  by (induction s arbitrary: p) (simp_all add: serial_putc_def outb_def serial_wait_log)

lemma console_print_ok:
  assumes "writer_ok (writer c)"
  shows "\<exists>c'. console_print s c = Some c' \<and> writer_ok (writer c') \<and> color_code (writer c') = color_code (writer c) \<and>
    logger_in_use c' = logger_in_use c \<and> log_level c' = log_level c"
  using write_buf_ok[OF assms, of "bytes_of_string s"] by (auto simp: console_print_def write_str_def)

text \<open>A log line outside of other loggers never fails and leaves the colour as it was.\<close>

lemma log_line_keeps_color:
  assumes ok: "writer_ok (writer c)" and free: "\<not> logger_in_use c"
  shows "\<exists>c'. log_line stamp level msg c = Some c' \<and> writer_ok (writer c') \<and> color_code (writer c') = color_code (writer c) \<and> \<not> logger_in_use c'"
proof (cases "level_value level > level_value (log_level c)")
  case True
  then show ?thesis using assms by (simp add: log_line_def)
next
  case False
  let ?c0 = "c\<lparr>writer := (writer c)\<lparr>color_code := level_color level\<rparr>, logger_saved_colorcode := color_code (writer c), logger_in_use := True\<rparr>"
  let ?l = "\<lparr>tl_name = level_name level, tl_mute = False, tl_saved_colorcode = color_code (writer c)\<rparr>"
  have "writer_ok (writer ?c0)" using ok by (simp add: writer_ok_def)
  from console_print_ok[OF this] obtain c1 where c1: "console_print (''['' @ stamp @ '']'') ?c0 = Some c1" "writer_ok (writer c1)" "logger_in_use c1"
    by fastforce
  from console_print_ok[OF c1(2)] c1(3) obtain c2 where c2: "console_print (''['' @ get_prefix (level_name level) @ ''] '') c1 = Some c2"
    "writer_ok (writer c2)" "logger_in_use c2" by blast
  from console_print_ok[OF c2(2)] c2(3) obtain c3 where c3: "console_print msg c2 = Some c3" "writer_ok (writer c3)" "logger_in_use c3" by blast
  have "writer_ok (writer (c3\<lparr>writer := (writer c3)\<lparr>color_code := color_code (writer c)\<rparr>, logger_in_use := False\<rparr>))"
    using c3(2) by (simp add: writer_ok_def)
  from console_print_ok[OF this, of "''\<newline>''"] obtain c4 where "drop_logger ?l c3 = Some c4"
    "writer_ok (writer c4)" "color_code (writer c4) = color_code (writer c)" "\<not> logger_in_use c4"
    using c3(3) by (auto simp: drop_logger_def)
  moreover have "get_logger stamp (level_color level) level (level_name level) c = Some (?l, c2)"
    using c1(1) c2(1) False free by (simp add: get_logger_def make_logger_def Let_def)
  ultimately show ?thesis using c3(1) False by (simp add: log_line_def)
qed

end
