(* ===== verification/Kern_Boot.thy ===== *)
theory Kern_Boot
  imports Kern_Console C_Scan
begin

text \<open>
  Start-up: the boot loader's information (\<open>lib/multiboot2_loader.cpp\<close>), the legacy interrupt controller (\<open>lib/pic.cpp\<close>) and the network
  configuration on the command line (\<open>lib/network_driver.cpp\<close>).

  The boot loader's tags lie in a byte memory. Walking them may not end, and then the value is \<^term>\<open>None\<close>, as for an address outside of the memory.
\<close>

section \<open>Boot information\<close>

definition MULTIBOOT_TAG_TYPE_END :: u32 where "MULTIBOOT_TAG_TYPE_END = 0"
definition MULTIBOOT_TAG_TYPE_CMDLINE :: u32 where "MULTIBOOT_TAG_TYPE_CMDLINE = 1"
definition MULTIBOOT_TAG_TYPE_MMAP :: u32 where "MULTIBOOT_TAG_TYPE_MMAP = 6"
definition MULTIBOOT_MEMORY_AVAILABLE :: u32 where "MULTIBOOT_MEMORY_AVAILABLE = 1"
definition MAX_LENGTH :: nat where "MAX_LENGTH = 256"

record Boot =
  boot_pm :: PM
  command_line :: bytes

text \<open>The huge pages of one entry of the memory map; \<open>ebss\<close> is the end of the kernel.\<close>

definition available_range :: "u64 \<Rightarrow> u64 \<Rightarrow> u64 \<Rightarrow> u64 \<times> u64" where
  "available_range ebss addr len = (
     let start = round_up addr HUGE_PAGE_SIZE;
         fin = round_down (addr + len) HUGE_PAGE_SIZE;
         start = (if start < ebss then round_up ebss HUGE_PAGE_SIZE else start)
     in (start, fin))"

definition register_range :: "u64 \<Rightarrow> u64 \<Rightarrow> PM \<Rightarrow> PM option" where
  "register_range start fin m =
     for_opt (\<lambda>i. register_available_huge_page (start + of_nat i * HUGE_PAGE_SIZE))
       [0..<(unat fin - unat start + (unat HUGE_PAGE_SIZE - 1)) div unat HUGE_PAGE_SIZE] m"

definition load_entry :: "u64 \<Rightarrow> 64 mem \<Rightarrow> u64 \<Rightarrow> PM \<Rightarrow> PM option" where
  "load_entry ebss mem e m = do {
     addr \<leftarrow> uget e mem;
     len \<leftarrow> uget (e + 8) mem;
     ty \<leftarrow> uget (e + 16) mem;
     if ty = MULTIBOOT_MEMORY_AVAILABLE then (case available_range ebss addr len of (s, f) \<Rightarrow> register_range s f m) else Some m
   }"

text \<open>The loop over the entries, until the address behind the tag is met exactly.\<close>

partial_function (option) load_entries :: "u64 \<Rightarrow> 64 mem \<Rightarrow> u64 \<Rightarrow> u64 \<Rightarrow> u64 \<Rightarrow> PM \<Rightarrow> PM option" where
  "load_entries ebss mem entry_size fin e m =
     (if e = fin then Some m
      else case load_entry ebss mem e m of None \<Rightarrow> None
      | Some m \<Rightarrow> load_entries ebss mem entry_size fin (e + entry_size) m)"

definition load_mmap :: "u64 \<Rightarrow> 64 mem \<Rightarrow> u64 \<Rightarrow> PM \<Rightarrow> PM option" where
  "load_mmap ebss mem tag m = do {
     sz \<leftarrow> (uget (tag + 4) mem :: u32 option);
     entry_size \<leftarrow> (uget (tag + 8) mem :: u32 option);
     load_entries ebss mem (ucast entry_size) (tag + ucast sz) (tag + 16) m
   }"

text \<open>\<open>strncpy\<close> stops at the end of the source or after \<open>n\<close> bytes and fills the rest with zeros.\<close>

primrec read_cstr :: "nat \<Rightarrow> u64 \<Rightarrow> 64 mem \<Rightarrow> bytes option" where
  "read_cstr 0 a mem = Some []"
| "read_cstr (Suc n) a mem = do { c \<leftarrow> mem a; if c = 0 then Some [] else do { cs \<leftarrow> read_cstr n (a + 1) mem; Some (c # cs) } }"

definition copy_command_line :: "64 mem \<Rightarrow> u64 \<Rightarrow> bytes \<Rightarrow> bytes option" where
  "copy_command_line mem src old = do {
     s \<leftarrow> read_cstr (MAX_LENGTH - 1) src mem;
     wr_range old 0 (s @ replicate (MAX_LENGTH - 1 - length s) 0)
   }"

definition load_tag :: "u64 \<Rightarrow> 64 mem \<Rightarrow> u64 \<Rightarrow> Boot \<Rightarrow> Boot option" where
  "load_tag ebss mem tag b = do {
     ty \<leftarrow> uget tag mem;
     if ty = MULTIBOOT_TAG_TYPE_MMAP then do { m \<leftarrow> load_mmap ebss mem tag (boot_pm b); Some (b\<lparr>boot_pm := m\<rparr>) }
     else if ty = MULTIBOOT_TAG_TYPE_CMDLINE then do { s \<leftarrow> copy_command_line mem (tag + 8) (command_line b); Some (b\<lparr>command_line := s\<rparr>) }
     else Some b
   }"

definition next_tag :: "64 mem \<Rightarrow> u64 \<Rightarrow> u64 option" where
  "next_tag mem tag = do { sz \<leftarrow> (uget (tag + 4) mem :: u32 option); Some (tag + 8 * ucast ((sz + 7) div 8)) }"

partial_function (option) load_tags :: "u64 \<Rightarrow> 64 mem \<Rightarrow> u64 \<Rightarrow> Boot \<Rightarrow> Boot option" where
  "load_tags ebss mem tag b = (case uget tag mem of None \<Rightarrow> None | Some ty \<Rightarrow>
     if ty = MULTIBOOT_TAG_TYPE_END then Some b
     else case load_tag ebss mem tag b of None \<Rightarrow> None | Some b \<Rightarrow>
       (case next_tag mem tag of None \<Rightarrow> None | Some tag \<Rightarrow> load_tags ebss mem tag b))"

definition multiboot_load :: "u64 \<Rightarrow> 64 mem \<Rightarrow> u32 \<Rightarrow> Boot \<Rightarrow> Boot option" where
  "multiboot_load ebss mem multiboot_addr b = load_tags ebss mem (ucast multiboot_addr + 8) b"

section \<open>The legacy interrupt controller\<close>

definition IO_PIC1 :: u16 where "IO_PIC1 = 0x20"
definition IO_PIC2 :: u16 where "IO_PIC2 = 0xA0"
definition IRQ_SLAVE :: nat where "IRQ_SLAVE = 2"
definition PIC_IRQ_OFFSET :: u8 where "PIC_IRQ_OFFSET = 32"

record Pic =
  mask_8259A :: u16
  did_init :: bool
  pic_ports :: Ports

definition pic_start :: "Ports \<Rightarrow> Pic" where
  "pic_start p = \<lparr>mask_8259A = 0xFFFF AND NOT (push_bit IRQ_SLAVE 1), did_init = False, pic_ports = p\<rparr>"

definition pic_out :: "u16 \<Rightarrow> u8 \<Rightarrow> Pic \<Rightarrow> Pic" where
  "pic_out port v p = p\<lparr>pic_ports := outb port v (pic_ports p)\<rparr>"

definition set_mask_8259A :: "u16 \<Rightarrow> Pic \<Rightarrow> Pic" where
  "set_mask_8259A msk p = (let p = p\<lparr>mask_8259A := msk\<rparr> in
     if \<not> did_init p then p
     else pic_out (IO_PIC2 + 1) (ucast (drop_bit 8 msk)) (pic_out (IO_PIC1 + 1) (ucast msk) p))"

definition pic_eoi :: "Pic \<Rightarrow> Pic" where
  "pic_eoi p = pic_out IO_PIC2 0x20 (pic_out IO_PIC1 0x20 p)"

text \<open>The shift is one of a 32-bit integer, so numbers from 16 on change nothing that is kept.\<close>

definition pic_enable :: "u8 \<Rightarrow> Pic \<Rightarrow> Pic option" where
  "pic_enable irq p = do { c_assert (irq < 32); Some (set_mask_8259A (ucast (ucast (mask_8259A p) AND NOT (push_bit (unat irq) 1 :: u32))) p) }"

definition pic_disable :: "u8 \<Rightarrow> Pic \<Rightarrow> Pic option" where
  "pic_disable irq p = do { c_assert (irq < 32); Some (set_mask_8259A (ucast (ucast (mask_8259A p) OR (push_bit (unat irq) 1 :: u32))) p) }"

definition pic_init :: "Pic \<Rightarrow> Pic" where
  "pic_init p = (
     let p = p\<lparr>did_init := True\<rparr>;
         p = pic_out (IO_PIC1 + 1) 0xFF p;
         p = pic_out (IO_PIC2 + 1) 0xFF p;
         p = pic_out IO_PIC1 0x11 p;
         p = pic_out (IO_PIC1 + 1) PIC_IRQ_OFFSET p;
         p = pic_out (IO_PIC1 + 1) (push_bit IRQ_SLAVE 1) p;
         p = pic_out (IO_PIC1 + 1) 0x3 p;
         p = pic_out IO_PIC2 0x11 p;
         p = pic_out (IO_PIC2 + 1) (PIC_IRQ_OFFSET + 8) p;
         p = pic_out (IO_PIC2 + 1) (of_nat IRQ_SLAVE) p;
         p = pic_out (IO_PIC2 + 1) 0x01 p;
         p = pic_out IO_PIC1 0x68 p;
         p = pic_out IO_PIC1 0x0a p;
         p = pic_out IO_PIC2 0x68 p;
         p = pic_out IO_PIC2 0x0a p
     in if mask_8259A p \<noteq> 0xFFFF then set_mask_8259A (mask_8259A p) p else p)"

section \<open>The network configuration\<close>

record NetConfig =
  nc_ip :: "u8 list"
  nc_mac :: "u8 list"
  nc_gateway :: "u8 list"
  nc_prefix_len :: u8
  nc_server_ip :: "u8 list"
  nc_do_not_send_answer :: bool

record Valid =
  has_valid_ip :: bool
  has_valid_mac :: bool
  has_valid_gateway :: bool
  has_valid_prefix_len :: bool
  has_valid_server_ip :: bool

definition no_valid :: Valid where
  "no_valid = \<lparr>has_valid_ip = False, has_valid_mac = False, has_valid_gateway = False, has_valid_prefix_len = False, has_valid_server_ip = False\<rparr>"

text \<open>The bytes that a scan assigned overwrite the first ones of the array, also when it fails half-way.\<close>

definition assigned :: "Val list \<Rightarrow> u8 list \<Rightarrow> u8 list" where
  "assigned vs old = map (\<lambda>v. case v of Num w \<Rightarrow> ucast w | Txt _ \<Rightarrow> 0) vs @ drop (length vs) old"

definition read_ip :: "bytes \<Rightarrow> u8 list \<Rightarrow> bool \<times> u8 list" where
  "read_ip s old = (let vs = sscanf (fmt ''%hhu.%hhu.%hhu.%hhu'') s in (length vs = 4, assigned vs old))"

definition read_mac :: "bytes \<Rightarrow> u8 list \<Rightarrow> bool \<times> u8 list" where
  "read_mac s old = (let vs = sscanf (fmt ''%hhx:%hhx:%hhx:%hhx:%hhx:%hhx'') s in (length vs = 6, assigned vs old))"

definition scan_word :: "string \<Rightarrow> bytes \<Rightarrow> bytes option" where
  "scan_word f s = (case sscanf (fmt f) s of [Txt w] \<Rightarrow> Some w | _ \<Rightarrow> None)"

text \<open>One setting.\<close>

definition read_setting :: "bytes \<Rightarrow> NetConfig \<times> Valid \<Rightarrow> NetConfig \<times> Valid" where
  "read_setting buf cv = (case cv of (c, v) \<Rightarrow>
     case scan_word '' ip = %s '' buf of
       Some w \<Rightarrow> (case read_ip w (nc_ip c) of (ok, a) \<Rightarrow> (c\<lparr>nc_ip := a\<rparr>, v\<lparr>has_valid_ip := ok\<rparr>))
     | None \<Rightarrow>
     (case scan_word '' mac = %s '' buf of
       Some w \<Rightarrow> (case read_mac w (nc_mac c) of (ok, a) \<Rightarrow> (c\<lparr>nc_mac := a\<rparr>, v\<lparr>has_valid_mac := ok\<rparr>))
     | None \<Rightarrow>
     (case scan_word '' gateway = %s '' buf of
       Some w \<Rightarrow> (case read_ip w (nc_gateway c) of (ok, a) \<Rightarrow> (c\<lparr>nc_gateway := a\<rparr>, v\<lparr>has_valid_gateway := ok\<rparr>))
     | None \<Rightarrow>
     (case sscanf (fmt '' prefix_len = %hhu '') buf of
       [Num n] \<Rightarrow> (c\<lparr>nc_prefix_len := ucast n\<rparr>, v\<lparr>has_valid_prefix_len := (ucast n :: u8) \<le> 32\<rparr>)
     | _ \<Rightarrow>
     (case scan_word '' server_ip = %s'' buf of
       Some w \<Rightarrow> (case read_ip w (nc_server_ip c) of (ok, a) \<Rightarrow> (c\<lparr>nc_server_ip := a\<rparr>, v\<lparr>has_valid_server_ip := ok\<rparr>))
     | None \<Rightarrow>
     (case scan_word '' do_not_send_answer = %s'' buf of
       Some w \<Rightarrow> (case sscanf (fmt ''%d'') w of [Num n] \<Rightarrow> (c\<lparr>nc_do_not_send_answer := (ucast n :: u32) \<noteq> 0\<rparr>, v) | _ \<Rightarrow> (c, v))
     | None \<Rightarrow> (c, v)))))))"

text \<open>The loop over the settings. Behind a word the next character is skipped, whatever it is; an index behind the array is a fault.\<close>

function config_loop :: "bytes \<Rightarrow> nat \<Rightarrow> NetConfig \<times> Valid \<Rightarrow> (NetConfig \<times> Valid) option" where
  "config_loop cmd ch cv =
     (if ch \<ge> length cmd then None
      else if cmd ! ch = 0 then Some cv
      else if cmd ! ch = 32 then config_loop cmd (Suc ch) cv
      else let w = takeWhile (\<lambda>c. c \<noteq> 0 \<and> c \<noteq> 32 \<and> c \<noteq> 9) (take (MAX_LENGTH - 1) (drop ch cmd)); ch' = ch + length w in
        if ch' \<ge> length cmd then None
        else config_loop cmd (Suc ch') (read_setting w cv))"
  by pat_completeness auto
termination by (relation "measure (\<lambda>(cmd, ch, _). length cmd - ch)") auto

declare config_loop.simps [simp del]

definition DEFAULT_MAC :: "u8 list" where "DEFAULT_MAC = [0x52, 0x54, 0x00, 0x12, 0x34, 0x56]"

text \<open>The outcome: not a configuration, the configuration, or a reboot because the server is missing.\<close>

datatype config_result = Invalid NetConfig | Valid_config NetConfig | Config_reboot

definition read_network_config :: "bytes \<Rightarrow> NetConfig \<Rightarrow> config_result option" where
  "read_network_config cmdline c = do {
     (c, v) \<leftarrow> config_loop cmdline 0 (c, no_valid);
     if \<not> has_valid_ip v \<or> \<not> has_valid_gateway v \<or> \<not> has_valid_prefix_len v then Some (Invalid c)
     else let c = (if has_valid_mac v then c else c\<lparr>nc_mac := DEFAULT_MAC\<rparr>) in
       if \<not> has_valid_server_ip v then Some Config_reboot else Some (Valid_config c)
   }"

definition default_config :: "NetConfig \<Rightarrow> NetConfig" where
  "default_config c = c\<lparr>nc_ip := [10, 0, 2, 123], nc_mac := DEFAULT_MAC, nc_gateway := [0, 0, 0, 0], nc_prefix_len := 0\<rparr>"

section \<open>Facts\<close>

text \<open>Tags that end in an end tag are loaded one after the other.\<close>

fun tag_chain :: "64 mem \<Rightarrow> u64 \<Rightarrow> u64 list \<Rightarrow> bool" where
  "tag_chain mem a [] \<longleftrightarrow> uget a mem = Some MULTIBOOT_TAG_TYPE_END"
| "tag_chain mem a (t # ts) \<longleftrightarrow> a = t \<and> (\<exists>ty. uget a mem = Some ty \<and> ty \<noteq> MULTIBOOT_TAG_TYPE_END) \<and>
     (case next_tag mem a of None \<Rightarrow> False | Some b \<Rightarrow> tag_chain mem b ts)"

lemma load_tags_chain: "tag_chain mem a ts \<Longrightarrow> load_tags ebss mem a b = for_opt (load_tag ebss mem) ts b"
proof (induction ts arbitrary: a b)
  case Nil
  then show ?case by (subst load_tags.simps) simp
next
  case (Cons t ts)
  then obtain ty a' where t: "a = t" "uget a mem = Some ty" "ty \<noteq> MULTIBOOT_TAG_TYPE_END" "next_tag mem a = Some a'" "tag_chain mem a' ts"
    by (auto split: option.splits)
  show ?case
    by (subst load_tags.simps) (use t Cons.IH[OF t(5)] in \<open>auto split: option.splits\<close>)
qed

lemma for_opt_map: "for_opt f (map g xs) s = for_opt (\<lambda>x. f (g x)) xs s"
  by (induction xs arbitrary: s) (auto intro!: Option.bind_cong)

lemma load_entries_steps:
  assumes "fin = e + of_nat n * sz" "\<forall>k < n. e + of_nat k * sz \<noteq> fin"
  shows "load_entries ebss mem sz fin e m = for_opt (\<lambda>k. load_entry ebss mem (e + of_nat k * sz)) [0..<n] m"
  using assms
proof (induction n arbitrary: e m)
  case 0
  then show ?case by (subst load_entries.simps) simp
next
  case (Suc n)
  have ne: "e \<noteq> fin" using Suc.prems(2) by (metis add.right_neutral mult_zero_left of_nat_0 zero_less_Suc)
  have step: "e + sz + of_nat k * sz = e + of_nat (Suc k) * sz" for k by (simp add: algebra_simps)
  have "load_entries ebss mem sz fin (e + sz) m' = for_opt (\<lambda>k. load_entry ebss mem (e + of_nat (Suc k) * sz)) [0..<n] m'" for m'
    unfolding step[symmetric] by (rule Suc.IH) (use Suc.prems step in \<open>auto simp: algebra_simps\<close>)
  moreover have "for_opt f [0..<Suc n] s = f 0 s \<bind> for_opt (\<lambda>k. f (Suc k)) [0..<n]" for f and s :: PM
  proof -
    have "for_opt f [Suc 0..<Suc n] = for_opt (\<lambda>k. f (Suc k)) [0..<n]"
      using for_opt_map[of f Suc "[0..<n]"] by (intro ext) (simp add: map_Suc_upt del: upt_Suc)
    then show ?thesis by (simp add: upt_conv_Cons del: upt_Suc)
  qed
  ultimately show ?case using ne by (subst load_entries.simps) (simp split: option.split)
qed

text \<open>A command line that leaves two zeros at the end of its array is read without a fault, one that fills the array is not.\<close>

lemma config_loop_total:
  assumes "length cmd = n + 2" "cmd ! n = 0" "cmd ! Suc n = 0" "ch \<le> Suc n"
  shows "\<exists>r. config_loop cmd ch cv = Some r"
  using assms
proof (induction "n + 2 - ch" arbitrary: ch cv rule: less_induct)
  case less
  define w where "w = takeWhile (\<lambda>c. c \<noteq> 0 \<and> c \<noteq> 32 \<and> c \<noteq> 9) (take (MAX_LENGTH - 1) (drop ch cmd))"
  consider "cmd ! ch = 0" | "cmd ! ch = 32" "ch < n" | "cmd ! ch \<noteq> 0" "cmd ! ch \<noteq> 32" "ch < n"
    using less.prems by (cases "ch < n") (auto simp: not_less le_Suc_eq)
  then show ?case
  proof cases
    case 3
    have "ch + length w \<le> n"
    proof (rule ccontr)
      assume "\<not> ch + length w \<le> n"
      then have "n - ch < length w" using 3 by simp
      then have "w ! (n - ch) = cmd ! n" using 3 less.prems unfolding w_def
        by (subst takeWhile_nth) (auto dest: less_le_trans[OF _ length_takeWhile_le])
      moreover have "w ! (n - ch) \<in> set w" using \<open>n - ch < length w\<close> by simp
      ultimately show False using less.prems(2) by (auto simp: w_def dest: set_takeWhileD)
    qed
    moreover from this have "config_loop cmd ch cv = config_loop cmd (Suc (ch + length w)) (read_setting w cv)"
      using 3 less.prems by (subst config_loop.simps, unfold Let_def w_def[symmetric]) simp
    ultimately show ?thesis using 3 less.prems less.hyps[of "Suc (ch + length w)" "read_setting w cv"] by simp
  qed (use less in \<open>simp_all add: config_loop.simps[of _ ch]\<close>)
qed

lemma command_line_overrun:
  assumes "length cmd = 256" "\<forall>c \<in> set (take 255 cmd). c \<noteq> 0 \<and> c \<noteq> 32 \<and> c \<noteq> 9" "cmd ! 255 = 0"
  shows "read_network_config cmd c = None"
proof -
  have w: "takeWhile (\<lambda>c. c \<noteq> 0 \<and> c \<noteq> 32 \<and> c \<noteq> 9) (take (MAX_LENGTH - 1) (drop 0 cmd)) = take 255 cmd"
    using assms(2) by (simp add: MAX_LENGTH_def takeWhile_eq_all_conv)
  have "cmd ! 0 \<in> set (take 255 cmd)" using assms(1) by (auto simp: set_conv_nth intro!: exI[of _ 0])
  then have "config_loop cmd 0 cv = config_loop cmd 256 (read_setting (take 255 cmd) cv)" for cv
    by (subst config_loop.simps) (use assms(1,2) w in \<open>auto simp: Let_def\<close>)
  moreover have "config_loop cmd 256 cv = None" for cv by (subst config_loop.simps) (simp add: assms(1))
  ultimately show ?thesis by (simp add: read_network_config_def)
qed

text \<open>Registering a range marks exactly the huge pages in it, above the kernel.\<close>

lemma register_one:
  assumes "i < MAX_N_HUGE_PAGES"
  shows "\<exists>m'. register_available_huge_page (of_nat i * HUGE_PAGE_SIZE) m = Some m' \<and>
    huge_page_map m' = (\<lambda>k. huge_page_map m k \<or> (k = i \<and> 8 \<le> i))"
proof -
  let ?a = "of_nat i * HUGE_PAGE_SIZE"
  have i: "i < 261632" using assms by (simp add: MAX_N_HUGE_PAGES_def)
  then have n: "unat (of_nat i :: u64) = i" by (intro unat_of_nat_lt) simp
  have a: "unat ?a = i * 2097152"
    using unat_mult_fits[of "of_nat i :: u64" HUGE_PAGE_SIZE] i n by (simp add: HUGE_PAGE_SIZE_def)
  have md: "?a mod HUGE_PAGE_SIZE = 0"
    unfolding word_unat_eq_iff unat_mod a by (simp add: HUGE_PAGE_SIZE_def)
  have dv: "unat (ucast (?a div HUGE_PAGE_SIZE) :: u32) = i"
    using i a by (subst unat_ucast_fits) (simp_all add: unat_div HUGE_PAGE_SIZE_def)
  have lt: "?a < MAX_MEMORY_SIZE" using i a by (simp add: word_less_nat_alt MAX_MEMORY_SIZE_def)
  have kb: "?a < kernel_break \<longleftrightarrow> i < 8" using a by (simp add: word_less_nat_alt kernel_break_def)
  show ?thesis
    using md lt kb dv assms by (auto simp: register_available_huge_page_def huge_page_at_def c_assert_def Let_def fun_eq_iff)
qed

lemma register_range_marks:
  assumes s: "unat start = a * 2097152" and f: "unat fin = b * 2097152" "b \<le> MAX_N_HUGE_PAGES"
  shows "\<exists>m'. register_range start fin m = Some m' \<and>
    huge_page_map m' = (\<lambda>k. huge_page_map m k \<or> (8 \<le> k \<and> a \<le> k \<and> k < b))"
proof -
  have len: "(unat fin - unat start + (unat HUGE_PAGE_SIZE - 1)) div unat HUGE_PAGE_SIZE = b - a"
    unfolding s f(1) by (cases "a \<le> b") (simp_all add: HUGE_PAGE_SIZE_def diff_mult_distrib[symmetric])
  have st: "start = of_nat a * HUGE_PAGE_SIZE"
    using arg_cong[OF s, of "of_nat :: nat \<Rightarrow> u64"] by (simp add: HUGE_PAGE_SIZE_def)
  have "\<exists>m'. for_opt (\<lambda>i. register_available_huge_page (start + of_nat i * HUGE_PAGE_SIZE)) [0..<b - a] m = Some m' \<and>
      huge_page_map m' = (\<lambda>k. huge_page_map m k \<or> (8 \<le> k \<and> a \<le> k \<and> k < a + (b - a)))"
  proof (rule for_opt_upt_inv[where P = "\<lambda>i m'. huge_page_map m' = (\<lambda>k. huge_page_map m k \<or> (8 \<le> k \<and> a \<le> k \<and> k < a + i))"])
    fix i and m1 :: PM assume i: "i < b - a" and P: "huge_page_map m1 = (\<lambda>k. huge_page_map m k \<or> (8 \<le> k \<and> a \<le> k \<and> k < a + i))"
    have e: "start + of_nat i * HUGE_PAGE_SIZE = of_nat (a + i) * HUGE_PAGE_SIZE" by (simp add: st algebra_simps)
    have "a + i < MAX_N_HUGE_PAGES" using i f(2) by simp
    from register_one[OF this, of m1] show "\<exists>s'. register_available_huge_page (start + of_nat i * HUGE_PAGE_SIZE) m1 = Some s' \<and>
        huge_page_map s' = (\<lambda>k. huge_page_map m k \<or> (8 \<le> k \<and> a \<le> k \<and> k < a + Suc i))"
      unfolding e by (auto simp: P fun_eq_iff less_Suc_eq)
  qed auto
  then show ?thesis unfolding register_range_def len by (auto simp: fun_eq_iff)
qed

text \<open>The interrupt mask: the bit of a line, and what the two controllers were told last.\<close>

lemma pic_enable_bit: "irq < 16 \<Longrightarrow> \<exists>p'. pic_enable irq p = Some p' \<and> (\<forall>n < 16. bit (mask_8259A p') n \<longleftrightarrow> bit (mask_8259A p) n \<and> n \<noteq> unat irq)"
  by (auto simp: pic_enable_def c_assert_def set_mask_8259A_def pic_out_def Let_def bit_simps word_less_nat_alt)

lemma pic_disable_bit: "irq < 16 \<Longrightarrow> \<exists>p'. pic_disable irq p = Some p' \<and> (\<forall>n < 16. bit (mask_8259A p') n \<longleftrightarrow> bit (mask_8259A p) n \<or> n = unat irq)"
  by (auto simp: pic_disable_def c_assert_def set_mask_8259A_def pic_out_def Let_def bit_simps word_less_nat_alt)

definition told :: "Pic \<Rightarrow> bool" where
  "told p \<longleftrightarrow> (\<exists>l. out_log (pic_ports p) = l @ [(IO_PIC1 + 1, ucast (mask_8259A p)), (IO_PIC2 + 1, ucast (drop_bit 8 (mask_8259A p)))])"

lemma set_mask_told: "did_init p \<Longrightarrow> told (set_mask_8259A v p)"
  by (simp add: told_def set_mask_8259A_def pic_out_def outb_def Let_def)

lemma pic_init_told: "told (pic_init (pic_start p))"
proof -
  have "mask_8259A (pic_start p) \<noteq> 0xFFFF" "did_init (pic_out a v q) = did_init q" "mask_8259A (pic_out a v q) = mask_8259A q" for a v q
    by (simp_all add: pic_start_def pic_out_def IRQ_SLAVE_def)
  then show ?thesis unfolding pic_init_def Let_def by (simp add: set_mask_told)
qed

lemma ucast_ucast_u8: "ucast (ucast w :: u64) = w" for w :: u8
  by (rule bit_word_eqI) (simp add: bit_simps)

text \<open>An address in dotted decimal form is scanned back.\<close>

lemma read_ip_printed:
  "read_ip (lu a @ [46] @ lu b @ [46] @ lu c @ [46] @ lu d) [x1, x2, x3, x4] = (True, [a, b, c, d])" for a b c d :: u8
proof -
  have u: "lu w = lu (ucast w :: u64)" for w :: u8 by (simp add: lu_def unat_ucast_up)
  have dw: "dropWhile is_space (lu w @ r) = lu w @ r" for w :: u64 and r by (rule dropWhile_lu)
  have dot: "\<not> is_digit 46" by (simp add: is_digit_def)
  have f: "fmt ''%hhu.%hhu.%hhu.%hhu'' = [LU, Lit 46, LU, Lit 46, LU, Lit 46, LU]" by simp
  have "sscanf (LU # ds) (lu w @ r) = Num w # sscanf ds r" if "r = [] \<or> \<not> is_digit (hd r)" for w :: u64 and r ds
    using dw that by (rule sscanf_LU)
  note n = this[of "46 # _", simplified, OF dot] this[of "[]", simplified]
  show ?thesis unfolding read_ip_def f u[of a] u[of b] u[of c] u[of d] using n by (simp add: assigned_def ucast_ucast_u8)
qed

end
